(* ===== verification/Prelude.thy ===== *)
theory Prelude
  imports Main "HOL-Library.Word" "HOL-Library.Char_ord" "HOL-Library.List_Lexorder"
    "HOL-Library.Sublist"
begin

text \<open>
  What every component of the development shares: the machine types of the Go program, the
  conversion between Go strings and byte slices, and the generic lemmas on lists and words
  that the component proofs use.

  A Go string is a sequence of bytes; it is modelled as \<open>string\<close>, a list of the 256
  characters of HOL. A Go byte slice is a list of 8-bit words. \<open>bytes_of\<close> and
  \<open>string_of\<close> are the two conversions of Go, and each is the inverse of the other.
\<close>

unbundle bit_operations_syntax

section \<open>Machine types\<close>

type_synonym byte = "8 word"
type_synonym u32 = "32 word"
type_synonym u64 = "64 word"
type_synonym i64 = "64 word" \<comment> \<open>read with \<open>sint\<close>, compared with \<open><s\<close> and \<open>\<le>s\<close>\<close>

named_theorems word_bits \<open>bit-level facts on the conversions between machine integers\<close>

section \<open>Strings and byte slices\<close>

definition byte_of_char :: "char \<Rightarrow> byte" where
  "byte_of_char c = of_nat (of_char c)"

definition char_of_byte :: "byte \<Rightarrow> char" where
  "char_of_byte b = char_of (unat b)"

definition bytes_of :: "string \<Rightarrow> byte list" where
  "bytes_of s = map byte_of_char s"

definition string_of :: "byte list \<Rightarrow> string" where
  "string_of bs = map char_of_byte bs"

lemma of_char_less_256 [simp]: "of_char c < (256 :: nat)"
  by (rule nat_of_char_less_256)

lemma unat_byte_of_char [simp]: "unat (byte_of_char c) = of_char c"
  by (simp add: byte_of_char_def unat_of_nat)

lemma char_of_byte_of_char [simp]: "char_of_byte (byte_of_char c) = c"
  by (simp add: char_of_byte_def)

lemma byte_of_char_of_byte [simp]: "byte_of_char (char_of_byte b) = b"
proof -
  have "unat b < 256" using unsigned_less [of b] by simp
  then show ?thesis by (simp add: byte_of_char_def char_of_byte_def)
qed

lemma string_of_bytes_of [simp]: "string_of (bytes_of s) = s"
  by (simp add: string_of_def bytes_of_def o_def)

lemma bytes_of_string_of [simp]: "bytes_of (string_of bs) = bs"
  by (simp add: string_of_def bytes_of_def o_def)

lemma length_bytes_of [simp]: "length (bytes_of s) = length s"
  by (simp add: bytes_of_def)

lemma length_string_of [simp]: "length (string_of bs) = length bs"
  by (simp add: string_of_def)

lemma bytes_of_append [simp]: "bytes_of (a @ b) = bytes_of a @ bytes_of b"
  by (simp add: bytes_of_def)

lemma bytes_of_eq_iff [simp]: "bytes_of a = bytes_of b \<longleftrightarrow> a = b"
  by (metis string_of_bytes_of)

section \<open>Lists\<close>

lemma take_append_self [simp]: "take (length xs) (xs @ ys) = xs"
  by simp

lemma drop_append_self [simp]: "drop (length xs) (xs @ ys) = ys"
  by simp

text \<open>The library's \<open>sorted_wrt\<close> on two lists that share their last and first elements.\<close>

lemma sorted_wrt_snoc:
  "transp R \<Longrightarrow> sorted_wrt R xs \<Longrightarrow> (xs \<noteq> [] \<Longrightarrow> R (last xs) x) \<Longrightarrow> sorted_wrt R (xs @ [x])"
proof (induction xs)
  case Nil
  then show ?case by simp
next
  case (Cons a xs)
  show ?case
  proof (cases "xs = []")
    case True
    with Cons.prems show ?thesis by simp
  next
    case False
    with Cons.prems have "R (last xs) x" and "R a (last xs)" by auto
    then have "R a x" using Cons.prems(1) by (blast dest: transpD)
    with Cons False show ?thesis by simp
  qed
qed

end
