(* ===== verification/Canon.thy ===== *)
theory Canon
  imports Prelude
begin

text \<open>
  \<open>internal/canon/key.go\<close>: the canonical order of paths. \<open>compare_key\<close> is the loop of
  \<open>CompareKey\<close>, one step per byte of the common length and then the comparison of the two
  lengths. The order is the one of a depth-first walk, because the slash sorts lower than
  any other byte.

  The theory shows that the order is total on every pair of byte strings, that it agrees
  with the walk (a directory before its contents, its contents before its next sibling,
  every subtree contiguous), and makes the wrapped type \<open>pkey\<close> an instance of
  \<open>linorder\<close>, so that the sorted lists and sets of the library apply to paths.
\<close>

section \<open>CompareKey\<close>

fun compare_key :: "string \<Rightarrow> string \<Rightarrow> int" where
  "compare_key (ca # as) (cb # bs) =
     (if ca = cb then compare_key as bs
      else if ca = CHR ''/'' then - 1
      else if cb = CHR ''/'' then 1
      else if ca < cb then - 1
      else 1)"
| "compare_key [] [] = 0"
| "compare_key [] (cb # bs) = - 1"
| "compare_key (ca # as) [] = 1"

text \<open>
  The reference the loop is compared with: the rank of a byte, the slash lowest, and the
  lexicographic order of the lists of ranks.
\<close>

definition key_rank :: "char \<Rightarrow> nat" where
  "key_rank c = (if c = CHR ''/'' then 0 else Suc (of_char c))"

lemma key_rank_inj: "inj key_rank"
  by (auto simp: inj_def key_rank_def)

lemma key_rank_eq_iff [simp]: "key_rank a = key_rank b \<longleftrightarrow> a = b"
  using key_rank_inj by (auto dest: injD)

lemma key_rank_less_iff:
  "key_rank a < key_rank b \<longleftrightarrow>
     a \<noteq> b \<and> (a = CHR ''/'' \<or> (b \<noteq> CHR ''/'' \<and> a < b))"
  by (auto simp: key_rank_def less_char_def)

lemma compare_key_rank:
  "compare_key a b =
     (if map key_rank a < map key_rank b then - 1
      else if map key_rank b < map key_rank a then 1 else 0)"
proof (induction a b rule: compare_key.induct)
  case (1 ca as cb bs)
  then show ?case
    by (auto simp: key_rank_less_iff not_less)
qed auto

lemma map_key_rank_eq [simp]: "map key_rank a = map key_rank b \<longleftrightarrow> a = b"
  using key_rank_inj by (simp add: inj_map_eq_map)

lemma compare_key_less_iff: "compare_key a b < 0 \<longleftrightarrow> map key_rank a < map key_rank b"
  by (simp add: compare_key_rank)

lemma compare_key_range: "compare_key a b \<in> {- 1, 0, 1}"
  by (simp add: compare_key_rank)

section \<open>The interface of the order\<close>

text \<open>
  What the store and the merge join rely on when they compare keys: a comparison function
  whose sign is a strict total order. The lemmas about increasing streams of keys are
  proved once here.
\<close>

locale key_order =
  fixes cmp :: "'k \<Rightarrow> 'k \<Rightarrow> int"
  assumes cmp_refl: "cmp a a = 0"
    and cmp_eq: "cmp a b = 0 \<Longrightarrow> a = b"
    and cmp_sym: "0 < cmp a b \<longleftrightarrow> cmp b a < 0"
    and cmp_trans: "cmp a b < 0 \<Longrightarrow> cmp b c < 0 \<Longrightarrow> cmp a c < 0"
begin

lemma zero_iff: "cmp a b = 0 \<longleftrightarrow> a = b"
  using cmp_refl cmp_eq by blast

lemma not_less_iff: "0 \<le> cmp a b \<longleftrightarrow> a = b \<or> cmp b a < 0"
proof -
  have "0 \<le> cmp a b \<longleftrightarrow> cmp a b = 0 \<or> 0 < cmp a b" by linarith
  then show ?thesis by (simp add: zero_iff cmp_sym)
qed

lemma irrefl: "\<not> cmp a a < 0"
  by (simp add: cmp_refl)

lemma asym: "cmp a b < 0 \<Longrightarrow> \<not> cmp b a < 0"
  using cmp_trans irrefl by blast

lemma less_transp: "transp (\<lambda>a b. cmp a b < 0)"
  by (rule transpI) (rule cmp_trans)

text \<open>An increasing list of keys holds no key twice, and its set determines it.\<close>

lemma increasing_distinct: "sorted_wrt (\<lambda>a b. cmp a b < 0) ks \<Longrightarrow> distinct ks"
  by (induction ks) (auto simp: cmp_refl)

lemma increasing_unique:
  "sorted_wrt (\<lambda>a b. cmp a b < 0) xs \<Longrightarrow> sorted_wrt (\<lambda>a b. cmp a b < 0) ys \<Longrightarrow>
   set xs = set ys \<Longrightarrow> xs = ys"
proof (induction xs arbitrary: ys)
  case Nil
  then show ?case by simp
next
  case (Cons x xs)
  then obtain y ys' where ys: "ys = y # ys'" by (cases ys) auto
  have xy: "x = y"
  proof (rule ccontr)
    assume "x \<noteq> y"
    with Cons.prems ys have "y \<in> set xs" and "x \<in> set ys'" by auto
    with Cons.prems ys have "cmp x y < 0" and "cmp y x < 0" by auto
    then show False using asym by blast
  qed
  have "x \<notin> set xs" and "y \<notin> set ys'"
    using Cons.prems ys by (auto simp: cmp_refl)
  with Cons.prems(3) ys xy have "set xs = set ys'" by auto
  with Cons ys have "xs = ys'" by simp
  with xy ys show ?case by simp
qed

lemma increasing_snoc:
  "sorted_wrt (\<lambda>a b. cmp a b < 0) xs \<Longrightarrow> (xs \<noteq> [] \<Longrightarrow> cmp (last xs) x < 0) \<Longrightarrow>
   sorted_wrt (\<lambda>a b. cmp a b < 0) (xs @ [x])"
  by (rule sorted_wrt_snoc [OF less_transp])

end

interpretation canon: key_order compare_key
proof unfold_locales
  fix a b c :: string
  show "compare_key a a = 0" by (simp add: compare_key_rank)
  show "compare_key a b = 0 \<Longrightarrow> a = b"
    by (simp add: compare_key_rank not_less split: if_splits)
  show "0 < compare_key a b \<longleftrightarrow> compare_key b a < 0"
    by (auto simp: compare_key_rank)
  show "compare_key a b < 0 \<Longrightarrow> compare_key b c < 0 \<Longrightarrow> compare_key a c < 0"
    by (auto simp: compare_key_less_iff)
qed

abbreviation key_less :: "string \<Rightarrow> string \<Rightarrow> bool" where
  "key_less a b \<equiv> compare_key a b < 0"

abbreviation increasing_keys :: "string list \<Rightarrow> bool" where
  "increasing_keys ks \<equiv> sorted_wrt key_less ks"

lemmas key_less_simps = canon.zero_iff canon.not_less_iff canon.cmp_refl

section \<open>Paths as a linear order of the library\<close>

datatype pkey = PKey (key_path: string)

instantiation pkey :: linorder
begin

definition less_eq_pkey :: "pkey \<Rightarrow> pkey \<Rightarrow> bool" where
  "less_eq_pkey a b = (compare_key (key_path a) (key_path b) \<le> 0)"

definition less_pkey :: "pkey \<Rightarrow> pkey \<Rightarrow> bool" where
  "less_pkey a b = (compare_key (key_path a) (key_path b) < 0)"

instance
proof
  fix x y z :: pkey
  have le: "a \<le> b \<longleftrightarrow> map key_rank (key_path a) \<le> map key_rank (key_path b)" for a b :: pkey
    by (auto simp: less_eq_pkey_def compare_key_rank)
  have lt: "a < b \<longleftrightarrow> map key_rank (key_path a) < map key_rank (key_path b)" for a b :: pkey
    by (simp add: less_pkey_def compare_key_less_iff)
  show "x < y \<longleftrightarrow> x \<le> y \<and> \<not> y \<le> x"
    by (auto simp: le lt order.strict_iff_order)
  show "x \<le> x" by (simp add: le)
  show "x \<le> y \<Longrightarrow> y \<le> z \<Longrightarrow> x \<le> z" by (auto simp: le)
  show "x \<le> y \<Longrightarrow> y \<le> x \<Longrightarrow> x = y" by (auto simp: le intro: pkey.expand)
  show "x \<le> y \<or> y \<le> x" by (auto simp: le)
qed

end

lemma less_PKey [simp]: "PKey a < PKey b \<longleftrightarrow> key_less a b"
  by (simp add: less_pkey_def)

lemma sorted_wrt_PKey: "sorted_wrt (<) (map PKey ks) \<longleftrightarrow> increasing_keys ks"
  by (simp add: sorted_wrt_map)

section \<open>The order of a depth-first walk\<close>

lemma compare_key_append [simp]: "compare_key (p @ a) (p @ b) = compare_key a b"
  by (induction p) auto

lemma compare_key_prefix: "b \<noteq> [] \<Longrightarrow> key_less a (a @ b)"
  by (induction a) (auto simp: neq_Nil_conv)

text \<open>\<open>boundary r\<close>: what follows a complete path component, nothing or a slash.\<close>

definition boundary :: "string \<Rightarrow> bool" where
  "boundary r \<longleftrightarrow> r = [] \<or> hd r = CHR ''/''"

text \<open>
  Two siblings in the byte order of their names, whatever follows their names: the walk
  visits the first with everything below it before the second.
\<close>

lemma compare_key_siblings:
  "n1 < n2 \<Longrightarrow> CHR ''/'' \<notin> set n1 \<Longrightarrow> CHR ''/'' \<notin> set n2 \<Longrightarrow> boundary r1 \<Longrightarrow> boundary r2 \<Longrightarrow>
   key_less (n1 @ r1) (n2 @ r2)"
proof (induction n1 arbitrary: n2)
  case Nil
  then obtain c n where n2: "n2 = c # n" by (cases n2) auto
  with Nil have "c \<noteq> CHR ''/''" by auto
  with n2 Nil show ?case by (cases r1) (auto simp: boundary_def)
next
  case (Cons a n1)
  then obtain c n where n2: "n2 = c # n" by (cases n2) auto
  with Cons show ?case by auto
qed

end
