(* ===== verification/Entry.thy ===== *)
theory Entry
  imports Prelude
begin

text \<open>
  \<open>internal/scan/entry.go\<close>: the kinds of filesystem objects, the entry every component
  passes on, and the two conversions from a Go file mode. An entry field keeps the width of
  its Go type; a \<open>[32]byte\<close> is a list of 32 bytes, which \<open>entry_wf\<close> states.
\<close>

section \<open>Types\<close>

text \<open>
  \<open>Type\<close> is a byte and stays one: a decoded fingerprint may hold any value.
\<close>

type_synonym ftype = byte

definition type_unknown :: ftype where "type_unknown = 0"
definition type_dir :: ftype where "type_dir = byte_of_char CHR ''d''"
definition type_file :: ftype where "type_file = byte_of_char CHR ''f''"
definition type_symlink :: ftype where "type_symlink = byte_of_char CHR ''l''"
definition type_fifo :: ftype where "type_fifo = byte_of_char CHR ''p''"
definition type_socket :: ftype where "type_socket = byte_of_char CHR ''s''"
definition type_char_device :: ftype where "type_char_device = byte_of_char CHR ''c''"
definition type_block_device :: ftype where "type_block_device = byte_of_char CHR ''b''"
definition type_error :: ftype where "type_error = byte_of_char CHR ''!''"

lemma type_codes [simp]:
  "type_unknown = 0" "type_dir = 100" "type_file = 102" "type_symlink = 108" "type_fifo = 112"
  "type_socket = 115" "type_char_device = 99" "type_block_device = 98" "type_error = 33"
  by (simp_all add: type_unknown_def type_dir_def type_file_def type_symlink_def type_fifo_def
      type_socket_def type_char_device_def type_block_device_def type_error_def byte_of_char_def)

text \<open>\<open>Type.String\<close>.\<close>

definition type_string :: "ftype \<Rightarrow> string" where
  "type_string t =
     (if t = type_dir then ''directory''
      else if t = type_file then ''file''
      else if t = type_symlink then ''symlink''
      else if t = type_fifo then ''fifo''
      else if t = type_socket then ''socket''
      else if t = type_char_device then ''character device''
      else if t = type_block_device then ''block device''
      else if t = type_error then ''unreadable''
      else ''unknown'')"

section \<open>Entries\<close>

record entry =
  e_path :: string
  e_type :: ftype
  e_mode :: u32
  e_uid :: u32
  e_gid :: u32
  e_size :: i64
  e_mtime :: i64
  e_hash :: "byte list"
  e_hashed :: bool
  e_partial :: bool
  e_link :: string
  e_dev :: u64
  e_ino :: u64
  e_nlink :: u32
  e_err :: string

definition zero_hash :: "byte list" where
  "zero_hash = replicate 32 0"

text \<open>The zero value \<open>Entry{}\<close>.\<close>

definition zero_entry :: entry where
  "zero_entry = \<lparr>e_path = [], e_type = 0, e_mode = 0, e_uid = 0, e_gid = 0, e_size = 0,
     e_mtime = 0, e_hash = zero_hash, e_hashed = False, e_partial = False, e_link = [],
     e_dev = 0, e_ino = 0, e_nlink = 0, e_err = []\<rparr>"

lemma length_zero_hash [simp]: "length zero_hash = 32"
  by (simp add: zero_hash_def)

lemma zero_entry_sel [simp]:
  "e_path zero_entry = []" "e_type zero_entry = 0" "e_mode zero_entry = 0" "e_uid zero_entry = 0"
  "e_gid zero_entry = 0" "e_size zero_entry = 0" "e_mtime zero_entry = 0"
  "e_hash zero_entry = zero_hash" "e_hashed zero_entry = False" "e_partial zero_entry = False"
  "e_link zero_entry = []" "e_dev zero_entry = 0" "e_ino zero_entry = 0" "e_nlink zero_entry = 0"
  "e_err zero_entry = []"
  by (simp_all add: zero_entry_def)

definition is_dir :: "entry \<Rightarrow> bool" where
  "is_dir e \<longleftrightarrow> e_type e = type_dir"

text \<open>What the Go type of an entry guarantees, and what the scanner adds to it.\<close>

definition entry_wf :: "entry \<Rightarrow> bool" where
  "entry_wf e \<longleftrightarrow> length (e_hash e) = 32 \<and> (\<not> e_hashed e \<longrightarrow> e_hash e = zero_hash)"

section \<open>File modes\<close>

text \<open>The bits of \<open>io/fs.FileMode\<close>.\<close>

definition mode_dir :: u32 where "mode_dir = push_bit 31 1"
definition mode_symlink :: u32 where "mode_symlink = push_bit 27 1"
definition mode_device :: u32 where "mode_device = push_bit 26 1"
definition mode_named_pipe :: u32 where "mode_named_pipe = push_bit 25 1"
definition mode_socket :: u32 where "mode_socket = push_bit 24 1"
definition mode_setuid :: u32 where "mode_setuid = push_bit 23 1"
definition mode_setgid :: u32 where "mode_setgid = push_bit 22 1"
definition mode_char_device :: u32 where "mode_char_device = push_bit 21 1"
definition mode_sticky :: u32 where "mode_sticky = push_bit 20 1"
definition mode_irregular :: u32 where "mode_irregular = push_bit 19 1"

definition mode_type :: u32 where
  "mode_type = mode_dir OR mode_symlink OR mode_named_pipe OR mode_socket OR mode_device
     OR mode_char_device OR mode_irregular"

definition type_of :: "u32 \<Rightarrow> ftype" where
  "type_of m =
     (if m AND mode_type = 0 then type_file
      else if m AND mode_dir \<noteq> 0 then type_dir
      else if m AND mode_symlink \<noteq> 0 then type_symlink
      else if m AND mode_named_pipe \<noteq> 0 then type_fifo
      else if m AND mode_socket \<noteq> 0 then type_socket
      else if m AND mode_char_device \<noteq> 0 then type_char_device
      else if m AND mode_device \<noteq> 0 then type_block_device
      else type_unknown)"

definition unix_mode :: "u32 \<Rightarrow> u32" where
  "unix_mode m =
     (let out = m AND 0x1FF;
          out = (if m AND mode_setuid \<noteq> 0 then out OR 0x800 else out);
          out = (if m AND mode_setgid \<noteq> 0 then out OR 0x400 else out)
      in if m AND mode_sticky \<noteq> 0 then out OR 0x200 else out)"

text \<open>A test of one mode bit, as the code writes it, is the bit.\<close>

lemma and_push_bit_one: "m AND push_bit n 1 \<noteq> 0 \<longleftrightarrow> n < 32 \<and> bit (m :: u32) n"
proof
  assume "m AND push_bit n 1 \<noteq> 0"
  then obtain k where "bit (m AND push_bit n 1) k" by (auto simp: bit_eq_iff)
  then show "n < 32 \<and> bit m n" by (auto simp: bit_simps)
next
  assume "n < 32 \<and> bit m n"
  then have "bit (m AND push_bit n 1) n" by (auto simp: bit_simps)
  then show "m AND push_bit n 1 \<noteq> 0" by (metis bit_0_eq bot_apply bot_bool_def)
qed

lemma mode_bit_tests [word_bits]:
  "m AND mode_dir \<noteq> 0 \<longleftrightarrow> bit m 31" "m AND mode_symlink \<noteq> 0 \<longleftrightarrow> bit m 27"
  "m AND mode_device \<noteq> 0 \<longleftrightarrow> bit m 26" "m AND mode_named_pipe \<noteq> 0 \<longleftrightarrow> bit m 25"
  "m AND mode_socket \<noteq> 0 \<longleftrightarrow> bit m 24" "m AND mode_setuid \<noteq> 0 \<longleftrightarrow> bit m 23"
  "m AND mode_setgid \<noteq> 0 \<longleftrightarrow> bit m 22" "m AND mode_char_device \<noteq> 0 \<longleftrightarrow> bit m 21"
  "m AND mode_sticky \<noteq> 0 \<longleftrightarrow> bit m 20" "m AND mode_irregular \<noteq> 0 \<longleftrightarrow> bit m 19"
  by (simp_all only: mode_dir_def mode_symlink_def mode_device_def mode_named_pipe_def
      mode_socket_def mode_setuid_def mode_setgid_def mode_char_device_def mode_sticky_def
      mode_irregular_def and_push_bit_one) simp_all

lemma bit_masks:
  "bit (511 :: int) n \<longleftrightarrow> n < 9" "bit (2048 :: int) n \<longleftrightarrow> n = 11"
  "bit (1024 :: int) n \<longleftrightarrow> n = 10" "bit (512 :: int) n \<longleftrightarrow> n = 9"
proof -
  have m: "(511 :: int) = mask 9" by (simp add: mask_eq_exp_minus_1)
  have e: "(2048 :: int) = 2 ^ 11" "(1024 :: int) = 2 ^ 10" "(512 :: int) = 2 ^ 9" by simp_all
  show "bit (511 :: int) n \<longleftrightarrow> n < 9"
    by (simp only: m bit_mask_iff) (simp add: possible_bit_def)
  show "bit (2048 :: int) n \<longleftrightarrow> n = 11" "bit (1024 :: int) n \<longleftrightarrow> n = 10" "bit (512 :: int) n \<longleftrightarrow> n = 9"
    by (simp_all only: e bit_exp_iff) (auto simp: possible_bit_def)
qed

text \<open>
  \<open>unix_mode\<close> keeps exactly the twelve bits of \<open>chmod\<close>: the nine permission bits in
  place, sticky, setgid and setuid above them.
\<close>

lemma bit_unix_mode:
  "bit (unix_mode m) n \<longleftrightarrow>
     n < 9 \<and> bit m n \<or> n = 9 \<and> bit m 20 \<or> n = 10 \<and> bit m 22 \<or> n = 11 \<and> bit m 23"
  by (auto simp: unix_mode_def Let_def mode_bit_tests bit_or_iff bit_and_iff bit_masks)

end
