(* ===== verification/Go_Binary.thy ===== *)
theory Go_Binary
  imports Prelude
begin

text \<open>
  The part of Go's \<open>encoding/binary\<close> that the fingerprint format uses: unsigned and signed
  varints and little-endian integers. The definitions are the loops of the standard
  library, on words of the width the library uses. The lemmas are the round trips, with
  whatever follows the encoded value left untouched, and the bounds on the number of bytes.
\<close>

section \<open>Reading words as numbers\<close>

lemma unat_drop_bit [simp]: "unat (drop_bit n (x :: 'a::len word)) = unat x div 2 ^ n"
  by (subst unat_drop_bit_eq) (rule drop_bit_eq_div)

lemma byte_bit7 [word_bits]: "bit (b :: byte) 7 \<longleftrightarrow> 128 \<le> b"
proof -
  have lt: "unat b < 256" using unsigned_less [of b] by simp
  have p: "(2 :: nat) ^ 7 = 128" by simp
  have "bit b 7 \<longleftrightarrow> bit (unat b) 7" by (simp add: bit_unsigned_iff)
  also have "\<dots> \<longleftrightarrow> odd (unat b div 128)" by (simp only: bit_iff_odd p)
  also have "unat b div 128 = (if 128 \<le> unat b then 1 else 0)"
    using lt by (auto intro: div_nat_eqI)
  also have "odd (if 128 \<le> unat b then 1 else 0 :: nat) \<longleftrightarrow> 128 \<le> unat b" by simp
  finally show ?thesis by (simp add: word_le_nat_alt)
qed

section \<open>Unsigned varints\<close>

text \<open>\<open>binary.AppendUvarint\<close>: seven bits a byte, the high bit set on all but the last.\<close>

function put_uvarint :: "u64 \<Rightarrow> byte list" where
  "put_uvarint x =
     (if 128 \<le> x then (ucast x OR 128) # put_uvarint (drop_bit 7 x) else [ucast x])"
  by pat_completeness auto
termination
proof (relation "measure unat")
  fix x :: u64
  assume "128 \<le> x"
  then have "unat x > 0" by (simp add: word_le_nat_alt)
  then have "unat x div 128 < unat x" by simp
  then show "(drop_bit 7 x, x) \<in> measure unat" by (simp only: in_measure unat_drop_bit) simp
qed simp

declare put_uvarint.simps [simp del]

text \<open>
  \<open>binary.Uvarint\<close>: the value and the number of bytes read; the number is 0 when the buffer
  is too short and negative when the value overflows 64 bits.
\<close>

fun uvarint_loop :: "nat \<Rightarrow> nat \<Rightarrow> u64 \<Rightarrow> byte list \<Rightarrow> u64 \<times> int" where
  "uvarint_loop i s x [] = (0, 0)"
| "uvarint_loop i s x (b # bs) =
     (if i = 10 then (0, - (int i + 1))
      else if b < 128 then
        (if i = 9 \<and> 1 < b then (0, - (int i + 1))
         else (x OR push_bit s (ucast b), int i + 1))
      else uvarint_loop (i + 1) (s + 7) (x OR push_bit s (ucast (b AND 127))) bs)"

definition uvarint :: "byte list \<Rightarrow> u64 \<times> int" where
  "uvarint buf = uvarint_loop 0 0 0 buf"

lemma put_uvarint_small: "x < 128 \<Longrightarrow> put_uvarint x = [ucast x]"
  by (subst put_uvarint.simps) (simp only: not_le [symmetric] if_False)

lemma put_uvarint_large:
  "128 \<le> x \<Longrightarrow> put_uvarint x = (ucast x OR 128) # put_uvarint (drop_bit 7 x)"
  by (subst put_uvarint.simps) simp

lemma put_uvarint_nonempty [simp]: "put_uvarint x \<noteq> []"
  by (subst put_uvarint.simps) simp

lemma less_128_bits: "(x :: u64) < 128 \<longleftrightarrow> drop_bit 7 x = 0"
proof -
  have "x < 128 \<longleftrightarrow> unat x < 128" by (simp add: word_less_nat_alt)
  also have "\<dots> \<longleftrightarrow> unat x div 128 = 0" by (simp add: div_eq_0_iff)
  also have "\<dots> \<longleftrightarrow> unat (drop_bit 7 x) = 0" by (simp only: unat_drop_bit) simp
  finally show ?thesis by (simp only: unat_eq_zero)
qed

lemma low7_word [word_bits]:
  "(ucast (((ucast x :: byte) OR 128) AND 127) :: u64) = take_bit 7 x"
proof (rule bit_word_eqI)
  fix n assume "n < LENGTH(64)"
  show "bit (ucast (((ucast x :: byte) OR 128) AND 127) :: u64) n = bit (take_bit 7 x) n"
  proof (cases "n < 8")
    case True
    then have "n = 0 \<or> n = 1 \<or> n = 2 \<or> n = 3 \<or> n = 4 \<or> n = 5 \<or> n = 6 \<or> n = 7" by arith
    then show ?thesis by (auto simp: bit_simps)
  next
    case False
    then show ?thesis by (auto simp: bit_simps)
  qed
qed

lemma continuation_byte [simp]: "\<not> (c :: byte) OR 128 < 128"
proof -
  have "bit (c OR 128) 7" by (simp add: bit_simps)
  then show ?thesis by (simp add: byte_bit7 not_less)
qed

lemma small_bits: "(x :: u64) < 128 \<Longrightarrow> bit x n \<Longrightarrow> n < 7"
proof (rule ccontr)
  assume "x < 128" and "bit x n" and "\<not> n < 7"
  then have "bit (drop_bit 7 x) (n - 7)" by (simp add: bit_drop_bit_eq)
  with \<open>x < 128\<close> show False by (simp add: less_128_bits)
qed

lemma ucast_small_byte: "(x :: u64) < 128 \<Longrightarrow> ucast (ucast x :: byte) = x"
  by (rule bit_word_eqI) (auto simp: bit_simps dest: small_bits)

lemma small_byte_less: "(x :: u64) < 128 \<Longrightarrow> (ucast x :: byte) < 128"
  using byte_bit7 [of "ucast x"] by (auto simp: bit_simps not_le dest: small_bits)

lemma split_low7: "push_bit s (take_bit 7 x) OR push_bit (s + 7) (drop_bit 7 x) = push_bit s (x :: u64)"
proof (rule bit_word_eqI)
  fix n assume "n < LENGTH(64)"
  show "bit (push_bit s (take_bit 7 x) OR push_bit (s + 7) (drop_bit 7 x)) n
      = bit (push_bit s x) n"
  proof (cases "n < s + 7")
    case True
    then have "n - s < 7 \<or> n < s" by arith
    with True show ?thesis by (auto simp: bit_simps)
  next
    case False
    then have "7 + (n - (s + 7)) = n - s" by arith
    with False show ?thesis by (auto simp: bit_simps)
  qed
qed

text \<open>
  The round trip with its accumulator: at the \<open>i\<close>-th byte, with \<open>7 * i\<close> bits already
  read, the loop adds the value and stops right after its encoding.
\<close>

lemma uvarint_loop_put:
  "i \<le> 9 \<Longrightarrow> unat x < 2 ^ (64 - 7 * i) \<Longrightarrow>
   uvarint_loop i (7 * i) acc (put_uvarint x @ rest)
     = (acc OR push_bit (7 * i) x, int (i + length (put_uvarint x)))"
proof (induction x arbitrary: i acc rule: put_uvarint.induct)
  case (1 x)
  show ?case
  proof (cases "128 \<le> x")
    case False
    then have x: "x < 128" by simp
    have nine: "\<not> 1 < (ucast x :: byte)" if "i = 9"
    proof -
      from that "1.prems" have "unat x \<le> 1" by simp
      then have "unat x = 0 \<or> unat x = 1" by arith
      then have "x = 0 \<or> x = 1" by (metis unsigned_word_eqI unsigned_0 unsigned_1)
      then show ?thesis by auto
    qed
    with x "1.prems"(1) show ?thesis
      by (simp add: put_uvarint_small small_byte_less ucast_small_byte)
  next
    case True
    then have big: "128 \<le> unat x" by (simp add: word_le_nat_alt)
    have i: "i < 9" using "1.prems" big by (cases "i = 9") auto
    have "(2 :: nat) ^ (64 - 7 * i) = 128 * 2 ^ (64 - 7 * (i + 1))"
    proof -
      have "64 - 7 * i = 7 + (64 - 7 * (i + 1))" using i by arith
      then show ?thesis by (simp only: power_add) simp
    qed
    with "1.prems"(2) have "unat (drop_bit 7 x) < 2 ^ (64 - 7 * (i + 1))"
      by (simp only: unat_drop_bit) (simp add: less_mult_imp_div_less mult.commute)
    with "1.IH" [OF True, of "i + 1" "acc OR push_bit (7 * i) (take_bit 7 x)"] i
    have "uvarint_loop (i + 1) (7 * i + 7) (acc OR push_bit (7 * i) (take_bit 7 x))
        (put_uvarint (drop_bit 7 x) @ rest)
      = (acc OR push_bit (7 * i) x, int (i + 1 + length (put_uvarint (drop_bit 7 x))))"
      by (simp add: or.assoc split_low7 [of "7 * i", unfolded add.commute [of _ 7]] add.commute)
    with True i show ?thesis
      by (simp add: put_uvarint_large low7_word add.commute)
  qed
qed

lemma uvarint_put [simp]: "uvarint (put_uvarint x @ rest) = (x, int (length (put_uvarint x)))"
proof -
  have "unat x < 2 ^ (64 - 7 * 0)" using unsigned_less [of x] by simp
  from uvarint_loop_put [OF _ this, of 0 rest] show ?thesis by (simp add: uvarint_def)
qed

text \<open>A successful read consumes at least one byte, at most ten, and stays in the buffer.\<close>

lemma uvarint_loop_bounds:
  "uvarint_loop i s x bs = (v, n) \<Longrightarrow> 0 < n \<Longrightarrow> i \<le> 10 \<Longrightarrow>
   int i < n \<and> n \<le> int (i + length bs) \<and> n \<le> 10"
proof (induction i s x bs rule: uvarint_loop.induct)
  case (2 i s x b bs)
  show ?case
  proof (cases "i = 10 \<or> b < 128")
    case True
    with "2.prems" show ?thesis by (auto split: if_splits)
  next
    case False
    with 2 show ?thesis by fastforce
  qed
qed simp

lemma uvarint_bounds:
  "uvarint bs = (v, n) \<Longrightarrow> 0 < n \<Longrightarrow> n \<le> int (length bs) \<and> n \<le> 10"
  using uvarint_loop_bounds [of 0 0 0 bs v n] by (simp add: uvarint_def)

lemma length_put_uvarint: "length (put_uvarint x) \<le> 10"
  using uvarint_bounds [of "put_uvarint x" x "int (length (put_uvarint x))"]
    uvarint_put [of x "[]"] by simp

section \<open>Signed varints\<close>

text \<open>\<open>binary.AppendVarint\<close> and \<open>binary.Varint\<close>: the sign moves to the lowest bit.\<close>

definition put_varint :: "i64 \<Rightarrow> byte list" where
  "put_varint x =
     (let ux = push_bit 1 x; ux = (if x <s 0 then NOT ux else ux) in put_uvarint ux)"

definition varint :: "byte list \<Rightarrow> i64 \<times> int" where
  "varint buf =
     (let (ux, n) = uvarint buf; x = drop_bit 1 ux;
          x = (if ux AND 1 \<noteq> 0 then NOT x else x)
      in (x, n))"

lemma sless_zero_bit: "(x :: i64) <s 0 \<longleftrightarrow> bit x 63"
  using bit_last_iff [of x] by (simp add: word_sless_alt)

lemma odd_word_bit: "(x :: u64) AND 1 \<noteq> 0 \<longleftrightarrow> bit x 0"
  by (simp add: and_one_eq odd_iff_mod_2_eq_one bit_0)

lemma shifted_bit:
  assumes "y = push_bit 1 (x :: i64)"
  shows "bit y n \<longleftrightarrow> 0 < n \<and> n < 64 \<and> bit x (n - 1)"
  using assms by (auto simp: bit_simps simp del: push_bit_Suc)

lemma zigzag_neg:
  assumes y: "y = push_bit 1 (x :: i64)" and neg: "bit x 63"
  shows "NOT (drop_bit 1 (NOT y)) = x"
proof (rule bit_word_eqI)
  fix n assume n: "n < LENGTH(64)"
  then have "n = 63 \<or> n < 63" by auto
  with neg show "bit (NOT (drop_bit 1 (NOT y))) n = bit x n"
    by (auto simp: bit_simps shifted_bit [OF y])
qed

lemma zigzag_pos:
  assumes y: "y = push_bit 1 (x :: i64)" and pos: "\<not> bit x 63"
  shows "drop_bit 1 y = x"
proof (rule bit_word_eqI)
  fix n assume n: "n < LENGTH(64)"
  then have "n = 63 \<or> n < 63" by auto
  with pos show "bit (drop_bit 1 y) n = bit x n"
    by (auto simp: bit_simps shifted_bit [OF y])
qed

lemma varint_put [simp]: "varint (put_varint x @ rest) = (x, int (length (put_varint x)))"
proof -
  define y where y: "y = push_bit 1 x"
  have b0: "\<not> bit y 0" by (simp add: shifted_bit [OF y])
  show ?thesis
  proof (cases "bit x 63")
    case True
    have "bit (NOT y) 0" using b0 by (simp add: bit_not_iff)
    with True zigzag_neg [OF y True] show ?thesis
      by (simp only: varint_def put_varint_def Let_def sless_zero_bit odd_word_bit y [symmetric]
          uvarint_put prod.case if_True)
  next
    case False
    with b0 zigzag_pos [OF y False] show ?thesis
      by (simp only: varint_def put_varint_def Let_def sless_zero_bit odd_word_bit y [symmetric]
          uvarint_put prod.case if_False)
  qed
qed

lemma varint_bounds:
  "varint bs = (v, n) \<Longrightarrow> 0 < n \<Longrightarrow> n \<le> int (length bs) \<and> n \<le> 10"
  using uvarint_bounds [of bs] by (auto simp: varint_def Let_def split: prod.splits)

lemma put_varint_nonempty [simp]: "put_varint x \<noteq> []"
  by (simp add: put_varint_def Let_def)

section \<open>Little-endian integers\<close>

text \<open>
  \<open>binary.LittleEndian\<close>: \<open>le_bytes n w\<close> are the \<open>n\<close> bytes \<open>PutUint32\<close> and
  \<open>AppendUint64\<close> write, and \<open>le_word\<close> is what \<open>Uint32\<close> and \<open>Uint64\<close> read.
\<close>

primrec le_bytes :: "nat \<Rightarrow> 'a::len word \<Rightarrow> byte list" where
  "le_bytes 0 w = []"
| "le_bytes (Suc n) w = ucast w # le_bytes n (drop_bit 8 w)"

primrec le_word :: "byte list \<Rightarrow> 'a::len word" where
  "le_word [] = 0"
| "le_word (b # bs) = ucast b OR push_bit 8 (le_word bs)"

lemma length_le_bytes [simp]: "length (le_bytes n w) = n"
  by (induction n arbitrary: w) auto

lemma le_word_step:
  "ucast (ucast w :: byte) OR push_bit 8 (take_bit n (drop_bit 8 w)) = take_bit (8 + n) (w :: 'a::len word)"
proof (rule bit_word_eqI)
  fix k assume "k < LENGTH('a)"
  then show "bit (ucast (ucast w :: byte) OR push_bit 8 (take_bit n (drop_bit 8 w))) k
      = bit (take_bit (8 + n) w) k"
    by (cases "k < 8") (auto simp: bit_simps)
qed

lemma le_word_le_bytes: "le_word (le_bytes n w) = take_bit (8 * n) w"
  by (induction n arbitrary: w) (simp_all add: le_word_step)

lemma le_word_u32 [simp]: "le_word (le_bytes 4 w) = (w :: u32)"
  by (simp add: le_word_le_bytes take_bit_word_eq_self)

lemma le_word_u64 [simp]: "le_word (le_bytes 8 w) = (w :: u64)"
  by (simp add: le_word_le_bytes take_bit_word_eq_self)

end
