(* ===== verification/Store_Format.thy ===== *)
theory Store_Format
  imports Entry Go_Binary Go_Sha256
begin

text \<open>
  \<open>internal/store/format.go\<close> and \<open>meta.go\<close>: the constants of the container format, its
  limits, the errors of the package as a datatype and the self-describing header \<open>Meta\<close>.
  Every \<open>fmt.Errorf\<close> that wraps \<open>ErrCorrupt\<close> is a constructor of \<open>corrupt\<close> with the
  values its message prints.
\<close>

section \<open>Constants\<close>

definition store_magic :: "byte list" where "store_magic = bytes_of ''OSFP'' @ [0]"
definition footer_magic :: "byte list" where "footer_magic = bytes_of ''OSFP'' @ [0] @ bytes_of ''END''"
definition format_version :: byte where "format_version = 1"
definition hash_sha256 :: byte where "hash_sha256 = 1"
definition compression_zstd :: byte where "compression_zstd = 1"

definition header_size :: nat where "header_size = 32"
definition footer_size :: nat where "footer_size = 9 * 8 + 32 + length footer_magic"
definition block_header_size :: nat where "block_header_size = 8"
definition default_block_size :: nat where "default_block_size = 65536"
definition max_block_size :: nat where "max_block_size = 67108864"
definition max_string_size :: nat where "max_string_size = 65536"
definition max_meta_size :: nat where "max_meta_size = 8388608"

lemma length_magics [simp]: "length store_magic = 5" "length footer_magic = 8"
  by (simp_all add: store_magic_def footer_magic_def)

lemma size_values [simp]:
  "header_size = 32" "footer_size = 112" "block_header_size = 8" "default_block_size = 65536"
  "max_block_size = 67108864" "max_string_size = 65536" "max_meta_size = 8388608"
  by (simp_all add: header_size_def footer_size_def block_header_size_def default_block_size_def
      max_block_size_def max_string_size_def max_meta_size_def)

definition flag_hashed :: byte where "flag_hashed = push_bit 0 1"
definition flag_partial :: byte where "flag_partial = push_bit 1 1"
definition flag_link :: byte where "flag_link = push_bit 2 1"
definition flag_hardlink :: byte where "flag_hardlink = push_bit 3 1"
definition flag_error :: byte where "flag_error = push_bit 4 1"

lemmas flag_defs = flag_hashed_def flag_partial_def flag_link_def flag_hardlink_def flag_error_def

section \<open>Errors\<close>

datatype corrupt =
    FileTooShort
  | MissingFooterMagic
  | SectionOutside i64 i64
  | NegativeCounters
  | MetaImplausible i64
  | MetaUnparsable
  | BlockCountMismatch i64 nat
  | UnreadableIndex
  | BlockOutside nat i64 i64
  | BlockBounds i64 i64
  | BlockLengths i64 u32 u32
  | BlockUndecodable i64
  | BlockWrongLength i64 nat u32
  | BadUvarint nat
  | BadVarint nat
  | UnexpectedEnd
  | FieldPastEnd nat
  | StringTooLong u64
  | SharedTooLong u64 nat
  | EmptyPathEntry
  | KeyOrder string string

datatype store_error =
    ErrBadMagic
  | ErrUnsupportedVersion byte
  | ErrCorrupt corrupt
  | ErrOutOfOrder string string
  | ErrDigestMismatch
  | ErrAddAfterClose
  | ErrEmptyPath
  | ErrMarshal
  | ErrWrite
  | ErrRead

text \<open>
  The outcome of a call: a value, an error value, or a run-time panic of Go, which is not
  an error value and which no caller in the program recovers.
\<close>

datatype 'a outcome = Ret 'a | Fail store_error | Panic

section \<open>Metadata\<close>

record os_info =
  oi_os :: string
  oi_distro :: string
  oi_version :: string
  oi_arch :: string
  oi_kernel :: string
  oi_pretty :: string
  oi_hostname :: string
  oi_source :: string

record scan_options =
  so_root :: string
  so_mounts :: string
  so_max_depth :: int
  so_max_file_size :: i64
  so_jobs :: int
  so_track_hardlinks :: bool

text \<open>\<open>time.Time\<close> is the number of nanoseconds since the Unix epoch, in UTC.\<close>

record meta =
  m_tool :: string
  m_tool_version :: string
  m_created_at :: int
  m_key :: string
  m_system :: os_info
  m_privileged :: bool
  m_euid :: int
  m_scan :: scan_options
  m_exclusions :: "string list"
  m_entries :: i64
  m_errors :: i64
  m_blocks :: i64

text \<open>
  The three counters carry the tag \<open>json:"-"\<close>: they are not in the JSON text, and a decoded
  value has them at zero.
\<close>

definition json_fields :: "meta \<Rightarrow> meta" where
  "json_fields m = m\<lparr>m_entries := 0, m_errors := 0, m_blocks := 0\<rparr>"

section \<open>The index\<close>

record index_entry =
  ie_first_key :: string
  ie_offset :: i64
  ie_size :: i64

end
