(* ===== verification/Store_Writer.thy ===== *)
theory Store_Writer
  imports Store_Format Canon
begin

text \<open>
  \<open>internal/store/writer.go\<close>: the streaming writer of a fingerprint.

  The \<open>io.Writer\<close> under it is a \<open>device\<close>: what it holds and the room that is left, so
  that a full disk is a short write with an error. The compressor (\<open>zstd.EncodeAll\<close>) and
  \<open>json.Marshal\<close> of the metadata are parameters. The digest is modelled by the bytes it was
  fed. Counters and offsets, which the code keeps in an \<open>int64\<close> and only ever adds to, are
  \<open>nat\<close>; they become 64-bit words where the code stores them.
\<close>

section \<open>The destination\<close>

record device =
  dev_data :: "byte list"
  dev_room :: "nat option"  \<comment> \<open>\<open>None\<close>: unbounded\<close>

definition dev_write :: "device \<Rightarrow> byte list \<Rightarrow> device \<times> nat \<times> store_error option" where
  "dev_write d p =
     (case dev_room d of
        None \<Rightarrow> (d\<lparr>dev_data := dev_data d @ p\<rparr>, length p, None)
      | Some r \<Rightarrow>
          if length p \<le> r
          then (d\<lparr>dev_data := dev_data d @ p, dev_room := Some (r - length p)\<rparr>, length p, None)
          else (d\<lparr>dev_data := dev_data d @ take r p, dev_room := Some 0\<rparr>, r, Some ErrWrite))"

section \<open>Encoding an entry\<close>

text \<open>\<open>sharedPrefix\<close>: the length of the common prefix.\<close>

fun shared_prefix :: "string \<Rightarrow> string \<Rightarrow> nat" where
  "shared_prefix (a # as) (b # bs) = (if a = b then Suc (shared_prefix as bs) else 0)"
| "shared_prefix _ _ = 0"

definition has_hardlink :: "entry \<Rightarrow> bool" where
  "has_hardlink e \<longleftrightarrow> e_dev e \<noteq> 0 \<or> e_ino e \<noteq> 0 \<or> e_nlink e \<noteq> 0"

definition entry_flags :: "entry \<Rightarrow> byte" where
  "entry_flags e =
     (let f = 0;
          f = (if e_hashed e then f OR flag_hashed else f);
          f = (if e_partial e then f OR flag_partial else f);
          f = (if e_link e \<noteq> [] then f OR flag_link else f);
          f = (if has_hardlink e then f OR flag_hardlink else f)
      in if e_err e \<noteq> [] then f OR flag_error else f)"

definition put_str :: "string \<Rightarrow> byte list" where
  "put_str s = put_uvarint (of_nat (length s)) @ bytes_of s"

definition append_entry :: "byte list \<Rightarrow> entry \<Rightarrow> string \<Rightarrow> byte list" where
  "append_entry dst e prev =
     (let shared = shared_prefix prev (e_path e);
          sfx = drop shared (e_path e)
      in dst
         @ put_uvarint (of_nat shared) @ put_str sfx
         @ [e_type e] @ [entry_flags e]
         @ put_uvarint (ucast (e_mode e)) @ put_uvarint (ucast (e_uid e))
         @ put_uvarint (ucast (e_gid e)) @ put_uvarint (e_size e) @ put_varint (e_mtime e)
         @ (if e_hashed e then e_hash e else [])
         @ (if e_link e \<noteq> [] then put_str (e_link e) else [])
         @ (if has_hardlink e
            then put_uvarint (e_dev e) @ put_uvarint (e_ino e) @ put_uvarint (ucast (e_nlink e))
            else [])
         @ (if e_err e \<noteq> [] then put_str (e_err e) else []))"

section \<open>The writer\<close>

record writer =
  w_dev :: device
  w_digest :: "byte list"
  w_off :: nat
  w_block :: "byte list"
  w_block_first :: string
  w_block_prev :: string
  w_block_count :: nat
  w_index :: "index_entry list"
  w_last_key :: string
  w_has_last :: bool
  w_entries :: nat
  w_errors :: nat
  w_meta_offset :: nat
  w_meta_length :: nat
  w_data_offset :: nat
  w_closed :: bool
  w_err :: "store_error option"

text \<open>\<open>Writer.write\<close>: to the file and to the digest at once; the first error is kept.\<close>

definition w_write :: "writer \<Rightarrow> byte list \<Rightarrow> writer \<times> store_error option" where
  "w_write w p =
     (case w_err w of
        Some e \<Rightarrow> (w, Some e)
      | None \<Rightarrow>
          (case dev_write (w_dev w) p of (dev, n, err) \<Rightarrow>
             let w = w\<lparr>w_dev := dev, w_off := w_off w + n, w_digest := w_digest w @ take n p\<rparr>
             in (case err of
                   None \<Rightarrow> (w, None)
                 | Some e \<Rightarrow> (w\<lparr>w_err := Some e\<rparr>, Some e))))"

definition file_header :: "byte list" where
  "file_header =
     store_magic @ [format_version, hash_sha256, compression_zstd]
       @ replicate (header_size - length store_magic - 3) 0"

definition new_writer ::
    "(meta \<Rightarrow> byte list option) \<Rightarrow> device \<Rightarrow> meta \<Rightarrow> store_error + writer" where
  "new_writer marshal dev m =
     (let w = \<lparr>w_dev = dev, w_digest = [], w_off = 0, w_block = [], w_block_first = [],
               w_block_prev = [], w_block_count = 0, w_index = [], w_last_key = [],
               w_has_last = False, w_entries = 0, w_errors = 0, w_meta_offset = 0,
               w_meta_length = 0, w_data_offset = 0, w_closed = False, w_err = None\<rparr>
      in case w_write w file_header of
           (w, Some e) \<Rightarrow> Inl e
         | (w, None) \<Rightarrow>
             (case marshal m of
                None \<Rightarrow> Inl ErrMarshal
              | Some payload \<Rightarrow>
                  let w = w\<lparr>w_meta_offset := w_off w\<rparr>
                  in case w_write w payload of
                       (w, Some e) \<Rightarrow> Inl e
                     | (w, None) \<Rightarrow>
                         Inr (w\<lparr>w_meta_length := length payload, w_data_offset := w_off w\<rparr>)))"

text \<open>The eight bytes that precede a compressed section: its two lengths.\<close>

definition block_header :: "byte list \<Rightarrow> byte list \<Rightarrow> byte list" where
  "block_header plain packed =
     le_bytes 4 (of_nat (length plain) :: u32) @ le_bytes 4 (of_nat (length packed) :: u32)"

definition flush_block ::
    "(byte list \<Rightarrow> byte list) \<Rightarrow> writer \<Rightarrow> writer \<times> store_error option" where
  "flush_block enc w =
     (if w_block_count w = 0 then (w, None)
      else
        let scratch = enc (w_block w); offset = w_off w
        in case w_write w (block_header (w_block w) scratch) of
             (w, Some e) \<Rightarrow> (w, Some e)
           | (w, None) \<Rightarrow>
               (case w_write w scratch of
                  (w, Some e) \<Rightarrow> (w, Some e)
                | (w, None) \<Rightarrow>
                    (w\<lparr>w_index := w_index w @
                         [\<lparr>ie_first_key = w_block_first w, ie_offset = of_nat offset,
                           ie_size = of_nat (w_off w - offset)\<rparr>],
                       w_block := [], w_block_count := 0\<rparr>, None)))"

text \<open>The part of \<open>Add\<close> that takes an accepted entry into the open block.\<close>

definition add_pending :: "writer \<Rightarrow> entry \<Rightarrow> writer" where
  "add_pending w e =
     (let w = (if w_block_count w = 0
               then w\<lparr>w_block_first := e_path e, w_block_prev := []\<rparr> else w)
      in w\<lparr>w_block := append_entry (w_block w) e (w_block_prev w),
           w_block_prev := e_path e,
           w_block_count := w_block_count w + 1,
           w_last_key := e_path e, w_has_last := True,
           w_entries := w_entries w + 1,
           w_errors := (if e_err e \<noteq> [] then w_errors w + 1 else w_errors w)\<rparr>)"

definition add ::
    "(byte list \<Rightarrow> byte list) \<Rightarrow> writer \<Rightarrow> entry \<Rightarrow> writer \<times> store_error option" where
  "add enc w e =
     (case w_err w of
        Some err \<Rightarrow> (w, Some err)
      | None \<Rightarrow>
          if w_closed w then (w, Some ErrAddAfterClose)
          else if e_path e = [] then (w, Some ErrEmptyPath)
          else if w_has_last w \<and> 0 \<le> compare_key (w_last_key w) (e_path e)
            then (w, Some (ErrOutOfOrder (e_path e) (w_last_key w)))
          else
            let w = add_pending w e
            in if default_block_size \<le> length (w_block w) then flush_block enc w else (w, None))"

definition put_index_entry :: "index_entry \<Rightarrow> byte list" where
  "put_index_entry ie =
     put_str (ie_first_key ie) @ put_uvarint (ie_offset ie) @ put_uvarint (ie_size ie)"

definition index_bytes :: "index_entry list \<Rightarrow> byte list" where
  "index_bytes ies = put_uvarint (of_nat (length ies)) @ concat (map put_index_entry ies)"

definition write_index ::
    "(byte list \<Rightarrow> byte list) \<Rightarrow> writer \<Rightarrow> writer \<times> store_error option" where
  "write_index enc w =
     (let buf = index_bytes (w_index w);
          compressed = enc buf
      in case w_write w (block_header buf compressed) of
           (w, Some e) \<Rightarrow> (w, Some e)
         | (w, None) \<Rightarrow> w_write w compressed)"

definition footer_fields :: "nat list \<Rightarrow> byte list" where
  "footer_fields vs = concat (map (\<lambda>v. le_bytes 8 (of_nat v :: u64)) vs)"

text \<open>
  \<open>Close\<close>: the last block, the index, the footer through the digest; then the digest and
  the closing magic straight to the file.
\<close>

definition close_writer ::
    "(byte list \<Rightarrow> byte list) \<Rightarrow> writer \<Rightarrow> writer \<times> store_error option" where
  "close_writer enc w =
     (if w_closed w then (w, None)
      else
        let w = w\<lparr>w_closed := True\<rparr>
        in case w_err w of
             Some e \<Rightarrow> (w, Some e)
           | None \<Rightarrow>
             (case flush_block enc w of
                (w, Some e) \<Rightarrow> (w, Some e)
              | (w, None) \<Rightarrow>
                  let data_length = w_off w - w_data_offset w; index_offset = w_off w
                  in case write_index enc w of
                       (w, Some e) \<Rightarrow> (w, Some e)
                     | (w, None) \<Rightarrow>
                         let index_length = w_off w - index_offset;
                             footer = footer_fields
                               [w_meta_offset w, w_meta_length w, w_data_offset w, data_length,
                                index_offset, index_length,
                                w_entries w, w_errors w, length (w_index w)]
                         in case w_write w footer of
                              (w, Some e) \<Rightarrow> (w, Some e)
                            | (w, None) \<Rightarrow>
                                (case dev_write (w_dev w) (sha256 (w_digest w)) of
                                   (dev, n, Some e) \<Rightarrow> (w\<lparr>w_dev := dev\<rparr>, Some e)
                                 | (dev, n, None) \<Rightarrow>
                                     (case dev_write dev footer_magic of
                                        (dev, n, err) \<Rightarrow> (w\<lparr>w_dev := dev\<rparr>, err)))))"

text \<open>What the callers do: every entry in turn, stopping at the first error.\<close>

fun add_all ::
    "(byte list \<Rightarrow> byte list) \<Rightarrow> writer \<Rightarrow> entry list \<Rightarrow> writer \<times> store_error option" where
  "add_all enc w [] = (w, None)"
| "add_all enc w (e # es) =
     (case add enc w e of
        (w', Some err) \<Rightarrow> (w', Some err)
      | (w', None) \<Rightarrow> add_all enc w' es)"

end
