(* ===== verification/Store_Decode.thy ===== *)
theory Store_Decode
  imports Store_Writer "HOL-Library.State_Monad"
begin

text \<open>
  \<open>internal/store/decode.go\<close>: the byte reader that parses untrusted data and the block
  decoder built on it. The reader is threaded by the state monad, which gives the decoder
  the shape of the Go code: a straight sequence of fields whose first error is latched.

  Slicing out of range panics in Go. The model writes that down (\<open>go_slice\<close> is \<open>None\<close> and
  the reader's \<open>br_panic\<close> is set), so that "never panics" is a statement about the code and
  not a consequence of HOL's total functions. Two predicates carry the proofs: \<open>consumes\<close>
  for the round trip and \<open>guarded\<close> for hostile input; both compose along \<open>bind\<close>.
\<close>

section \<open>Slices\<close>

definition go_slice :: "'a list \<Rightarrow> nat \<Rightarrow> nat \<Rightarrow> 'a list option" where
  "go_slice xs lo hi =
     (if lo \<le> hi \<and> hi \<le> length xs then Some (take (hi - lo) (drop lo xs)) else None)"

text \<open>\<open>copy(dst, src)\<close>.\<close>

definition go_copy :: "'a list \<Rightarrow> 'a list \<Rightarrow> 'a list" where
  "go_copy dst src = take (length dst) src @ drop (length src) dst"

section \<open>byteReader\<close>

record breader =
  br_buf :: "byte list"
  br_pos :: nat
  br_err :: "corrupt option"
  br_panic :: bool

definition br_init :: "byte list \<Rightarrow> breader" where
  "br_init buf = \<lparr>br_buf = buf, br_pos = 0, br_err = None, br_panic = False\<rparr>"

definition br_fail :: "corrupt \<Rightarrow> breader \<Rightarrow> breader" where
  "br_fail c b = (if br_err b = None then b\<lparr>br_err := Some c\<rparr> else b)"

definition br_uvarint :: "(breader, u64) state" where
  "br_uvarint = State (\<lambda>b.
     if br_err b \<noteq> None then (0, b)
     else case go_slice (br_buf b) (br_pos b) (length (br_buf b)) of
            None \<Rightarrow> (0, b\<lparr>br_panic := True\<rparr>)
          | Some rest \<Rightarrow>
              (case uvarint rest of (v, n) \<Rightarrow>
                 if n \<le> 0 then (0, br_fail (BadUvarint (br_pos b)) b)
                 else (v, b\<lparr>br_pos := br_pos b + nat n\<rparr>)))"

definition br_varint :: "(breader, i64) state" where
  "br_varint = State (\<lambda>b.
     if br_err b \<noteq> None then (0, b)
     else case go_slice (br_buf b) (br_pos b) (length (br_buf b)) of
            None \<Rightarrow> (0, b\<lparr>br_panic := True\<rparr>)
          | Some rest \<Rightarrow>
              (case varint rest of (v, n) \<Rightarrow>
                 if n \<le> 0 then (0, br_fail (BadVarint (br_pos b)) b)
                 else (v, b\<lparr>br_pos := br_pos b + nat n\<rparr>)))"

definition br_u8 :: "(breader, byte) state" where
  "br_u8 = State (\<lambda>b.
     if br_err b \<noteq> None then (0, b)
     else if length (br_buf b) \<le> br_pos b then (0, br_fail UnexpectedEnd b)
     else (br_buf b ! br_pos b, b\<lparr>br_pos := br_pos b + 1\<rparr>))"

definition br_take :: "int \<Rightarrow> (breader, byte list) state" where
  "br_take n = State (\<lambda>b.
     if br_err b \<noteq> None then ([], b)
     else if n < 0 \<or> int (length (br_buf b)) - int (br_pos b) < n
       then ([], br_fail (FieldPastEnd (nat n)) b)
     else case go_slice (br_buf b) (br_pos b) (br_pos b + nat n) of
            None \<Rightarrow> ([], b\<lparr>br_panic := True\<rparr>)
          | Some v \<Rightarrow> (v, b\<lparr>br_pos := br_pos b + nat n\<rparr>))"

definition br_failing :: "corrupt \<Rightarrow> (breader, unit) state" where
  "br_failing c = State (\<lambda>b. ((), br_fail c b))"

definition br_ok :: "(breader, bool) state" where
  "br_ok = State (\<lambda>b. (br_err b = None, b))"

definition br_str :: "nat \<Rightarrow> (breader, string) state" where
  "br_str mx = do {
     n \<leftarrow> br_uvarint;
     ok \<leftarrow> br_ok;
     if \<not> ok then State_Monad.return []
     else if mx < unat n then do { br_failing (StringTooLong n); State_Monad.return [] }
     else do { bs \<leftarrow> br_take (uint n); State_Monad.return (string_of bs) }
   }"

section \<open>blockDecoder\<close>

record bdec =
  bd_br :: breader
  bd_prev :: string
  bd_e :: entry

definition bd_reset :: "byte list \<Rightarrow> bdec \<Rightarrow> bdec" where
  "bd_reset buf d = d\<lparr>bd_br := br_init buf, bd_prev := []\<rparr>"

text \<open>The zero value of a decoder: an empty buffer.\<close>

definition bd_zero :: bdec where
  "bd_zero = \<lparr>bd_br = br_init [], bd_prev = [], bd_e = zero_entry\<rparr>"

text \<open>The fields after the key, in the order of the file.\<close>

definition decode_attrs :: "string \<Rightarrow> (breader, entry) state" where
  "decode_attrs path = do {
     t \<leftarrow> br_u8;
     flags \<leftarrow> br_u8;
     mode \<leftarrow> br_uvarint;
     uid \<leftarrow> br_uvarint;
     gid \<leftarrow> br_uvarint;
     size \<leftarrow> br_uvarint;
     mtime \<leftarrow> br_varint;
     (hash, hashed) \<leftarrow>
       (if flags AND flag_hashed \<noteq> 0
        then do { h \<leftarrow> br_take 32; ok \<leftarrow> br_ok; State_Monad.return (go_copy zero_hash h, ok) }
        else State_Monad.return (zero_hash, False));
     link \<leftarrow>
       (if flags AND flag_link \<noteq> 0 then br_str max_string_size else State_Monad.return []);
     (dev, ino, nlink) \<leftarrow>
       (if flags AND flag_hardlink \<noteq> 0
        then do { d \<leftarrow> br_uvarint; i \<leftarrow> br_uvarint; n \<leftarrow> br_uvarint; State_Monad.return (d, i, ucast n) }
        else State_Monad.return (0, 0, 0));
     err \<leftarrow>
       (if flags AND flag_error \<noteq> 0 then br_str max_string_size else State_Monad.return []);
     State_Monad.return
       \<lparr>e_path = path, e_type = t, e_mode = ucast mode, e_uid = ucast uid, e_gid = ucast gid,
        e_size = size, e_mtime = mtime, e_hash = hash, e_hashed = hashed,
        e_partial = (flags AND flag_partial \<noteq> 0), e_link = link,
        e_dev = dev, e_ino = ino, e_nlink = nlink, e_err = err\<rparr>
   }"

text \<open>What a pull from a stream of entries gives. \<open>Crash\<close> is a panic.\<close>

datatype 'e pull = Got 'e | End | Broken store_error | Crash

definition bd_stop :: "bdec \<Rightarrow> breader \<Rightarrow> entry pull \<times> bdec" where
  "bd_stop d b =
     ((if br_panic b then Crash
       else case br_err b of None \<Rightarrow> End | Some c \<Rightarrow> Broken (ErrCorrupt c)),
      d\<lparr>bd_br := b\<rparr>)"

text \<open>The two varints and the suffix of a front-coded key.\<close>

definition read_key :: "string \<Rightarrow> (breader, u64 \<times> string) state" where
  "read_key prev = do {
     shared \<leftarrow> br_uvarint;
     ok \<leftarrow> br_ok;
     (if ok \<and> length prev < unat shared
      then br_failing (SharedTooLong shared (length prev)) else State_Monad.return ());
     sfx \<leftarrow> br_str max_string_size;
     State_Monad.return (shared, sfx)
   }"

definition bd_next :: "bdec \<Rightarrow> entry pull \<times> bdec" where
  "bd_next d =
     (if br_err (bd_br d) \<noteq> None \<or> br_panic (bd_br d) then bd_stop d (bd_br d)
      else if length (br_buf (bd_br d)) \<le> br_pos (bd_br d) then (End, d)
      else
        (case run_state (read_key (bd_prev d)) (bd_br d) of ((shared, sfx), b) \<Rightarrow>
           if br_err b \<noteq> None \<or> br_panic b then bd_stop d b
           else
             (case go_slice (bd_prev d) 0 (unat shared) of
                None \<Rightarrow> bd_stop d (b\<lparr>br_panic := True\<rparr>)
              | Some p \<Rightarrow>
                  (let path = p @ sfx in
                   if path = [] then bd_stop d (br_fail EmptyPathEntry b)
                   else if bd_prev d \<noteq> [] \<and> 0 \<le> compare_key (bd_prev d) path
                     then bd_stop d (br_fail (KeyOrder path (bd_prev d)) b)
                   else
                     (case run_state (decode_attrs path) b of (e, b') \<Rightarrow>
                        if br_err b' \<noteq> None \<or> br_panic b' then bd_stop (d\<lparr>bd_e := e\<rparr>) b'
                        else (Got e, d\<lparr>bd_br := b', bd_prev := path, bd_e := e\<rparr>))))))"

section \<open>Reading back what was written\<close>

definition br_at :: "breader \<Rightarrow> byte list \<Rightarrow> bool" where
  "br_at b bs \<longleftrightarrow> br_err b = None \<and> \<not> br_panic b \<and> br_pos b \<le> length (br_buf b) \<and>
     drop (br_pos b) (br_buf b) = bs"

definition br_skip :: "nat \<Rightarrow> breader \<Rightarrow> breader" where
  "br_skip k b = b\<lparr>br_pos := br_pos b + k\<rparr>"

lemma br_at_skip: "br_at b (xs @ ys) \<Longrightarrow> br_at (br_skip (length xs) b) ys"
proof -
  assume at: "br_at b (xs @ ys)"
  then have "length (br_buf b) - br_pos b = length xs + length ys"
    by (metis br_at_def length_append length_drop)
  with at show ?thesis
    by (auto simp: br_at_def br_skip_def drop_drop [symmetric] add.commute [of _ "length xs"]
        simp del: drop_drop)
qed

lemma br_skip_skip [simp]: "br_skip k (br_skip j b) = br_skip (j + k) b"
  by (simp add: br_skip_def add.assoc)

lemma br_skip_0 [simp]: "br_skip 0 b = b"
  by (simp add: br_skip_def)

lemma br_at_slice: "br_at b bs \<Longrightarrow> go_slice (br_buf b) (br_pos b) (length (br_buf b)) = Some bs"
  by (auto simp: br_at_def go_slice_def)

text \<open>
  \<open>consumes m xs v\<close>: wherever the reader stands before the bytes \<open>xs\<close>, \<open>m\<close> returns \<open>v\<close>
  and stands right after them.
\<close>

definition consumes :: "(breader, 'a) state \<Rightarrow> byte list \<Rightarrow> 'a \<Rightarrow> bool" where
  "consumes m xs v \<longleftrightarrow>
     (\<forall>b rest. br_at b (xs @ rest) \<longrightarrow> run_state m b = (v, br_skip (length xs) b))"

lemma consumesD: "consumes m xs v \<Longrightarrow> br_at b (xs @ rest) \<Longrightarrow> run_state m b = (v, br_skip (length xs) b)"
  unfolding consumes_def by blast

lemma consumes_return [intro]: "consumes (State_Monad.return v) [] v"
  by (simp add: consumes_def)

lemma consumes_bind:
  "consumes m xs v \<Longrightarrow> consumes (f v) ys w \<Longrightarrow> consumes (State_Monad.bind m f) (xs @ ys) w"
  unfolding consumes_def
proof (intro allI impI)
  fix b rest
  assume m: "\<forall>b rest. br_at b (xs @ rest) \<longrightarrow> run_state m b = (v, br_skip (length xs) b)"
    and f: "\<forall>b rest. br_at b (ys @ rest) \<longrightarrow> run_state (f v) b = (w, br_skip (length ys) b)"
    and at: "br_at b ((xs @ ys) @ rest)"
  then have at': "br_at b (xs @ (ys @ rest))" by simp
  from m at' have "run_state m b = (v, br_skip (length xs) b)" by blast
  moreover from f br_at_skip [OF at']
  have "run_state (f v) (br_skip (length xs) b) = (w, br_skip (length ys) (br_skip (length xs) b))"
    by blast
  ultimately show "run_state (State_Monad.bind m f) b = (w, br_skip (length (xs @ ys)) b)" by simp
qed

lemma consumes_bind0:
  "consumes m [] v \<Longrightarrow> consumes (f v) ys w \<Longrightarrow> consumes (State_Monad.bind m f) ys w"
  using consumes_bind [of m "[]" v f ys w] by simp

lemma consumes_last: "consumes m xs v \<Longrightarrow> consumes (f v) [] w \<Longrightarrow> consumes (State_Monad.bind m f) xs w"
  using consumes_bind [of m xs v f "[]" w] by simp

lemma consumes_uvarint: "consumes br_uvarint (put_uvarint x) x"
  by (auto simp: consumes_def br_uvarint_def br_at_slice br_skip_def) (auto simp: br_at_def)

lemma consumes_varint: "consumes br_varint (put_varint x) x"
  by (auto simp: consumes_def br_varint_def br_at_slice br_skip_def) (auto simp: br_at_def)

lemma consumes_u8: "consumes br_u8 [v] v"
  unfolding consumes_def
proof (intro allI impI)
  fix b rest assume at: "br_at b ([v] @ rest)"
  then have d: "drop (br_pos b) (br_buf b) = v # rest" by (simp add: br_at_def)
  then have "br_pos b < length (br_buf b)" by (metis drop_all list.distinct(1) not_less)
  with at nth_via_drop [OF d] show "run_state br_u8 b = (v, br_skip (length [v]) b)"
    by (simp add: br_u8_def br_at_def br_skip_def not_le)
qed

lemma consumes_take: "n = int (length xs) \<Longrightarrow> consumes (br_take n) xs xs"
  unfolding consumes_def
proof (intro allI impI)
  fix b rest assume n: "n = int (length xs)" and at: "br_at b (xs @ rest)"
  from at have len: "length (br_buf b) - br_pos b = length xs + length rest"
    by (metis br_at_def length_append length_drop)
  with at n show "run_state (br_take n) b = (xs, br_skip (length xs) b)"
    by (auto simp: br_take_def br_at_def go_slice_def br_skip_def)
qed

lemma consumes_ok: "consumes br_ok [] True"
  by (auto simp: consumes_def br_ok_def br_at_def)

lemmas consumes_prims = consumes_uvarint consumes_varint consumes_u8 consumes_ok

lemma unat_of_length: "length s < 2 ^ 64 \<Longrightarrow> unat (of_nat (length s) :: u64) = length s"
  by (simp add: unat_of_nat)

lemma consumes_str:
  assumes "length s \<le> mx" and "length s < 2 ^ 64"
  shows "consumes (br_str mx) (put_str s) s"
proof -
  have n: "uint (of_nat (length s) :: u64) = int (length s)"
    using assms(2) by (simp add: uint_nat unat_of_length)
  show ?thesis
    unfolding br_str_def put_str_def
    by (rule consumes_bind [OF consumes_uvarint], rule consumes_bind0 [OF consumes_ok])
      (use assms in \<open>auto simp: unat_of_length n not_less
        intro!: consumes_last [OF consumes_take] consumes_return\<close>)
qed

text \<open>The fields of an entry after its key, as \<open>append_entry\<close> writes them.\<close>

definition attr_bytes :: "entry \<Rightarrow> byte list" where
  "attr_bytes e =
     [e_type e] @ [entry_flags e]
       @ put_uvarint (ucast (e_mode e)) @ put_uvarint (ucast (e_uid e))
       @ put_uvarint (ucast (e_gid e)) @ put_uvarint (e_size e) @ put_varint (e_mtime e)
       @ (if e_hashed e then e_hash e else [])
       @ (if e_link e \<noteq> [] then put_str (e_link e) else [])
       @ (if has_hardlink e
          then put_uvarint (e_dev e) @ put_uvarint (e_ino e) @ put_uvarint (ucast (e_nlink e))
          else [])
       @ (if e_err e \<noteq> [] then put_str (e_err e) else [])"

lemma flag_tests:
  "entry_flags e AND flag_hashed \<noteq> 0 \<longleftrightarrow> e_hashed e"
  "entry_flags e AND flag_partial \<noteq> 0 \<longleftrightarrow> e_partial e"
  "entry_flags e AND flag_link \<noteq> 0 \<longleftrightarrow> e_link e \<noteq> []"
  "entry_flags e AND flag_hardlink \<noteq> 0 \<longleftrightarrow> has_hardlink e"
  "entry_flags e AND flag_error \<noteq> 0 \<longleftrightarrow> e_err e \<noteq> []"
  by (simp_all add: entry_flags_def flag_defs Let_def)

text \<open>The lengths the reader accepts; the writer itself does not check them.\<close>

definition entry_fits :: "entry \<Rightarrow> bool" where
  "entry_fits e \<longleftrightarrow> length (e_path e) \<le> max_string_size \<and> length (e_link e) \<le> max_string_size \<and>
     length (e_err e) \<le> max_string_size"

lemma consumes_hash:
  "entry_wf e \<Longrightarrow>
   consumes (if entry_flags e AND flag_hashed \<noteq> 0
             then do { h \<leftarrow> br_take 32; ok \<leftarrow> br_ok; State_Monad.return (go_copy zero_hash h, ok) }
             else State_Monad.return (zero_hash, False))
     (if e_hashed e then e_hash e else []) (e_hash e, e_hashed e)"
  by (auto simp: entry_wf_def flag_tests go_copy_def
      intro!: consumes_last [OF consumes_take] consumes_bind0 [OF consumes_ok] consumes_return)

lemma consumes_opt_str:
  "length s \<le> max_string_size \<Longrightarrow> (c \<longleftrightarrow> s \<noteq> []) \<Longrightarrow>
   consumes (if c then br_str max_string_size else State_Monad.return [])
     (if s \<noteq> [] then put_str s else []) s"
  by (auto intro!: consumes_str consumes_return)

lemma consumes_hardlink:
  "consumes (if entry_flags e AND flag_hardlink \<noteq> 0
             then do { d \<leftarrow> br_uvarint; i \<leftarrow> br_uvarint; n \<leftarrow> br_uvarint; State_Monad.return (d, i, ucast n) }
             else State_Monad.return (0, 0, 0))
     (if has_hardlink e
      then put_uvarint (e_dev e) @ put_uvarint (e_ino e) @ put_uvarint (ucast (e_nlink e))
      else [])
     (e_dev e, e_ino e, e_nlink e)"
proof (cases "has_hardlink e")
  case True
  have "ucast (ucast (e_nlink e) :: u64) = e_nlink e" by (simp add: ucast_up_ucast_id is_up)
  with True show ?thesis
    by (simp add: flag_tests)
      (intro consumes_bind [OF consumes_uvarint] consumes_last [OF consumes_uvarint],
        simp add: consumes_return)
next
  case False
  then show ?thesis by (auto simp: flag_tests has_hardlink_def intro!: consumes_return)
qed

lemma consumes_attrs:
  assumes wf: "entry_wf e" and fits: "entry_fits e"
  shows "consumes (decode_attrs (e_path e)) (attr_bytes e) e"
proof -
  have up: "ucast (ucast w :: u64) = (w :: u32)" for w by (simp add: ucast_up_ucast_id is_up)
  have link: "length (e_link e) \<le> max_string_size" and err: "length (e_err e) \<le> max_string_size"
    using fits by (simp_all add: entry_fits_def)
  note links = consumes_opt_str [OF link flag_tests(3)]
  note errs = consumes_opt_str [OF err flag_tests(5)]
  show ?thesis
    unfolding decode_attrs_def attr_bytes_def
    apply (rule consumes_bind [OF consumes_u8])
    apply (rule consumes_bind [OF consumes_u8])
    apply (rule consumes_bind [OF consumes_uvarint])+
    apply (rule consumes_bind [OF consumes_varint])
    apply (rule consumes_bind [OF consumes_hash [OF wf]], unfold prod.case)
    apply (rule consumes_bind [OF links])
    apply (rule consumes_bind [OF consumes_hardlink], unfold prod.case)
    apply (rule consumes_last [OF errs])
    apply (cases e, simp add: up flag_tests consumes_return)
    done
qed

lemma append_entry_eq:
  "append_entry dst e prev =
     dst @ put_uvarint (of_nat (shared_prefix prev (e_path e)))
         @ put_str (drop (shared_prefix prev (e_path e)) (e_path e)) @ attr_bytes e"
  by (simp add: append_entry_def attr_bytes_def Let_def)

lemma shared_prefix_le: "shared_prefix a b \<le> length a" "shared_prefix a b \<le> length b"
  by (induction a b rule: shared_prefix.induct) auto

lemma shared_prefix_take: "take (shared_prefix a b) a = take (shared_prefix a b) b"
  by (induction a b rule: shared_prefix.induct) auto

lemma shared_prefix_rebuild: "take (shared_prefix a b) a @ drop (shared_prefix a b) b = b"
  by (metis append_take_drop_id shared_prefix_take)

lemma consumes_key:
  assumes "length path \<le> max_string_size"
  shows "consumes (read_key prev)
    (put_uvarint (of_nat (shared_prefix prev path)) @ put_str (drop (shared_prefix prev path) path))
    (of_nat (shared_prefix prev path), drop (shared_prefix prev path) path)"
proof -
  let ?n = "shared_prefix prev path"
  have n: "?n \<le> length prev" "?n \<le> length path" by (rule shared_prefix_le)+
  with assms have u: "unat (of_nat ?n :: u64) = ?n" by (simp add: unat_of_nat)
  have len: "length (drop ?n path) \<le> max_string_size" "length (drop ?n path) < 2 ^ 64"
    using assms by simp_all
  from n u have no: "(if True \<and> length prev < unat (of_nat ?n :: u64)
      then br_failing (SharedTooLong (of_nat ?n) (length prev)) else State_Monad.return ())
      = State_Monad.return ()" by simp
  show ?thesis
    unfolding read_key_def
    by (rule consumes_bind [OF consumes_uvarint], rule consumes_bind0 [OF consumes_ok], subst no,
        rule consumes_bind0 [OF consumes_return], rule consumes_last [OF consumes_str [OF len]],
        rule consumes_return)
qed

text \<open>One entry: \<open>bd_next\<close> inverts \<open>append_entry\<close>.\<close>

lemma bd_next_entry:
  assumes at: "br_at (bd_br d) (append_entry [] e (bd_prev d) @ rest)"
    and wf: "entry_wf e" and fits: "entry_fits e" and path: "e_path e \<noteq> []"
    and order: "bd_prev d = [] \<or> key_less (bd_prev d) (e_path e)"
  shows "bd_next d =
    (Got e, d\<lparr>bd_br := br_skip (length (append_entry [] e (bd_prev d))) (bd_br d),
              bd_prev := e_path e, bd_e := e\<rparr>)"
proof -
  let ?b = "bd_br d" and ?p = "e_path e" and ?n = "shared_prefix (bd_prev d) (e_path e)"
  let ?key = "put_uvarint (of_nat ?n) @ put_str (drop ?n ?p)"
  have split: "append_entry [] e (bd_prev d) = ?key @ attr_bytes e" by (simp add: append_entry_eq)
  have plen: "length ?p \<le> max_string_size" using fits by (simp add: entry_fits_def)
  have u: "unat (of_nat ?n :: u64) = ?n"
    using plen shared_prefix_le(2) [of "bd_prev d" ?p] by (simp add: unat_of_nat)
  from at split have at1: "br_at ?b (?key @ (attr_bytes e @ rest))" by simp
  define b1 where b1: "b1 = br_skip (length ?key) ?b"
  define b2 where b2: "b2 = br_skip (length (attr_bytes e)) b1"
  have at2: "br_at b1 (attr_bytes e @ rest)" unfolding b1 by (rule br_at_skip [OF at1])
  have at3: "br_at b2 rest" unfolding b2 by (rule br_at_skip [OF at2])
  have key: "run_state (read_key (bd_prev d)) ?b = ((of_nat ?n, drop ?n ?p), b1)"
    unfolding b1 by (rule consumesD [OF consumes_key [OF plen] at1])
  have attrs: "run_state (decode_attrs ?p) b1 = (e, b2)"
    unfolding b2 by (rule consumesD [OF consumes_attrs [OF wf fits] at2])
  have "\<not> length (br_buf ?b) \<le> br_pos ?b"
    using at1 by (auto simp: br_at_def put_str_def)
  moreover have "br_err ?b = None" "\<not> br_panic ?b" "br_err b1 = None" "\<not> br_panic b1"
    "br_err b2 = None" "\<not> br_panic b2"
    using at1 at2 at3 by (simp_all add: br_at_def)
  moreover have "go_slice (bd_prev d) 0 (unat (of_nat ?n :: u64)) = Some (take ?n (bd_prev d))"
    by (simp add: go_slice_def u shared_prefix_le)
  moreover have "\<not> (bd_prev d \<noteq> [] \<and> 0 \<le> compare_key (bd_prev d) ?p)" using order by auto
  moreover have "b2 = br_skip (length (append_entry [] e (bd_prev d))) ?b"
    by (simp add: b1 b2 split add.assoc)
  ultimately show ?thesis
    using path by (auto simp: bd_next_def key attrs shared_prefix_rebuild Let_def)
qed

section \<open>Hostile input\<close>

definition br_inv :: "breader \<Rightarrow> bool" where
  "br_inv b \<longleftrightarrow> \<not> br_panic b \<and> br_pos b \<le> length (br_buf b)"

text \<open>
  \<open>guarded m\<close>: on any buffer, \<open>m\<close> does not panic, stays inside the buffer, never moves
  back and never forgets an error.
\<close>

definition br_step :: "breader \<Rightarrow> breader \<Rightarrow> bool" where
  "br_step b b' \<longleftrightarrow> br_inv b' \<and> br_buf b' = br_buf b \<and> br_pos b \<le> br_pos b' \<and>
     (br_err b \<noteq> None \<longrightarrow> br_err b' \<noteq> None)"

definition guarded :: "(breader, 'a) state \<Rightarrow> bool" where
  "guarded m \<longleftrightarrow> (\<forall>b. br_inv b \<longrightarrow> br_step b (snd (run_state m b)))"

lemma br_step_refl: "br_inv b \<Longrightarrow> br_step b b"
  by (simp add: br_step_def)

lemma br_step_trans: "br_step a b \<Longrightarrow> br_step b c \<Longrightarrow> br_step a c"
  by (auto simp: br_step_def)

lemma guardedD: "guarded m \<Longrightarrow> br_inv b \<Longrightarrow> run_state m b = (v, b') \<Longrightarrow> br_step b b'"
  unfolding guarded_def by (metis snd_conv)

lemma guarded_return: "guarded (State_Monad.return v)"
  by (simp add: guarded_def br_step_refl)

lemma guarded_bind: "guarded m \<Longrightarrow> (\<And>v. guarded (f v)) \<Longrightarrow> guarded (State_Monad.bind m f)"
  unfolding guarded_def
proof (intro allI impI)
  fix b assume m: "\<forall>b. br_inv b \<longrightarrow> br_step b (snd (run_state m b))"
    and f: "\<And>v. \<forall>b. br_inv b \<longrightarrow> br_step b (snd (run_state (f v) b))" and b: "br_inv b"
  obtain v b' where mb: "run_state m b = (v, b')" by (cases "run_state m b")
  with m b have s: "br_step b b'" by force
  then have "br_inv b'" by (simp add: br_step_def)
  with f have "br_step b' (snd (run_state (f v) b'))" by blast
  with s mb show "br_step b (snd (run_state (State_Monad.bind m f) b))"
    by (auto intro: br_step_trans)
qed

lemma br_fail_step: "br_inv b \<Longrightarrow> br_step b (br_fail c b)"
  by (auto simp: br_step_def br_fail_def br_inv_def)

lemma guarded_failing: "guarded (br_failing c)"
  by (simp add: guarded_def br_failing_def br_fail_step)

lemma guarded_ok: "guarded br_ok"
  by (simp add: guarded_def br_ok_def br_step_refl)

lemma go_slice_inv: "br_inv b \<Longrightarrow>
  go_slice (br_buf b) (br_pos b) (length (br_buf b)) = Some (drop (br_pos b) (br_buf b))"
  by (simp add: br_inv_def go_slice_def)

lemma guarded_uvarint: "guarded br_uvarint"
proof -
  have "nat n + br_pos b \<le> length (br_buf b)"
    if "br_inv b" "uvarint (drop (br_pos b) (br_buf b)) = (v, n)" "0 < n" for b v n
    using uvarint_bounds [OF that(2,3)] that(1,3) by (auto simp: br_inv_def)
  then show ?thesis
    by (auto simp: guarded_def br_uvarint_def go_slice_inv br_fail_step br_step_refl not_le
        split: prod.splits) (auto simp: br_step_def br_inv_def add.commute)
qed

lemma guarded_varint: "guarded br_varint"
proof -
  have "nat n + br_pos b \<le> length (br_buf b)"
    if "br_inv b" "varint (drop (br_pos b) (br_buf b)) = (v, n)" "0 < n" for b v n
    using varint_bounds [OF that(2,3)] that(1,3) by (auto simp: br_inv_def)
  then show ?thesis
    by (auto simp: guarded_def br_varint_def go_slice_inv br_fail_step br_step_refl not_le
        split: prod.splits) (auto simp: br_step_def br_inv_def add.commute)
qed

lemma guarded_u8: "guarded br_u8"
  by (auto simp: guarded_def br_u8_def br_fail_step br_step_refl)
    (auto simp: br_step_def br_inv_def)

lemma guarded_take: "guarded (br_take n)"
  by (auto simp: guarded_def br_take_def br_fail_step br_step_refl go_slice_def not_le)
    (auto simp: br_step_def br_inv_def)

lemma guarded_str: "guarded (br_str mx)"
  unfolding br_str_def
  by (auto intro!: guarded_bind guarded_uvarint guarded_ok guarded_return guarded_failing guarded_take)

lemmas guarded_intros = guarded_bind guarded_uvarint guarded_varint guarded_u8 guarded_take
  guarded_str guarded_ok guarded_failing guarded_return

lemma guarded_key: "guarded (read_key prev)"
  unfolding read_key_def by (auto intro!: guarded_intros)

lemma guarded_attrs: "guarded (decode_attrs path)"
  unfolding decode_attrs_def by (auto intro!: guarded_intros split: prod.splits)

lemma uvarint_progress:
  "run_state br_uvarint b = (v, b') \<Longrightarrow> br_err b' = None \<Longrightarrow> br_inv b \<Longrightarrow> br_pos b < br_pos b'"
  by (auto simp: br_uvarint_def go_slice_inv br_fail_def not_le split: if_splits prod.splits)

lemma read_key_ok:
  assumes inv: "br_inv b" and run: "run_state (read_key prev) b = ((s, x), b')"
    and ok: "br_err b' = None"
  shows "unat s \<le> length prev \<and> br_pos b < br_pos b'"
proof -
  obtain s1 b1 where u: "run_state br_uvarint b = (s1, b1)" by (cases "run_state br_uvarint b")
  have step1: "br_step b b1" by (rule guardedD [OF guarded_uvarint inv u])
  define b2 where "b2 = (if br_err b1 = None \<and> length prev < unat s1
      then br_fail (SharedTooLong s1 (length prev)) b1 else b1)"
  have s: "s = s1" and str: "run_state (br_str max_string_size) b2 = (x, b')"
    using run by (auto simp: read_key_def u br_ok_def br_failing_def b2_def
        split: prod.splits if_splits)
  have inv1: "br_inv b1" using step1 by (simp add: br_step_def)
  then have step2: "br_step b1 b2" by (simp add: b2_def br_step_refl br_fail_step)
  then have inv2: "br_inv b2" by (simp add: br_step_def)
  have step3: "br_step b2 b'" by (rule guardedD [OF guarded_str inv2 str])
  have err2: "br_err b2 = None" using step3 ok by (auto simp: br_step_def)
  then have err1: "br_err b1 = None" using step2 by (auto simp: br_step_def)
  have "unat s1 \<le> length prev"
    using err1 err2 by (auto simp: b2_def br_fail_def not_less split: if_splits)
  moreover have "br_pos b < br_pos b1" by (rule uvarint_progress [OF u err1 inv])
  ultimately show ?thesis using s step2 step3 by (auto simp: br_step_def)
qed

text \<open>A property of the value a reader returns, whatever the buffer holds.\<close>

definition yields :: "(breader, 'a) state \<Rightarrow> ('a \<Rightarrow> bool) \<Rightarrow> bool" where
  "yields m P \<longleftrightarrow> (\<forall>b. br_inv b \<longrightarrow> P (fst (run_state m b)))"

lemma yields_return: "P v \<Longrightarrow> yields (State_Monad.return v) P"
  by (simp add: yields_def)

lemma yields_bind:
  assumes "guarded m" and "yields m Q" and "\<And>v. Q v \<Longrightarrow> yields (f v) P"
  shows "yields (State_Monad.bind m f) P"
  unfolding yields_def
proof (intro allI impI)
  fix b assume b: "br_inv b"
  obtain v b' where m: "run_state m b = (v, b')" by (cases "run_state m b")
  have "br_inv b'" using guardedD [OF assms(1) b m] by (simp add: br_step_def)
  moreover have "Q v" using assms(2) b m by (auto simp: yields_def)
  ultimately show "P (fst (run_state (State_Monad.bind m f) b))"
    using assms(3) m by (auto simp: yields_def)
qed

lemma yields_any: "guarded m \<Longrightarrow> (\<And>v. yields (f v) P) \<Longrightarrow> yields (State_Monad.bind m f) P"
  by (rule yields_bind [where Q = "\<lambda>_. True"]) (auto simp: yields_def)

lemma yields_hash:
  "yields (if c then do { h \<leftarrow> br_take 32; ok \<leftarrow> br_ok; State_Monad.return (go_copy zero_hash h, ok) }
           else State_Monad.return (zero_hash, False))
     (\<lambda>(h, ok). length h = 32 \<and> (\<not> ok \<longrightarrow> h = zero_hash))"
  by (auto simp: yields_def br_take_def br_ok_def br_fail_def go_slice_def br_inv_def go_copy_def)

lemma yields_attrs: "yields (decode_attrs path) (\<lambda>e. entry_wf e \<and> e_path e = path)"
  unfolding decode_attrs_def
  apply (rule yields_any [OF guarded_u8])+
  apply (rule yields_any [OF guarded_uvarint])+
  apply (rule yields_any [OF guarded_varint])
  apply (rule yields_bind [OF _ yields_hash])
   apply (auto intro!: guarded_intros) [1]
  apply clarify
  apply (rule yields_any, (auto intro!: guarded_intros) [1])
  apply (rule yields_any, (auto intro!: guarded_intros) [1])
  apply (simp only: split_beta)
  apply (rule yields_any, (auto intro!: guarded_intros) [1])
  apply (rule yields_return)
  apply (auto simp: entry_wf_def)
  done

text \<open>
  On any buffer the decoder never panics, and an entry it yields is well formed, follows
  the previous key of the block in canonical order and costs at least one byte.
\<close>

lemma bd_next_safe:
  assumes inv: "br_inv (bd_br d)" and run: "bd_next d = (r, d')"
  shows "r \<noteq> Crash \<and> br_inv (bd_br d') \<and> br_buf (bd_br d') = br_buf (bd_br d)"
    and "r = Got e \<Longrightarrow> entry_wf e \<and> e_path e \<noteq> [] \<and>
      (bd_prev d = [] \<or> key_less (bd_prev d) (e_path e)) \<and> bd_prev d' = e_path e \<and> bd_e d' = e \<and>
      br_pos (bd_br d) < br_pos (bd_br d')"
proof -
  let ?C = "r \<noteq> Crash \<and> br_inv (bd_br d') \<and> br_buf (bd_br d') = br_buf (bd_br d) \<and>
    (r = Got e \<longrightarrow> entry_wf e \<and> e_path e \<noteq> [] \<and>
      (bd_prev d = [] \<or> key_less (bd_prev d) (e_path e)) \<and> bd_prev d' = e_path e \<and> bd_e d' = e \<and>
      br_pos (bd_br d) < br_pos (bd_br d'))"
  have stop: ?C if "bd_next d = bd_stop d0 b" "br_step (bd_br d) b" for d0 b
    using that run by (auto simp: bd_stop_def br_step_def br_inv_def split: option.splits)
  obtain s x b where key: "run_state (read_key (bd_prev d)) (bd_br d) = ((s, x), b)"
    by (metis prod.exhaust)
  have kstep: "br_step (bd_br d) b" by (rule guardedD [OF guarded_key inv key])
  then have binv: "br_inv b" by (simp add: br_step_def)
  define path where "path = take (unat s) (bd_prev d) @ x"
  obtain e1 b1 where attrs: "run_state (decode_attrs path) b = (e1, b1)"
    by (cases "run_state (decode_attrs path) b")
  have astep: "br_step (bd_br d) b1"
    using br_step_trans [OF kstep guardedD [OF guarded_attrs binv attrs]] .
  have e1: "entry_wf e1" "e_path e1 = path"
    using yields_attrs [of path] binv attrs by (auto simp: yields_def)
  consider (start) "br_err (bd_br d) \<noteq> None \<or> br_panic (bd_br d)"
    | (fin) "br_err (bd_br d) = None" "length (br_buf (bd_br d)) \<le> br_pos (bd_br d)"
    | (nokey) "br_err (bd_br d) = None" "\<not> length (br_buf (bd_br d)) \<le> br_pos (bd_br d)"
        "br_err b \<noteq> None \<or> br_panic b"
    | (gotkey) "br_err (bd_br d) = None" "\<not> length (br_buf (bd_br d)) \<le> br_pos (bd_br d)"
        "br_err b = None" "\<not> br_panic b"
    by blast
  then have ?C
  proof cases
    case start
    then show ?thesis by (intro stop [OF _ br_step_refl [OF inv]]) (simp add: bd_next_def)
  next
    case fin
    with inv run show ?thesis by (auto simp: bd_next_def br_inv_def)
  next
    case nokey
    then show ?thesis
      by (intro stop [OF _ kstep]) (use inv in \<open>simp add: bd_next_def br_inv_def key\<close>)
  next
    case gotkey
    have prog: "unat s \<le> length (bd_prev d)" "br_pos (bd_br d) < br_pos b"
      using read_key_ok [OF inv key gotkey(3)] by simp_all
    have nx: "bd_next d =
      (if path = [] then bd_stop d (br_fail EmptyPathEntry b)
       else if bd_prev d \<noteq> [] \<and> 0 \<le> compare_key (bd_prev d) path
         then bd_stop d (br_fail (KeyOrder path (bd_prev d)) b)
       else if br_err b1 \<noteq> None \<or> br_panic b1 then bd_stop (d\<lparr>bd_e := e1\<rparr>) b1
       else (Got e1, d\<lparr>bd_br := b1, bd_prev := path, bd_e := e1\<rparr>))"
    proof -
      have "go_slice (bd_prev d) 0 (unat s) = Some (take (unat s) (bd_prev d))"
        using prog(1) by (simp add: go_slice_def)
      with gotkey inv attrs show ?thesis
        by (simp add: bd_next_def key Let_def path_def [symmetric] br_inv_def del: append_is_Nil_conv)
    qed
    have fstep: "br_step (bd_br d) (br_fail c b)" for c
      by (rule br_step_trans [OF kstep br_fail_step [OF binv]])
    have mono: "br_pos b \<le> br_pos b1"
      using guardedD [OF guarded_attrs binv attrs] by (simp add: br_step_def)
    show ?thesis
    proof (cases "path = [] \<or> (bd_prev d \<noteq> [] \<and> 0 \<le> compare_key (bd_prev d) path)
        \<or> br_err b1 \<noteq> None \<or> br_panic b1")
      case True
      then show ?thesis
        using stop [OF _ fstep] stop [OF _ astep] nx by (auto split: if_splits)
    next
      case False
      with run nx e1 astep prog mono show ?thesis by (auto simp: br_step_def)
    qed
  qed
  then show "r \<noteq> Crash \<and> br_inv (bd_br d') \<and> br_buf (bd_br d') = br_buf (bd_br d)"
    and "r = Got e \<Longrightarrow> entry_wf e \<and> e_path e \<noteq> [] \<and>
      (bd_prev d = [] \<or> key_less (bd_prev d) (e_path e)) \<and> bd_prev d' = e_path e \<and> bd_e d' = e \<and>
      br_pos (bd_br d) < br_pos (bd_br d')"
    by blast+
qed

end
