(* ===== verification/Store_Reader.thy ===== *)
theory Store_Reader
  imports Store_Decode
begin

text \<open>
  \<open>internal/store/reader.go\<close>: opening a fingerprint, reading one block, the cursor over
  every entry, \<open>Seek\<close>, \<open>Iterate\<close> and \<open>Verify\<close>.

  The file is a byte list; \<open>io.ReaderAt\<close> on it fails when the range is not inside it. The
  offsets and lengths the file declares are 64-bit words, added and compared as the signed
  \<open>int64\<close> of the code, so that their overflow is the code's. The decompressor
  (\<open>zstd.DecodeAll\<close> under its memory limit) and \<open>json.Unmarshal\<close> are parameters.
  \<open>make([]byte, n)\<close> panics when \<open>n\<close> is negative or past what the runtime can address;
  that bound is \<open>max_alloc\<close>, \<open>2 ^ 48\<close> on 64-bit Linux.
\<close>

section \<open>Reading at an offset\<close>

definition max_alloc :: int where "max_alloc = 2 ^ 48"

definition make_ok :: "i64 \<Rightarrow> bool" where
  "make_ok n \<longleftrightarrow> 0 \<le> sint n \<and> sint n \<le> max_alloc"

definition read_at :: "byte list \<Rightarrow> i64 \<Rightarrow> nat \<Rightarrow> byte list option" where
  "read_at data off n =
     (if sint off < 0 \<or> int (length data) < sint off + int n then None
      else Some (take n (drop (nat (sint off)) data)))"

record reader =
  r_data :: "byte list"
  r_size :: i64
  r_meta :: meta
  r_index :: "index_entry list"
  r_digest :: "byte list"

definition read_block ::
    "(byte list \<Rightarrow> byte list option) \<Rightarrow> byte list \<Rightarrow> i64 \<Rightarrow> i64 \<Rightarrow> i64 \<Rightarrow> byte list outcome" where
  "read_block dec data rsize offset sz =
     (if sz <s of_nat block_header_size \<or> rsize <s offset + sz
      then Fail (ErrCorrupt (BlockBounds offset sz))
      else if \<not> make_ok sz then Panic
      else case read_at data offset (nat (sint sz)) of
             None \<Rightarrow> Fail ErrRead
           | Some raw \<Rightarrow>
               (let plain_len = (le_word (take 4 raw) :: u32);
                    comp_len = (le_word (take 4 (drop 4 raw)) :: u32)
                in if max_block_size < unat plain_len \<or> (ucast comp_len :: i64) \<noteq> sz - of_nat block_header_size
                   then Fail (ErrCorrupt (BlockLengths offset plain_len comp_len))
                   else case dec (drop block_header_size raw) of
                          None \<Rightarrow> Fail (ErrCorrupt (BlockUndecodable offset))
                        | Some out \<Rightarrow>
                            if length out \<noteq> unat plain_len
                            then Fail (ErrCorrupt (BlockWrongLength offset (length out) plain_len))
                            else Ret out))"

text \<open>The records of the index, each checked against the data section.\<close>

fun read_index_entries ::
    "nat \<Rightarrow> nat \<Rightarrow> i64 \<Rightarrow> i64 \<Rightarrow> breader \<Rightarrow> index_entry list \<Rightarrow> index_entry list outcome" where
  "read_index_entries i 0 data_start data_end b acc = Ret acc"
| "read_index_entries i (Suc n) data_start data_end b acc =
     (case run_state (br_str max_string_size) b of (key, b) \<Rightarrow>
      case run_state br_uvarint b of (off, b) \<Rightarrow>
      case run_state br_uvarint b of (sz, b) \<Rightarrow>
        if br_panic b then Panic
        else if br_err b \<noteq> None then Fail (ErrCorrupt UnreadableIndex)
        else if off <s data_start \<or> sz \<le>s 0 \<or> data_end <s off + sz
          then Fail (ErrCorrupt (BlockOutside i off sz))
        else read_index_entries (Suc i) n data_start data_end b
               (acc @ [\<lparr>ie_first_key = key, ie_offset = off, ie_size = sz\<rparr>]))"

definition read_index ::
    "(byte list \<Rightarrow> byte list option) \<Rightarrow> byte list \<Rightarrow> i64 \<Rightarrow> i64 \<Rightarrow> i64 \<Rightarrow> i64 \<Rightarrow> i64
       \<Rightarrow> index_entry list outcome" where
  "read_index dec data rsize offset len data_start data_end =
     (if len = 0 then Ret []
      else case read_block dec data rsize offset len of
             Fail e \<Rightarrow> Fail e
           | Panic \<Rightarrow> Panic
           | Ret raw \<Rightarrow>
               (case run_state br_uvarint (br_init raw) of (count, b) \<Rightarrow>
                  if br_panic b then Panic
                  else if br_err b \<noteq> None \<or> length raw div 3 < unat count
                    then Fail (ErrCorrupt UnreadableIndex)
                  else read_index_entries 0 (unat count) data_start data_end b []))"

definition section_ok :: "i64 \<Rightarrow> i64 \<times> i64 \<Rightarrow> bool" where
  "section_ok limit s \<longleftrightarrow>
     \<not> (fst s <s of_nat header_size \<or> snd s <s 0 \<or> limit <s fst s \<or> limit <s fst s + snd s)"

definition footer_field :: "byte list \<Rightarrow> nat \<Rightarrow> i64" where
  "footer_field footer i = le_word (take 8 (drop (i * 8) footer))"

text \<open>\<open>NewReader\<close>: the header, the footer, the sections, the metadata and the index.\<close>

definition new_reader ::
    "(byte list \<Rightarrow> byte list option) \<Rightarrow> (byte list \<Rightarrow> meta option) \<Rightarrow> byte list \<Rightarrow> i64
       \<Rightarrow> reader outcome" where
  "new_reader dec unmarshal data sz =
     (if sz <s of_nat (header_size + footer_size) then Fail (ErrCorrupt FileTooShort)
      else case read_at data 0 header_size of
        None \<Rightarrow> Fail ErrRead
      | Some header \<Rightarrow>
        if take (length store_magic) header \<noteq> store_magic then Fail ErrBadMagic
        else if header ! length store_magic \<noteq> format_version
          then Fail (ErrUnsupportedVersion (header ! length store_magic))
        else if header ! (length store_magic + 1) \<noteq> hash_sha256
          then Fail (ErrUnsupportedVersion (header ! (length store_magic + 1)))
        else if header ! (length store_magic + 2) \<noteq> compression_zstd
          then Fail (ErrUnsupportedVersion (header ! (length store_magic + 2)))
        else (case read_at data (sz - of_nat footer_size) footer_size of
          None \<Rightarrow> Fail ErrRead
        | Some footer \<Rightarrow>
          if drop (footer_size - length footer_magic) footer \<noteq> footer_magic
            then Fail (ErrCorrupt MissingFooterMagic)
          else
            (let f = footer_field footer; limit = sz - of_nat footer_size
             in case find (\<lambda>s. \<not> section_ok limit s) [(f 0, f 1), (f 2, f 3), (f 4, f 5)] of
                  Some s \<Rightarrow> Fail (ErrCorrupt (SectionOutside (fst s) (snd s)))
                | None \<Rightarrow>
                    if f 6 <s 0 \<or> f 7 <s 0 \<or> f 8 <s 0 then Fail (ErrCorrupt NegativeCounters)
                    else if of_nat max_meta_size <s f 1
                      then Fail (ErrCorrupt (MetaImplausible (f 1)))
                    else (case read_at data (f 0) (nat (sint (f 1))) of
                      None \<Rightarrow> Fail ErrRead
                    | Some payload \<Rightarrow>
                      (case unmarshal payload of
                         None \<Rightarrow> Fail (ErrCorrupt MetaUnparsable)
                       | Some m \<Rightarrow>
                         (case read_index dec data sz (f 4) (f 5) (f 2) (f 2 + f 3) of
                            Fail e \<Rightarrow> Fail e
                          | Panic \<Rightarrow> Panic
                          | Ret index \<Rightarrow>
                              if int (length index) \<noteq> sint (f 8)
                              then Fail (ErrCorrupt (BlockCountMismatch (f 8) (length index)))
                              else Ret \<lparr>r_data = data, r_size = sz,
                                        r_meta = m\<lparr>m_entries := f 6, m_errors := f 7, m_blocks := f 8\<rparr>,
                                        r_index = index,
                                        r_digest = take 32 (drop (9 * 8) footer)\<rparr>))))))"

text \<open>\<open>Open\<close>: the size is what \<open>Stat\<close> reports of the file.\<close>

definition open_reader ::
    "(byte list \<Rightarrow> byte list option) \<Rightarrow> (byte list \<Rightarrow> meta option) \<Rightarrow> byte list \<Rightarrow> reader outcome" where
  "open_reader dec unmarshal data = new_reader dec unmarshal data (of_nat (length data))"

definition verify :: "reader \<Rightarrow> store_error option" where
  "verify r =
     (if sha256 (take (nat (sint (r_size r) - 40)) (r_data r)) = r_digest r
      then None else Some ErrDigestMismatch)"

section \<open>The cursor\<close>

record cursor =
  cu_block :: int
  cu_dec :: bdec
  cu_pending :: bool

definition cursor_start :: "int \<Rightarrow> cursor" where
  "cursor_start i = \<lparr>cu_block = i, cu_dec = bd_zero, cu_pending = False\<rparr>"

text \<open>The loop of \<open>Next\<close>: the next entry of the block, or the next block that has one.\<close>

function cursor_loop ::
    "(byte list \<Rightarrow> byte list option) \<Rightarrow> reader \<Rightarrow> cursor \<Rightarrow> entry pull \<times> cursor" where
  "cursor_loop dec r c =
     (case bd_next (cu_dec c) of
        (Got e, d) \<Rightarrow> (Got e, c\<lparr>cu_dec := d\<rparr>)
      | (Broken x, d) \<Rightarrow> (Broken x, c\<lparr>cu_dec := d\<rparr>)
      | (Crash, d) \<Rightarrow> (Crash, c\<lparr>cu_dec := d\<rparr>)
      | (End, d) \<Rightarrow>
          if int (length (r_index r)) \<le> cu_block c + 1 then (End, c\<lparr>cu_dec := d\<rparr>)
          else if cu_block c + 1 < 0 then (Crash, c)
          else
            let c' = c\<lparr>cu_block := cu_block c + 1, cu_dec := d\<rparr>;
                ie = r_index r ! nat (cu_block c')
            in case read_block dec (r_data r) (r_size r) (ie_offset ie) (ie_size ie) of
                 Fail x \<Rightarrow> (Broken x, c')
               | Panic \<Rightarrow> (Crash, c')
               | Ret buf \<Rightarrow> cursor_loop dec r (c'\<lparr>cu_dec := bd_reset buf d\<rparr>))"
  by pat_completeness auto
termination
  by (relation "measure (\<lambda>(dec, r, c). nat (int (length (r_index r)) - cu_block c))") auto

declare cursor_loop.simps [simp del]

definition cursor_next ::
    "(byte list \<Rightarrow> byte list option) \<Rightarrow> reader \<Rightarrow> cursor \<Rightarrow> entry pull \<times> cursor" where
  "cursor_next dec r c =
     (if cu_pending c then (Got (bd_e (cu_dec c)), c\<lparr>cu_pending := False\<rparr>)
      else cursor_loop dec r c)"

definition reader_cursor :: "reader \<Rightarrow> cursor" where
  "reader_cursor r = cursor_start (- 1)"

text \<open>
  What makes the loops over a cursor terminate: every entry moves the block forward or
  consumes a byte of it.
\<close>

definition cursor_rank :: "reader \<Rightarrow> cursor \<Rightarrow> nat \<times> nat \<times> nat" where
  "cursor_rank r c =
     (nat (int (length (r_index r)) - cu_block c),
      length (br_buf (bd_br (cu_dec c))) - br_pos (bd_br (cu_dec c)),
      if cu_pending c then 1 else 0)"

definition rank_less :: "((nat \<times> nat \<times> nat) \<times> (nat \<times> nat \<times> nat)) set" where
  "rank_less = less_than <*lex*> less_than <*lex*> less_than"

lemma wf_rank_less: "wf rank_less"
  by (simp add: rank_less_def wf_lex_prod)

lemma bd_next_got:
  assumes "bd_next d = (Got e, d')"
  shows "br_buf (bd_br d') = br_buf (bd_br d) \<and> br_pos (bd_br d) < br_pos (bd_br d') \<and>
    br_pos (bd_br d) < length (br_buf (bd_br d))"
proof -
  have pre: "\<not> br_panic (bd_br d) \<and> br_pos (bd_br d) < length (br_buf (bd_br d))"
    using assms by (auto simp: bd_next_def bd_stop_def split: if_splits option.splits)
  then have "br_inv (bd_br d)" by (simp add: br_inv_def)
  from bd_next_safe [OF this assms] pre show ?thesis by auto
qed

lemma cursor_loop_got:
  "cursor_loop dec r c = (Got e, c') \<Longrightarrow> \<not> cu_pending c \<Longrightarrow>
   \<not> cu_pending c' \<and> (cursor_rank r c', cursor_rank r c) \<in> rank_less"
proof (induction dec r c rule: cursor_loop.induct)
  case (1 dec r c)
  show ?case
  proof (cases "bd_next (cu_dec c)")
    case (Pair p d)
    show ?thesis
    proof (cases p)
      case (Got e')
      with Pair "1.prems" bd_next_got [of "cu_dec c" e' d] show ?thesis
        by (auto simp: cursor_loop.simps [of dec r c] cursor_rank_def rank_less_def)
    next
      case End
      let ?c = "c\<lparr>cu_block := cu_block c + 1, cu_dec := d\<rparr>"
      let ?ie = "r_index r ! nat (cu_block ?c)"
      from "1.prems"(1) Pair End obtain buf where
        more: "\<not> int (length (r_index r)) \<le> cu_block c + 1" "\<not> cu_block c + 1 < 0"
        and buf: "read_block dec (r_data r) (r_size r) (ie_offset ?ie) (ie_size ?ie) = Ret buf"
        and rec: "cursor_loop dec r (?c\<lparr>cu_dec := bd_reset buf d\<rparr>) = (Got e, c')"
        by (auto simp: cursor_loop.simps [of dec r c] Let_def split: if_splits outcome.splits)
      have "\<not> cu_pending c' \<and> (cursor_rank r c', cursor_rank r (?c\<lparr>cu_dec := bd_reset buf d\<rparr>)) \<in> rank_less"
        using "1.IH" [OF Pair [symmetric] End more refl refl buf rec] "1.prems"(2) by simp
      with more show ?thesis by (auto simp: cursor_rank_def rank_less_def)
    next
      case (Broken x)
      with Pair "1.prems" show ?thesis by (simp add: cursor_loop.simps [of dec r c])
    next
      case Crash
      with Pair "1.prems" show ?thesis by (simp add: cursor_loop.simps [of dec r c])
    qed
  qed
qed

lemma cursor_next_got:
  "cursor_next dec r c = (Got e, c') \<Longrightarrow> (cursor_rank r c', cursor_rank r c) \<in> rank_less"
  by (cases "cu_pending c")
    (auto simp: cursor_next_def cursor_rank_def rank_less_def dest: cursor_loop_got)

text \<open>\<open>Iterate\<close>: the callback once per entry, until the end or the first error.\<close>

function iterate ::
    "(byte list \<Rightarrow> byte list option) \<Rightarrow> reader \<Rightarrow> ('s \<Rightarrow> entry \<Rightarrow> 's \<times> store_error option)
       \<Rightarrow> 's \<Rightarrow> cursor \<Rightarrow> 's \<times> unit outcome" where
  "iterate dec r fn s c =
     (case cursor_next dec r c of
        (End, c') \<Rightarrow> (s, Ret ())
      | (Broken x, c') \<Rightarrow> (s, Fail x)
      | (Crash, c') \<Rightarrow> (s, Panic)
      | (Got e, c') \<Rightarrow>
          (case fn s e of
             (s', Some err) \<Rightarrow> (s', Fail err)
           | (s', None) \<Rightarrow> iterate dec r fn s' c'))"
  by pat_completeness auto
termination
  by (relation "inv_image rank_less (\<lambda>(dec, r, fn, s, c). cursor_rank r c)")
    (auto intro: wf_rank_less dest: cursor_next_got [OF sym])

declare iterate.simps [simp del]

section \<open>Seek\<close>

text \<open>\<open>sort.Search\<close>: the binary search of the standard library.\<close>

function search_loop :: "(nat \<Rightarrow> bool) \<Rightarrow> nat \<Rightarrow> nat \<Rightarrow> nat" where
  "search_loop f i j =
     (if i < j
      then let h = (i + j) div 2 in if \<not> f h then search_loop f (h + 1) j else search_loop f i h
      else i)"
  by pat_completeness auto
termination
  by (relation "measure (\<lambda>(f, i, j). j - i)") auto

declare search_loop.simps [simp del]

definition sort_search :: "nat \<Rightarrow> (nat \<Rightarrow> bool) \<Rightarrow> nat" where
  "sort_search n f = search_loop f 0 n"

function seek_loop ::
    "(byte list \<Rightarrow> byte list option) \<Rightarrow> reader \<Rightarrow> string \<Rightarrow> cursor \<Rightarrow> cursor outcome" where
  "seek_loop dec r path c =
     (case cursor_next dec r c of
        (End, c') \<Rightarrow> Ret c'
      | (Broken x, c') \<Rightarrow> Fail x
      | (Crash, c') \<Rightarrow> Panic
      | (Got e, c') \<Rightarrow>
          if 0 \<le> compare_key (e_path e) path then Ret (c'\<lparr>cu_pending := True\<rparr>)
          else seek_loop dec r path c')"
  by pat_completeness auto
termination
  by (relation "inv_image rank_less (\<lambda>(dec, r, path, c). cursor_rank r c)")
    (auto intro: wf_rank_less dest: cursor_next_got [OF sym])

declare seek_loop.simps [simp del]

definition seek ::
    "(byte list \<Rightarrow> byte list option) \<Rightarrow> reader \<Rightarrow> string \<Rightarrow> cursor outcome" where
  "seek dec r path =
     (let i = int (sort_search (length (r_index r))
                (\<lambda>i. 0 < compare_key (ie_first_key (r_index r ! i)) path)) - 1;
          i = (if i < 0 then 0 else i)
      in seek_loop dec r path (cursor_start (i - 1)))"

end
