(* ===== verification/Store_Image.thy ===== *)
theory Store_Image
  imports Store_Reader
begin

text \<open>
  The abstract image of a fingerprint: a list of blocks, each a list of entries, laid out one
  after the other between the metadata and the index. The writer refines it: \<open>w_rep\<close>
  relates a writer to the blocks it has flushed and to the entries of the open block, and
  \<open>add\<close>, \<open>flush_block\<close> and \<open>close_writer\<close> preserve it on any device, as long as they
  report no error. On a device with room they report none.
\<close>

section \<open>The image\<close>

fun encode_entries :: "string \<Rightarrow> entry list \<Rightarrow> byte list" where
  "encode_entries prev [] = []"
| "encode_entries prev (e # es) = append_entry [] e prev @ encode_entries (e_path e) es"

lemma encode_entries_snoc:
  "encode_entries prev (es @ [e]) =
     append_entry (encode_entries prev es) e (if es = [] then prev else e_path (last es))"
  by (induction es arbitrary: prev) (auto simp: append_entry_eq)

definition section_bytes :: "(byte list \<Rightarrow> byte list) \<Rightarrow> byte list \<Rightarrow> byte list" where
  "section_bytes enc plain = block_header plain (enc plain) @ enc plain"

definition block_image :: "(byte list \<Rightarrow> byte list) \<Rightarrow> entry list \<Rightarrow> byte list" where
  "block_image enc es = section_bytes enc (encode_entries [] es)"

fun layout :: "(byte list \<Rightarrow> byte list) \<Rightarrow> nat \<Rightarrow> entry list list \<Rightarrow> index_entry list" where
  "layout enc off [] = []"
| "layout enc off (es # bss) =
     \<lparr>ie_first_key = e_path (hd es), ie_offset = of_nat off,
      ie_size = of_nat (length (block_image enc es))\<rparr>
     # layout enc (off + length (block_image enc es)) bss"

definition data_image :: "(byte list \<Rightarrow> byte list) \<Rightarrow> entry list list \<Rightarrow> byte list" where
  "data_image enc bss = concat (map (block_image enc) bss)"

lemma data_image_simps [simp]:
  "data_image enc [] = []"
  "data_image enc (es # bss) = block_image enc es @ data_image enc bss"
  "data_image enc (bss @ css) = data_image enc bss @ data_image enc css"
  by (simp_all add: data_image_def)

lemma layout_append:
  "layout enc off (bss @ css) =
     layout enc off bss @ layout enc (off + length (data_image enc bss)) css"
  by (induction bss arbitrary: off) (auto simp: add.assoc)

lemma length_layout [simp]: "length (layout enc off bss) = length bss"
  by (induction bss arbitrary: off) auto

lemma length_block_header [simp]: "length (block_header p q) = 8"
  by (simp add: block_header_def)

definition error_count :: "entry list \<Rightarrow> nat" where
  "error_count es = length (filter (\<lambda>e. e_err e \<noteq> []) es)"

section \<open>The writer refines the image\<close>

text \<open>The parts that do not change once \<open>NewWriter\<close> has returned.\<close>

definition body :: "(byte list \<Rightarrow> byte list) \<Rightarrow> byte list \<Rightarrow> entry list list \<Rightarrow> byte list" where
  "body enc payload bss = file_header @ payload @ data_image enc bss"

definition blocks_ok :: "entry list list \<Rightarrow> bool" where
  "blocks_ok bss \<longleftrightarrow> (\<forall>es\<in>set bss. es \<noteq> [] \<and> length (encode_entries [] es) \<le> max_block_size)"

definition w_synced :: "writer \<Rightarrow> bool" where
  "w_synced w \<longleftrightarrow> dev_data (w_dev w) = w_digest w \<and> w_off w = length (w_digest w)"

definition w_rep ::
    "(byte list \<Rightarrow> byte list) \<Rightarrow> byte list \<Rightarrow> entry list list \<Rightarrow> entry list \<Rightarrow> writer \<Rightarrow> bool" where
  "w_rep enc payload bss cur w \<longleftrightarrow>
     w_err w = None \<and> w_synced w \<and> w_digest w = body enc payload bss \<and>
     w_meta_offset w = header_size \<and> w_meta_length w = length payload \<and>
     w_data_offset w = header_size + length payload \<and>
     w_index w = layout enc (header_size + length payload) bss \<and>
     w_block w = encode_entries [] cur \<and> w_block_count w = length cur \<and>
     (cur \<noteq> [] \<longrightarrow> w_block_first w = e_path (hd cur) \<and> w_block_prev w = e_path (last cur)) \<and>
     w_entries w = length (concat bss @ cur) \<and> w_errors w = error_count (concat bss @ cur) \<and>
     (w_has_last w \<longleftrightarrow> concat bss @ cur \<noteq> []) \<and>
     (concat bss @ cur \<noteq> [] \<longrightarrow> w_last_key w = e_path (last (concat bss @ cur)))"

lemma length_file_header [simp]: "length file_header = 32"
  by (simp add: file_header_def)

text \<open>A write that reports no error has appended its argument to the file and to the digest.\<close>

lemma dev_write_ok: "dev_write d p = (d', n, None) \<Longrightarrow> dev_data d' = dev_data d @ p \<and> n = length p"
  by (auto simp: dev_write_def split: option.splits if_splits)

lemma w_write_ok:
  assumes "w_write w p = (w', None)" and "w_synced w"
  shows "\<exists>room. w' = w\<lparr>w_dev := \<lparr>dev_data = w_digest w @ p, dev_room = room\<rparr>,
    w_off := w_off w + length p, w_digest := w_digest w @ p\<rparr> \<and> w_err w = None"
proof -
  obtain d n where d: "dev_write (w_dev w) p = (d, n, None)"
    and w': "w' = w\<lparr>w_dev := d, w_off := w_off w + n, w_digest := w_digest w @ take n p\<rparr>"
    and e: "w_err w = None"
    using assms(1) by (auto simp: w_write_def Let_def split: option.splits prod.splits)
  from dev_write_ok [OF d] assms(2) have "dev_data d = w_digest w @ p" "n = length p"
    by (simp_all add: w_synced_def)
  with w' e show ?thesis by (intro exI [of _ "dev_room d"]) simp
qed

lemma w_write_room:
  "w_err w = None \<Longrightarrow> dev_room (w_dev w) = None \<Longrightarrow>
   \<exists>w'. w_write w p = (w', None) \<and> w_err w' = None \<and> dev_room (w_dev w') = None"
  by (simp add: w_write_def dev_write_def)

lemma w_synced_update [simp]:
  "w_synced (w\<lparr>w_dev := \<lparr>dev_data = xs, dev_room = room\<rparr>, w_off := n, w_digest := ys\<rparr>)
     \<longleftrightarrow> xs = ys \<and> n = length ys"
  by (simp add: w_synced_def)

lemma new_writer_rep:
  assumes "new_writer marshal dev m = Inr w" and "dev_data dev = []"
  shows "\<exists>payload. marshal m = Some payload \<and> w_rep enc payload [] [] w \<and> \<not> w_closed w"
proof -
  let ?w0 = "\<lparr>w_dev = dev, w_digest = [], w_off = 0, w_block = [], w_block_first = [],
               w_block_prev = [], w_block_count = 0, w_index = [], w_last_key = [],
               w_has_last = False, w_entries = 0, w_errors = 0, w_meta_offset = 0,
               w_meta_length = 0, w_data_offset = 0, w_closed = False, w_err = None\<rparr>"
  obtain w1 payload w2 where w1: "w_write ?w0 file_header = (w1, None)"
    and m: "marshal m = Some payload"
    and w2: "w_write (w1\<lparr>w_meta_offset := w_off w1\<rparr>) payload = (w2, None)"
    and w: "w = w2\<lparr>w_meta_length := length payload, w_data_offset := w_off w2\<rparr>"
    using assms(1) by (auto simp: new_writer_def Let_def split: option.splits prod.splits)
  have "w_synced ?w0" using assms(2) by (simp add: w_synced_def)
  from w_write_ok [OF w1 this] obtain r1 where
    w1': "w1 = ?w0\<lparr>w_dev := \<lparr>dev_data = file_header, dev_room = r1\<rparr>, w_off := 32,
      w_digest := file_header\<rparr>" by auto
  then have "w_synced (w1\<lparr>w_meta_offset := w_off w1\<rparr>)" by (simp add: w_synced_def)
  from w_write_ok [OF w2 this] obtain r2 where
    "w2 = w1\<lparr>w_meta_offset := 32, w_dev := \<lparr>dev_data = file_header @ payload, dev_room = r2\<rparr>,
      w_off := 32 + length payload, w_digest := file_header @ payload\<rparr>" using w1' by auto
  with w w1' m show ?thesis
    by (auto simp: w_rep_def w_synced_def body_def error_count_def)
qed


text \<open>\<open>flush_block\<close> moves the open block to the flushed ones.\<close>

lemma flush_block_rep:
  assumes rep: "w_rep enc payload bss cur w" and run: "flush_block enc w = (w', None)"
    and cur: "cur \<noteq> []"
  shows "w_rep enc payload (bss @ [cur]) [] w' \<and> w_closed w' = w_closed w"
proof -
  have sync: "w_synced w" and blk: "w_block w = encode_entries [] cur"
    and dig: "w_digest w = body enc payload bss" and off: "w_off w = length (body enc payload bss)"
    using rep by (auto simp: w_rep_def w_synced_def)
  let ?p = "encode_entries [] cur"
  obtain w1 w2 where w1: "w_write w (block_header ?p (enc ?p)) = (w1, None)"
    and w2: "w_write w1 (enc ?p) = (w2, None)"
    and w': "w' = w2\<lparr>w_index := w_index w2 @
        [\<lparr>ie_first_key = w_block_first w2, ie_offset = of_nat (w_off w),
          ie_size = of_nat (w_off w2 - w_off w)\<rparr>],
        w_block := [], w_block_count := 0\<rparr>"
    using run rep cur blk
    by (auto simp: flush_block_def Let_def w_rep_def split: prod.splits option.splits)
  from w_write_ok [OF w1 sync] obtain r1 where
    w1': "w1 = w\<lparr>w_dev := \<lparr>dev_data = w_digest w @ block_header ?p (enc ?p), dev_room = r1\<rparr>,
      w_off := w_off w + 8, w_digest := w_digest w @ block_header ?p (enc ?p)\<rparr>" by auto
  have "w_synced w1" using sync by (simp add: w1') (simp add: w_synced_def)
  from w_write_ok [OF w2 this] obtain r2 where
    w2': "w2 = w\<lparr>w_dev := \<lparr>dev_data = w_digest w @ block_image enc cur, dev_room = r2\<rparr>,
      w_off := w_off w + length (block_image enc cur), w_digest := w_digest w @ block_image enc cur\<rparr>"
    using w1' by (auto simp: block_image_def section_bytes_def add.assoc)
  have "w_off w = header_size + length payload + length (data_image enc bss)"
    by (simp add: off body_def)
  then have "w_index w' = layout enc (header_size + length payload) (bss @ [cur])"
    using rep cur by (simp add: w' w2' w_rep_def layout_append)
  then show ?thesis
    using rep by (simp add: w' w2' w_rep_def dig w_synced_def off body_def)
qed

lemma flush_block_empty: "w_rep enc payload bss [] w \<Longrightarrow> flush_block enc w = (w, None)"
  by (simp add: flush_block_def w_rep_def)

lemma flush_block_room:
  assumes "w_err w = None" and "dev_room (w_dev w) = None"
  shows "\<exists>w'. flush_block enc w = (w', None) \<and> w_err w' = None \<and> dev_room (w_dev w') = None"
proof -
  have "\<exists>w'. w_write w p = (w', None) \<and> w_err w' = None \<and> dev_room (w_dev w') = None"
    if "w_err w = None" "dev_room (w_dev w) = None" for w p
    using that by (simp add: w_write_def dev_write_def)
  with assms show ?thesis
    by (auto simp: flush_block_def Let_def split: prod.splits option.splits)
      (metis fst_conv option.distinct(1) prod.inject)+
qed

text \<open>
  \<open>add\<close>: the entry goes to the end of the open block, and the block is flushed when it has
  reached its size.
\<close>

lemma add_pending_rep:
  assumes rep: "w_rep enc payload bss cur w"
  shows "w_rep enc payload bss (cur @ [e]) (add_pending w e)"
  using rep
  by (cases "cur = []")
    (simp_all add: w_rep_def add_pending_def Let_def w_synced_def encode_entries_snoc error_count_def
      append_entry_eq [of "[]"])

lemma add_pending_sel [simp]:
  "w_err (add_pending w e) = w_err w" "w_dev (add_pending w e) = w_dev w"
  "w_closed (add_pending w e) = w_closed w" "w_last_key (add_pending w e) = e_path e"
  "w_has_last (add_pending w e)"
  by (simp_all add: add_pending_def Let_def)


section \<open>A whole session\<close>

text \<open>
  How a stream is cut into blocks: a block closes with the entry that takes its encoding to
  the block size. \<open>cur\<close> is the open block.
\<close>

fun chunks :: "entry list \<Rightarrow> entry list \<Rightarrow> entry list list" where
  "chunks cur [] = (if cur = [] then [] else [cur])"
| "chunks cur (e # es) =
     (if default_block_size \<le> length (encode_entries [] (cur @ [e]))
      then (cur @ [e]) # chunks [] es else chunks (cur @ [e]) es)"

lemma concat_chunks [simp]: "concat (chunks cur es) = cur @ es"
  by (induction cur es rule: chunks.induct) auto

text \<open>What holds of an open writer that has accepted the entries \<open>es\<close>.\<close>

definition w_inv :: "(byte list \<Rightarrow> byte list) \<Rightarrow> byte list \<Rightarrow> entry list \<Rightarrow> writer \<Rightarrow> bool" where
  "w_inv enc payload es w \<longleftrightarrow>
     (\<exists>bss cur. concat bss @ cur = es \<and> (\<forall>rest. chunks [] (es @ rest) = bss @ chunks cur rest) \<and>
        w_rep enc payload bss cur w \<and> blocks_ok bss \<and>
        length (encode_entries [] cur) < default_block_size) \<and>
     \<not> w_closed w \<and> increasing_keys (map e_path es) \<and> (\<forall>e\<in>set es. e_path e \<noteq> [])"

lemma length_append_entry_le:
  assumes wf: "entry_wf e" and fits: "entry_fits e"
  shows "length (append_entry dst e prev) \<le>
    length dst + 154 + length (e_path e) + length (e_link e) + length (e_err e)"
proof -
  have str: "length (put_str s) \<le> 10 + length s" for s
    using length_put_uvarint [of "of_nat (length s)"] by (simp add: put_str_def)
  have h: "length (e_hash e) = 32" using wf by (simp add: entry_wf_def)
  note u = length_put_uvarint
  have z: "length (put_varint x) \<le> 10" for x by (simp add: put_varint_def Let_def u)
  have "length (attr_bytes e) \<le> 2 + 50 + 32 + (10 + length (e_link e)) + 30 + (10 + length (e_err e))"
    unfolding attr_bytes_def length_append
    using u [of "ucast (e_mode e)"] u [of "ucast (e_uid e)"] u [of "ucast (e_gid e)"]
      u [of "e_size e"] z [of "e_mtime e"] h str [of "e_link e"] str [of "e_err e"] u [of "e_dev e"] u [of "e_ino e"]
      u [of "ucast (e_nlink e)"]
    by (auto split: if_splits)
  moreover have "length (append_entry dst e prev) =
    length dst + length (put_uvarint (of_nat (shared_prefix prev (e_path e))))
      + length (put_str (drop (shared_prefix prev (e_path e)) (e_path e))) + length (attr_bytes e)"
    by (simp add: append_entry_eq)
  moreover have "length (put_str (drop (shared_prefix prev (e_path e)) (e_path e))) \<le> 10 + length (e_path e)"
    using str [of "drop (shared_prefix prev (e_path e)) (e_path e)"] by simp
  ultimately show ?thesis
    using u [of "of_nat (shared_prefix prev (e_path e))"] by linarith
qed

lemma length_append_entry:
  "entry_wf e \<Longrightarrow> entry_fits e \<Longrightarrow> length (append_entry dst e prev) \<le> length dst + 200000"
  using length_append_entry_le [of e dst prev] by (simp add: entry_fits_def)

lemma w_inv_start: "w_rep enc payload [] [] w \<Longrightarrow> \<not> w_closed w \<Longrightarrow> w_inv enc payload [] w"
  unfolding w_inv_def
  by (intro conjI exI [of _ "[]"]) (auto simp: blocks_ok_def)

lemma new_writer_inv:
  "new_writer marshal dev m = Inr w \<Longrightarrow> dev_data dev = [] \<Longrightarrow>
   \<exists>payload. marshal m = Some payload \<and> w_inv enc payload [] w"
  by (drule new_writer_rep [where enc = enc]) (auto intro: w_inv_start)

lemma w_inv_open: "w_inv enc payload es w \<Longrightarrow> w_err w = None \<and> \<not> w_closed w"
  by (auto simp: w_inv_def w_rep_def)

text \<open>The test of \<open>add\<close> against the last key is the test that the stream stays increasing.\<close>

lemma w_inv_accepts:
  assumes "w_inv enc payload es w"
  shows "(w_has_last w \<and> 0 \<le> compare_key (w_last_key w) p) \<longleftrightarrow>
    es \<noteq> [] \<and> \<not> key_less (e_path (last es)) p"
  using assms by (auto simp: w_inv_def w_rep_def)

lemma add_ok_iff:
  assumes "w_inv enc payload es w"
  shows "add enc w e = (w', None) \<longleftrightarrow>
    e_path e \<noteq> [] \<and> (es \<noteq> [] \<longrightarrow> key_less (e_path (last es)) (e_path e)) \<and>
    (if default_block_size \<le> length (w_block (add_pending w e))
     then flush_block enc (add_pending w e) = (w', None) else w' = add_pending w e)"
proof (cases "w_has_last w \<and> 0 \<le> compare_key (w_last_key w) (e_path e)")
  case True
  with w_inv_accepts [OF assms, of "e_path e"] w_inv_open [OF assms] show ?thesis
    by (simp add: add_def)
next
  case False
  then have "es \<noteq> [] \<longrightarrow> key_less (e_path (last es)) (e_path e)"
    using w_inv_accepts [OF assms, of "e_path e"] by blast
  with False w_inv_open [OF assms] show ?thesis by (auto simp: add_def Let_def)
qed

lemma increasing_snoc_path:
  "increasing_keys (map e_path es) \<Longrightarrow> (es \<noteq> [] \<Longrightarrow> key_less (e_path (last es)) (e_path e)) \<Longrightarrow>
   increasing_keys (map e_path (es @ [e]))"
  using canon.increasing_snoc [of "map e_path es" "e_path e"] by (simp add: last_map)

lemma add_inv:
  assumes inv: "w_inv enc payload es w" and run: "add enc w e = (w', None)"
    and e: "entry_wf e" "entry_fits e"
  shows "w_inv enc payload (es @ [e]) w'"
proof -
  obtain bss cur where es: "concat bss @ cur = es"
    and cut: "\<And>rest. chunks [] (es @ rest) = bss @ chunks cur rest" and rep: "w_rep enc payload bss cur w"
    and ok: "blocks_ok bss" and small: "length (encode_entries [] cur) < default_block_size"
    using inv by (auto simp: w_inv_def)
  note st = w_inv_open [OF inv]
  note iff = iffD1 [OF add_ok_iff [OF inv] run]
  have path: "e_path e \<noteq> []" and acc: "es \<noteq> [] \<Longrightarrow> key_less (e_path (last es)) (e_path e)"
    using iff by simp_all
  have incr: "increasing_keys (map e_path (es @ [e]))" "\<forall>x\<in>set (es @ [e]). e_path x \<noteq> []"
    using increasing_snoc_path [OF _ acc] inv path by (auto simp: w_inv_def)
  let ?w = "add_pending w e" and ?cur = "cur @ [e]"
  have rep': "w_rep enc payload bss ?cur ?w" by (rule add_pending_rep [OF rep])
  have fits: "length (encode_entries [] ?cur) \<le> max_block_size"
    using length_append_entry [OF e, of "encode_entries [] cur" "if cur = [] then [] else e_path (last cur)"]
      small
    unfolding encode_entries_snoc size_values by linarith
  show ?thesis
  proof (cases "default_block_size \<le> length (w_block ?w)")
    case True
    then have "flush_block enc ?w = (w', None)"
      using iff by simp
    moreover have "chunks [] ((es @ [e]) @ rest) = (bss @ [?cur]) @ chunks [] rest" for rest
      using True cut [of "e # rest"] rep' by (simp add: w_rep_def del: size_values)
    moreover from calculation(1) flush_block_rep [OF rep'] have
      "w_rep enc payload (bss @ [?cur]) [] w'" "w_closed w' = w_closed w" by simp_all
    moreover have "blocks_ok (bss @ [?cur])" using ok fits by (simp add: blocks_ok_def)
    ultimately show ?thesis
      unfolding w_inv_def using incr st es
      by (intro conjI exI [of _ "bss @ [?cur]"] exI [of _ "[]"]) auto
  next
    case False
    then have "w' = ?w"
      using iff by simp
    moreover have len: "length (encode_entries [] ?cur) < default_block_size"
      using False rep' by (simp add: w_rep_def)
    moreover have "chunks [] ((es @ [e]) @ rest) = bss @ chunks ?cur rest" for rest
      using len cut [of "e # rest"] by (simp del: size_values)
    ultimately show ?thesis
      unfolding w_inv_def using incr st es rep' ok
      by (intro conjI exI [of _ bss] exI [of _ ?cur]) auto
  qed
qed

lemma add_all_inv:
  "w_inv enc payload done w \<Longrightarrow> add_all enc w es = (w', None) \<Longrightarrow>
   \<forall>e\<in>set es. entry_wf e \<and> entry_fits e \<Longrightarrow> w_inv enc payload (done @ es) w'"
proof (induction es arbitrary: w "done")
  case Nil
  then show ?case by simp
next
  case (Cons e es)
  then obtain w1 where "add enc w e = (w1, None)" "add_all enc w1 es = (w', None)"
    by (auto split: prod.splits option.splits)
  with Cons.IH [of "done @ [e]" w1] Cons.prems add_inv [of enc payload "done" w e w1]
  show ?case by simp
qed

text \<open>On a device with room nothing but a bad entry stops the writer.\<close>

lemma add_room:
  assumes inv: "w_inv enc payload es w" and room: "dev_room (w_dev w) = None"
    and path: "e_path e \<noteq> []" and acc: "es \<noteq> [] \<Longrightarrow> key_less (e_path (last es)) (e_path e)"
  shows "\<exists>w'. add enc w e = (w', None) \<and> dev_room (w_dev w') = None"
proof -
  have "\<exists>w'. flush_block enc (add_pending w e) = (w', None) \<and> dev_room (w_dev w') = None"
    using flush_block_room [of "add_pending w e" enc] w_inv_open [OF inv] room by auto
  then show ?thesis
    using path acc room
    by (cases "default_block_size \<le> length (w_block (add_pending w e))")
      (auto simp: add_ok_iff [OF inv] simp del: size_values)
qed


lemma add_all_room:
  "w_inv enc payload done w \<Longrightarrow> dev_room (w_dev w) = None \<Longrightarrow>
   increasing_keys (map e_path (done @ es)) \<Longrightarrow>
   \<forall>e\<in>set es. entry_wf e \<and> entry_fits e \<and> e_path e \<noteq> [] \<Longrightarrow>
   \<exists>w'. add_all enc w es = (w', None) \<and> dev_room (w_dev w') = None"
proof (induction es arbitrary: w "done")
  case Nil
  then show ?case by simp
next
  case (Cons e es)
  have acc: "key_less (e_path (last done)) (e_path e)" if "done \<noteq> []"
    using Cons.prems(3) that by (auto simp: sorted_wrt_append)
  obtain w1 where w1: "add enc w e = (w1, None)" "dev_room (w_dev w1) = None"
    using add_room [OF Cons.prems(1,2) _ acc] Cons.prems(4) by auto
  have "w_inv enc payload (done @ [e]) w1"
    using add_inv [OF Cons.prems(1) w1(1)] Cons.prems(4) by simp
  from Cons.IH [OF this w1(2)] Cons.prems w1(1) show ?case by simp
qed

section \<open>The finished file\<close>

definition footer_values ::
    "(byte list \<Rightarrow> byte list) \<Rightarrow> byte list \<Rightarrow> entry list list \<Rightarrow> nat list" where
  "footer_values enc payload bss =
     (let start = header_size + length payload;
          len = length (data_image enc bss);
          idx = index_bytes (layout enc start bss)
      in [header_size, length payload, start, len, start + len, length (section_bytes enc idx),
          length (concat bss), error_count (concat bss), length bss])"

definition signed_part ::
    "(byte list \<Rightarrow> byte list) \<Rightarrow> byte list \<Rightarrow> entry list list \<Rightarrow> byte list" where
  "signed_part enc payload bss =
     body enc payload bss
       @ section_bytes enc (index_bytes (layout enc (header_size + length payload) bss))
       @ footer_fields (footer_values enc payload bss)"

definition file_image ::
    "(byte list \<Rightarrow> byte list) \<Rightarrow> byte list \<Rightarrow> entry list list \<Rightarrow> byte list" where
  "file_image enc payload bss =
     signed_part enc payload bss @ sha256 (signed_part enc payload bss) @ footer_magic"

lemma flush_open_block:
  assumes "w_rep enc payload bss cur w" and "blocks_ok bss"
    and "length (encode_entries [] cur) < default_block_size"
    and "flush_block enc w = (w', None)"
  shows "w_rep enc payload (bss @ chunks cur []) [] w' \<and> blocks_ok (bss @ chunks cur [])"
proof (cases "cur = []")
  case True
  with assms flush_block_empty [of enc payload bss w] show ?thesis by auto
next
  case False
  with flush_block_rep [OF assms(1,4)] assms(2,3) show ?thesis
    by (auto simp: blocks_ok_def)
qed

lemma write_index_ok:
  assumes run: "write_index enc w = (w', None)" and sync: "w_synced w"
  shows "\<exists>room. w' = w\<lparr>w_dev := \<lparr>dev_data = w_digest w @ section_bytes enc (index_bytes (w_index w)),
      dev_room = room\<rparr>,
    w_off := w_off w + length (section_bytes enc (index_bytes (w_index w))),
    w_digest := w_digest w @ section_bytes enc (index_bytes (w_index w))\<rparr>"
proof -
  let ?p = "index_bytes (w_index w)"
  obtain w1 where w1: "w_write w (block_header ?p (enc ?p)) = (w1, None)"
    and w2: "w_write w1 (enc ?p) = (w', None)"
    using run by (auto simp: write_index_def Let_def split: prod.splits option.splits)
  from w_write_ok [OF w1 sync] obtain r1 where
    w1': "w1 = w\<lparr>w_dev := \<lparr>dev_data = w_digest w @ block_header ?p (enc ?p), dev_room = r1\<rparr>,
      w_off := w_off w + 8, w_digest := w_digest w @ block_header ?p (enc ?p)\<rparr>" by auto
  have "w_synced w1" using sync by (simp add: w1') (simp add: w_synced_def)
  from w_write_ok [OF w2 this] w1' show ?thesis
    by (auto simp: section_bytes_def add.assoc)
qed

lemma w_rep_closed [simp]:
  "w_rep enc payload bss cur (w\<lparr>w_closed := b\<rparr>) \<longleftrightarrow> w_rep enc payload bss cur w"
  by (simp add: w_rep_def w_synced_def)

lemma write_index_room:
  assumes "w_err w = None" and "dev_room (w_dev w) = None"
  shows "\<exists>w'. write_index enc w = (w', None) \<and> w_err w' = None \<and> dev_room (w_dev w') = None"
proof -
  obtain w1 where w1: "w_write w (block_header (index_bytes (w_index w)) (enc (index_bytes (w_index w))))
      = (w1, None)" "w_err w1 = None" "dev_room (w_dev w1) = None"
    using w_write_room [OF assms] by blast
  from w_write_room [OF this(2,3), of "enc (index_bytes (w_index w))"] w1(1) show ?thesis
    by (auto simp: write_index_def Let_def)
qed

lemma close_writer_room:
  assumes "\<not> w_closed w" and "w_err w = None" and "dev_room (w_dev w) = None"
  shows "\<exists>w'. close_writer enc w = (w', None)"
proof -
  obtain w1 where w1: "flush_block enc (w\<lparr>w_closed := True\<rparr>) = (w1, None)" "w_err w1 = None"
    "dev_room (w_dev w1) = None" using flush_block_room [of "w\<lparr>w_closed := True\<rparr>" enc] assms by auto
  obtain w2 where w2: "write_index enc w1 = (w2, None)" "w_err w2 = None" "dev_room (w_dev w2) = None"
    using write_index_room [OF w1(2,3)] by blast
  let ?f = "footer_fields
      [w_meta_offset w2, w_meta_length w2, w_data_offset w2, w_off w1 - w_data_offset w1, w_off w1,
       w_off w2 - w_off w1, w_entries w2, w_errors w2, length (w_index w2)]"
  obtain w3 where w3: "w_write w2 ?f = (w3, None)" "dev_room (w_dev w3) = None"
    using w_write_room [OF w2(2,3), of ?f] by auto
  with assms w1(1) w2(1) show ?thesis
    by (auto simp: close_writer_def Let_def dev_write_def)
qed

lemma close_writer_image:
  assumes inv: "w_inv enc payload es w" and run: "close_writer enc w = (w', None)"
  shows "blocks_ok (chunks [] es) \<and> dev_data (w_dev w') = file_image enc payload (chunks [] es)"
proof -
  let ?w = "w\<lparr>w_closed := True\<rparr>"
  obtain bss cur where cut: "\<forall>rest. chunks [] (es @ rest) = bss @ chunks cur rest"
    and rep: "w_rep enc payload bss cur ?w"
    and ok: "blocks_ok bss" and small: "length (encode_entries [] cur) < default_block_size"
    using inv unfolding w_inv_def w_rep_closed by blast
  obtain w1 w2 w3 d4 n4 d5 n5 where w1: "flush_block enc ?w = (w1, None)"
    and w2: "write_index enc w1 = (w2, None)"
    and w3: "w_write w2 (footer_fields
      [w_meta_offset w2, w_meta_length w2, w_data_offset w2, w_off w1 - w_data_offset w1, w_off w1,
       w_off w2 - w_off w1, w_entries w2, w_errors w2, length (w_index w2)]) = (w3, None)"
    and d4: "dev_write (w_dev w3) (sha256 (w_digest w3)) = (d4, n4, None)"
    and d5: "dev_write d4 footer_magic = (d5, n5, None)" and w': "w' = w3\<lparr>w_dev := d5\<rparr>"
    using run w_inv_open [OF inv]
    by (auto simp: close_writer_def Let_def split: prod.splits option.splits)
  define bss' where "bss' = chunks [] es"
  have bss': "blocks_ok bss'" and rep1: "w_rep enc payload bss' [] w1"
    using flush_open_block [OF rep ok small w1] spec [OF cut, of "[]"] by (simp_all add: bss'_def)
  have sync1: "w_synced w1" and dig1: "w_digest w1 = body enc payload bss'"
    using rep1 by (simp_all add: w_rep_def)
  from write_index_ok [OF w2 sync1] obtain r2 where w2':
    "w2 = w1\<lparr>w_dev := \<lparr>dev_data = w_digest w1 @ section_bytes enc (index_bytes (w_index w1)),
        dev_room = r2\<rparr>,
      w_off := w_off w1 + length (section_bytes enc (index_bytes (w_index w1))),
      w_digest := w_digest w1 @ section_bytes enc (index_bytes (w_index w1))\<rparr>" by blast
  have sync2: "w_synced w2" using sync1 by (simp add: w2') (simp add: w_synced_def)
  have off1: "w_off w1 = header_size + length payload + length (data_image enc bss')"
    using sync1 dig1 by (simp add: w_synced_def body_def)
  have fv: "[w_meta_offset w2, w_meta_length w2, w_data_offset w2, w_off w1 - w_data_offset w1,
       w_off w1, w_off w2 - w_off w1, w_entries w2, w_errors w2, length (w_index w2)]
     = footer_values enc payload bss'"
    using rep1 off1 by (simp add: w2' w_rep_def footer_values_def Let_def)
  have "w_digest w2 @ footer_fields (footer_values enc payload bss') = signed_part enc payload bss'"
    using rep1 by (simp add: w2' w_rep_def signed_part_def)
  with w_write_ok [OF w3 sync2] have dig3: "w_digest w3 = signed_part enc payload bss'"
    and dev3: "dev_data (w_dev w3) = signed_part enc payload bss'" by (auto simp: fv)
  from dev_write_ok [OF d4] dev_write_ok [OF d5] dig3 dev3 w'
  have "dev_data (w_dev w') = file_image enc payload bss'" by (simp add: file_image_def)
  with bss' show ?thesis by (simp add: bss'_def)
qed

end
