(* ===== verification/Store_Roundtrip.thy ===== *)
theory Store_Roundtrip
  imports Store_Image
begin

text \<open>
  Reading a finished file back: every section of the image is found where the footer says it
  is, the index is the layout of the blocks, and the cursor delivers the entries of the
  blocks in order. The lengths of the file and of its sections stay below what an
  \<open>int64\<close> holds, which is where the code's unchecked additions are exact.
\<close>

section \<open>Offsets as machine words\<close>

lemma sint_of_nat [simp]: "n < 2 ^ 63 \<Longrightarrow> sint (of_nat n :: i64) = int n"
  by (simp add: signed_of_nat signed_take_bit_int_eq_self)

lemma sless_of_nat: "m < 2 ^ 63 \<Longrightarrow> n < 2 ^ 63 \<Longrightarrow> (of_nat m :: i64) <s of_nat n \<longleftrightarrow> m < n"
  by (simp add: word_sless_alt)

lemma sle_of_nat: "m < 2 ^ 63 \<Longrightarrow> n < 2 ^ 63 \<Longrightarrow> (of_nat m :: i64) \<le>s of_nat n \<longleftrightarrow> m \<le> n"
  by (simp add: word_sle_eq)

lemma read_at_mid:
  "length xs + length ys + length zs < 2 ^ 63 \<Longrightarrow>
   read_at (xs @ ys @ zs) (of_nat (length xs)) (length ys) = Some ys"
  by (simp add: read_at_def)

section \<open>Sections\<close>

text \<open>
  What the code relies on of \<open>zstd\<close>: a buffer of at most one block compresses to less than
  2 GiB and decompresses to itself.
\<close>

definition zstd_ok :: "(byte list \<Rightarrow> byte list) \<Rightarrow> (byte list \<Rightarrow> byte list option) \<Rightarrow> bool" where
  "zstd_ok enc dec \<longleftrightarrow>
     (\<forall>p. length p \<le> max_block_size \<longrightarrow> dec (enc p) = Some p \<and> length (enc p) < 2 ^ 31)"

lemma length_section_bytes: "length (section_bytes enc p) = 8 + length (enc p)"
  by (simp add: section_bytes_def)

lemma read_block_section:
  assumes z: "zstd_ok enc dec" and p: "length p \<le> max_block_size"
    and data: "data = xs @ section_bytes enc p @ zs" and small: "length data < 2 ^ 63"
  shows "read_block dec data (of_nat (length data))
      (of_nat (length xs)) (of_nat (length (section_bytes enc p))) = Ret p"
proof -
  let ?s = "section_bytes enc p" and ?c = "enc p"
  have len: "length (xs @ section_bytes enc p @ zs) < 2 ^ 63" using data small by simp
  have c: "dec ?c = Some p" "length ?c < 2 ^ 31" using z p by (auto simp: zstd_ok_def)
  have n: "length ?s = 8 + length ?c" by (rule length_section_bytes)
  have raw: "read_at (xs @ ?s @ zs) (of_nat (length xs)) (length ?s) = Some ?s"
    using len by (intro read_at_mid) simp
  have sum: "(of_nat (length xs) :: i64) + of_nat (length ?s) = of_nat (length xs + length ?s)" by simp
  have sz: "nat (sint (of_nat (length ?s) :: i64)) = length ?s" using len by simp
  have g1: "\<not> (of_nat (length ?s) :: i64) <s of_nat block_header_size"
    using len n by (subst sless_of_nat) auto
  have g2: "\<not> (of_nat (length (xs @ ?s @ zs)) :: i64) <s of_nat (length xs + length ?s)"
    using len by (subst sless_of_nat) auto
  have g3: "make_ok (of_nat (length ?s))"
  proof -
    have "sint (of_nat (length ?s) :: i64) = int (length ?s)"
      by (rule sint_of_nat) (use len in simp)
    moreover have "length ?s < 2 ^ 32" using c(2) n by simp
    ultimately show ?thesis by (simp add: make_ok_def max_alloc_def)
  qed
  have b1: "take 4 ?s = le_bytes 4 (of_nat (length p) :: u32)"
    "take 4 (drop 4 ?s) = le_bytes 4 (of_nat (length ?c) :: u32)" "drop 8 ?s = ?c"
    by (simp_all add: section_bytes_def block_header_def)
  have u1: "unat (of_nat (length p) :: u32) = length p"
    using p by (simp add: unat_of_nat)
  have u2: "(ucast (of_nat (length ?c) :: u32) :: i64) = of_nat (length ?c)"
    using c(2) by (simp add: unsigned_of_nat take_bit_nat_eq_self)
  have u3: "(of_nat (length ?s) :: i64) - of_nat block_header_size = of_nat (length ?c)"
    by (simp add: n)
  have dec: "dec (drop block_header_size ?s) = Some p" using c(1) b1 by simp
  show ?thesis
    unfolding read_block_def data
    by (simp only: sum g1 g2 g3 sz raw) (use p dec in \<open>simp add: b1 u1 u2 u3 Let_def del: size_values\<close>)
qed

text \<open>The index section: \<open>read_index_entries\<close> inverts \<open>put_index_entry\<close>, record by record.\<close>

definition index_entry_ok :: "i64 \<Rightarrow> i64 \<Rightarrow> index_entry \<Rightarrow> bool" where
  "index_entry_ok lo hi ie \<longleftrightarrow> length (ie_first_key ie) \<le> max_string_size \<and>
     \<not> ie_offset ie <s lo \<and> \<not> ie_size ie \<le>s 0 \<and> \<not> hi <s ie_offset ie + ie_size ie"

lemma read_index_entries_ok:
  "br_at b (concat (map put_index_entry ies) @ rest) \<Longrightarrow> \<forall>ie\<in>set ies. index_entry_ok lo hi ie \<Longrightarrow>
   read_index_entries i (length ies) lo hi b acc = Ret (acc @ ies)"
proof (induction ies arbitrary: b i acc)
  case Nil
  then show ?case by simp
next
  case (Cons ie ies)
  let ?rest = "concat (map put_index_entry ies) @ rest"
  have ok: "index_entry_ok lo hi ie" using Cons.prems by simp
  then have k: "length (ie_first_key ie) \<le> max_string_size" "length (ie_first_key ie) < 2 ^ 64"
    by (simp_all add: index_entry_ok_def)
  have at: "br_at b (put_str (ie_first_key ie) @ put_uvarint (ie_offset ie) @ put_uvarint (ie_size ie) @ ?rest)"
    using Cons.prems(1) by (simp add: put_index_entry_def [of ie])
  define b1 where "b1 = br_skip (length (put_str (ie_first_key ie))) b"
  define b2 where "b2 = br_skip (length (put_uvarint (ie_offset ie))) b1"
  define b3 where "b3 = br_skip (length (put_uvarint (ie_size ie))) b2"
  have at1: "br_at b1 (put_uvarint (ie_offset ie) @ put_uvarint (ie_size ie) @ ?rest)"
    unfolding b1_def by (rule br_at_skip [OF at])
  have at2: "br_at b2 (put_uvarint (ie_size ie) @ ?rest)" unfolding b2_def by (rule br_at_skip [OF at1])
  have at3: "br_at b3 ?rest" unfolding b3_def by (rule br_at_skip [OF at2])
  have r1: "run_state (br_str max_string_size) b = (ie_first_key ie, b1)"
    unfolding b1_def by (rule consumesD [OF consumes_str [OF k] at])
  have r2: "run_state br_uvarint b1 = (ie_offset ie, b2)"
    unfolding b2_def by (rule consumesD [OF consumes_uvarint at1])
  have r3: "run_state br_uvarint b2 = (ie_size ie, b3)"
    unfolding b3_def by (rule consumesD [OF consumes_uvarint at2])
  have eta: "\<lparr>ie_first_key = ie_first_key ie, ie_offset = ie_offset ie, ie_size = ie_size ie\<rparr> = ie"
    by simp
  have "\<not> br_panic b3" "br_err b3 = None" using at3 by (simp_all add: br_at_def)
  then show ?case using ok Cons.IH [OF at3, of "Suc i" "acc @ [ie]"] Cons.prems(2)
    by (simp add: eta r1 r2 r3 index_entry_ok_def del: size_values)
qed

lemma length_index_bytes_ge: "3 * length ies + 1 \<le> length (index_bytes ies)"
proof -
  have p: "1 \<le> length (put_uvarint x)" for x by (subst put_uvarint.simps) simp
  have e: "3 \<le> length (put_index_entry ie)" for ie
    using p [of "ie_offset ie"] p [of "ie_size ie"] p [of "of_nat (length (ie_first_key ie))"]
    by (simp add: put_index_entry_def put_str_def)
  have "3 * length ies \<le> length (concat (map put_index_entry ies))"
    by (induction ies) (use e in \<open>auto simp: add_le_mono\<close>)
  with p [of "of_nat (length ies)"] show ?thesis by (simp add: index_bytes_def)
qed

lemma read_index_ok:
  assumes z: "zstd_ok enc dec" and p: "length (index_bytes ies) \<le> max_block_size"
    and data: "data = xs @ section_bytes enc (index_bytes ies) @ zs" and small: "length data < 2 ^ 63"
    and ok: "\<forall>ie\<in>set ies. index_entry_ok lo hi ie"
  shows "read_index dec data (of_nat (length data))
      (of_nat (length xs)) (of_nat (length (section_bytes enc (index_bytes ies)))) lo hi = Ret ies"
proof -
  let ?p = "index_bytes ies" and ?n = "of_nat (length ies) :: u64"
  have few: "length ies < 2 ^ 64" using length_index_bytes_ge [of ies] p by simp
  have cnt: "unat ?n = length ies" using few by (simp add: unat_of_nat)
  have ge: "\<not> length ?p div 3 < length ies" using length_index_bytes_ge [of ies] by linarith
  let ?b = "br_skip (length (put_uvarint ?n)) (br_init ?p)"
  have at0: "br_at (br_init ?p) (put_uvarint ?n @ concat (map put_index_entry ies) @ [])"
    by (simp add: br_at_def br_init_def index_bytes_def)
  have at: "br_at ?b (concat (map put_index_entry ies) @ [])" by (rule br_at_skip [OF at0])
  have r: "run_state br_uvarint (br_init ?p) = (?n, ?b)"
    by (rule consumesD [OF consumes_uvarint at0])
  have "\<not> br_panic ?b" "br_err ?b = None" using at by (simp_all add: br_at_def)
  moreover have "(of_nat (length (section_bytes enc ?p)) :: i64) \<noteq> 0"
  proof
    assume "(of_nat (length (section_bytes enc ?p)) :: i64) = 0"
    moreover have "sint (of_nat (length (section_bytes enc ?p)) :: i64) = int (length (section_bytes enc ?p))"
      by (rule sint_of_nat) (use data small in simp)
    ultimately show False by (simp add: length_section_bytes)
  qed
  ultimately show ?thesis
    using read_index_entries_ok [OF at ok, of 0 "[]"]
    by (simp add: read_index_def read_block_section [OF z p data small] r cnt ge del: size_values)
qed


section \<open>Opening\<close>

lemma footer_fields_Cons:
  "footer_fields (v # vs) = le_bytes 8 (of_nat v :: u64) @ footer_fields vs"
  by (simp add: footer_fields_def)

lemma length_footer_fields [simp]: "length (footer_fields vs) = 8 * length vs"
  by (induction vs) (simp_all add: footer_fields_Cons, simp add: footer_fields_def)

lemma footer_field_nth:
  "i < length vs \<Longrightarrow> footer_field (footer_fields vs @ rest) i = of_nat (vs ! i)"
proof (induction vs arbitrary: i)
  case Nil
  then show ?case by simp
next
  case (Cons v vs)
  then show ?case
    by (cases i) (simp_all add: footer_fields_Cons footer_field_def add.commute)
qed

lemma section_ok_of_nat:
  "32 \<le> a \<Longrightarrow> a + b \<le> limit \<Longrightarrow> limit < 2 ^ 63 \<Longrightarrow> section_ok (of_nat limit) (of_nat a, of_nat b)"
proof -
  assume a: "32 \<le> a" "a + b \<le> limit" "limit < 2 ^ 63"
  have "\<not> (of_nat a :: i64) <s of_nat header_size" using a by (subst sless_of_nat) auto
  moreover have "\<not> (of_nat b :: i64) <s of_nat 0" using a by (subst sless_of_nat) auto
  moreover have "\<not> (of_nat limit :: i64) <s of_nat a" using a by (subst sless_of_nat) auto
  moreover have "\<not> (of_nat limit :: i64) <s of_nat (a + b)" using a by (subst sless_of_nat) auto
  ultimately show ?thesis by (simp add: section_ok_def)
qed

lemma layout_ok:
  "lo \<le> off \<Longrightarrow> off + length (data_image enc bss) \<le> hi \<Longrightarrow> hi < 2 ^ 63 \<Longrightarrow>
   \<forall>es\<in>set bss. es \<noteq> [] \<and> entry_fits (hd es) \<Longrightarrow>
   \<forall>ie\<in>set (layout enc off bss). index_entry_ok (of_nat lo) (of_nat hi) ie"
proof (induction bss arbitrary: off)
  case Nil
  then show ?case by simp
next
  case (Cons es bss)
  let ?n = "length (block_image enc es)"
  have n: "8 \<le> ?n" by (simp add: block_image_def length_section_bytes)
  have b: "off + ?n \<le> hi" using Cons.prems(2) by simp
  have "\<not> (of_nat off :: i64) <s of_nat lo" using Cons.prems b by (subst sless_of_nat) auto
  moreover have "\<not> (of_nat ?n :: i64) \<le>s of_nat 0" using Cons.prems b n by (subst sle_of_nat) auto
  moreover have "\<not> (of_nat hi :: i64) <s of_nat (off + ?n)" using Cons.prems b by (subst sless_of_nat) auto
  ultimately have "index_entry_ok (of_nat lo) (of_nat hi)
      \<lparr>ie_first_key = e_path (hd es), ie_offset = of_nat off, ie_size = of_nat ?n\<rparr>"
    using Cons.prems(4) by (simp add: index_entry_ok_def entry_fits_def)
  with Cons.IH [of "off + ?n"] Cons.prems show ?case by simp
qed

lemma length_signed_part:
  "length (file_image enc payload bss) =
     header_size + length payload + length (data_image enc bss)
     + length (section_bytes enc (index_bytes (layout enc (header_size + length payload) bss))) + 112"
  by (simp add: file_image_def signed_part_def body_def footer_values_def Let_def)

text \<open>The reader that a finished file gives.\<close>

definition image_reader ::
    "(byte list \<Rightarrow> byte list) \<Rightarrow> byte list \<Rightarrow> meta \<Rightarrow> entry list list \<Rightarrow> reader" where
  "image_reader enc payload m bss =
     \<lparr>r_data = file_image enc payload bss,
      r_size = of_nat (length (file_image enc payload bss)),
      r_meta = m\<lparr>m_entries := of_nat (length (concat bss)),
        m_errors := of_nat (error_count (concat bss)), m_blocks := of_nat (length bss)\<rparr>,
      r_index = layout enc (header_size + length payload) bss,
      r_digest = sha256 (signed_part enc payload bss)\<rparr>"

lemma file_header_bytes:
  "take (length store_magic) file_header = store_magic"
  "file_header ! length store_magic = format_version"
  "file_header ! (length store_magic + 1) = hash_sha256"
  "file_header ! (length store_magic + 2) = compression_zstd"
  by (simp_all add: file_header_def nth_append)

text \<open>Every entry costs a byte of its block, so the number of entries is bounded.\<close>

lemma length_encode_entries: "length es \<le> length (encode_entries prev es)"
proof (induction es arbitrary: prev)
  case Nil
  then show ?case by simp
next
  case (Cons e es)
  have "1 \<le> length (append_entry [] e prev)" by (simp add: append_entry_eq attr_bytes_def)
  with Cons [of "e_path e"] show ?case by (simp add: add_mono)
qed

lemma length_concat_blocks: "blocks_ok bss \<Longrightarrow> length (concat bss) \<le> length bss * max_block_size"
proof (induction bss)
  case Nil
  then show ?case by simp
next
  case (Cons es bss)
  then have "length es \<le> max_block_size"
    using length_encode_entries [of es "[]"] by (auto simp: blocks_ok_def)
  with Cons show ?case by (simp add: blocks_ok_def)
qed

lemma open_reader_image:
  assumes z: "zstd_ok enc dec" and um: "unmarshal payload = Some (json_fields m)"
    and pl: "length payload \<le> max_meta_size"
    and blocks: "blocks_ok bss" and fits: "\<forall>es\<in>set bss. entry_fits (hd es)"
    and idx: "length (index_bytes (layout enc (header_size + length payload) bss)) \<le> max_block_size"
    and small: "length (file_image enc payload bss) < 2 ^ 63"
  shows "open_reader dec unmarshal (file_image enc payload bss) = Ret (image_reader enc payload m bss)"
proof -
  let ?data = "file_image enc payload bss"
  let ?ies = "layout enc (header_size + length payload) bss"
  let ?sec = "section_bytes enc (index_bytes ?ies)"
  let ?vs = "footer_values enc payload bss"
  let ?sha = "sha256 (signed_part enc payload bss)"
  let ?a = "header_size + length payload" and ?d = "length (data_image enc bss)"
  define pre where "pre = body enc payload bss @ ?sec"
  define footer where "footer = footer_fields ?vs @ ?sha @ footer_magic"
  define n where "n = length ?data"
  have data: "?data = pre @ footer"
    by (simp add: file_image_def signed_part_def pre_def footer_def)
  have vs: "length ?vs = 9" by (simp add: footer_values_def Let_def)
  have lfoot: "length footer = 112" by (simp add: footer_def vs)
  have n: "n = length pre + 112" "n < 2 ^ 63" using small by (simp_all add: n_def data lfoot)
  have lpre: "length pre = ?a + ?d + length ?sec" by (simp add: pre_def body_def)
  have few: "length bss \<le> 67108864" using length_index_bytes_ge [of ?ies] idx by simp
  have counts: "length (concat bss) < 2 ^ 63"
    using length_concat_blocks [OF blocks] few by simp
  have lim: "(of_nat n :: i64) - of_nat footer_size = of_nat (length pre)" by (simp add: n)
  have g0: "\<not> (of_nat n :: i64) <s of_nat (header_size + footer_size)"
    using n lpre by (subst sless_of_nat) (auto simp: length_section_bytes)
  have rhead: "read_at ?data 0 header_size = Some file_header"
    using read_at_mid [of "[]" file_header "payload @ data_image enc bss @ ?sec @ footer"] small
    by (simp add: data pre_def body_def)
  have rfoot: "read_at ?data (of_nat (length pre)) footer_size = Some footer"
    using read_at_mid [of pre footer "[]"] small by (simp add: data lfoot)
  have magic: "drop (footer_size - length footer_magic) footer = footer_magic"
    by (simp add: footer_def vs)
  have dig: "take 32 (drop (9 * 8) footer) = ?sha" by (simp add: footer_def vs)
  have f: "footer_field footer i = of_nat (?vs ! i)" if "i < 9" for i
    unfolding footer_def by (rule footer_field_nth) (simp add: vs that)
  have fs: "footer_field footer 0 = of_nat header_size" "footer_field footer 1 = of_nat (length payload)"
    "footer_field footer 2 = of_nat ?a" "footer_field footer 3 = of_nat ?d"
    "footer_field footer 4 = of_nat (?a + ?d)" "footer_field footer 5 = of_nat (length ?sec)"
    "footer_field footer 6 = of_nat (length (concat bss))"
    "footer_field footer 7 = of_nat (error_count (concat bss))"
    "footer_field footer 8 = of_nat (length bss)"
    by (simp_all only: f) (simp_all add: footer_values_def Let_def numeral_eq_Suc)
  have sections: "find (\<lambda>s. \<not> section_ok (of_nat (length pre)) s)
      [(of_nat header_size, of_nat (length payload)), (of_nat ?a, of_nat ?d),
       (of_nat (?a + ?d), of_nat (length ?sec))] = None"
  proof -
    have "section_ok (of_nat (length pre)) (of_nat header_size, of_nat (length payload))"
      by (rule section_ok_of_nat) (use n lpre in auto)
    moreover have "section_ok (of_nat (length pre)) (of_nat ?a, of_nat ?d)"
      by (rule section_ok_of_nat) (use n lpre in auto)
    moreover have "section_ok (of_nat (length pre)) (of_nat (?a + ?d), of_nat (length ?sec))"
      by (rule section_ok_of_nat) (use n lpre in auto)
    ultimately show ?thesis by simp
  qed
  have errs: "error_count (concat bss) \<le> length (concat bss)" by (simp add: error_count_def)
  have neg: "\<not> (of_nat k :: i64) <s 0" if "k < 2 ^ 63" for k :: nat
    using sless_of_nat [of k 0] that by simp
  have g1: "\<not> (of_nat (length (concat bss)) :: i64) <s 0" "\<not> (of_nat (error_count (concat bss)) :: i64) <s 0"
    "\<not> (of_nat (length bss) :: i64) <s 0"
    using counts errs few by (auto intro!: neg)
  have g2: "\<not> (of_nat max_meta_size :: i64) <s of_nat (length payload)"
    using pl by (subst sless_of_nat) auto
  have rmeta: "read_at ?data (of_nat header_size) (nat (sint (of_nat (length payload) :: i64))) = Some payload"
    using read_at_mid [of file_header payload "data_image enc bss @ ?sec @ footer"] small pl
    by (simp add: data pre_def body_def)
  have rindex: "read_index dec ?data (of_nat n) (of_nat (?a + ?d)) (of_nat (length ?sec)) (of_nat ?a)
      (of_nat ?a + of_nat ?d) = Ret ?ies"
  proof -
    have ok: "\<forall>ie\<in>set ?ies. index_entry_ok (of_nat ?a) (of_nat (?a + ?d)) ie"
      by (rule layout_ok) (use n lpre blocks fits in \<open>auto simp: blocks_ok_def\<close>)
    have d: "?data = body enc payload bss @ ?sec @ footer" by (simp add: data pre_def)
    from read_index_ok [OF z idx d small ok] show ?thesis by (simp add: n_def body_def add.assoc)
  qed
  have cnt: "int (length ?ies) = sint (of_nat (length bss) :: i64)" using few by simp
  show ?thesis
    unfolding open_reader_def new_reader_def
    apply (simp only: n_def [symmetric] g0 if_False rhead option.case file_header_bytes not_True_eq_False
        simp_thms lim rfoot magic Let_def fs sections g1 g2 rmeta um rindex outcome.case cnt dig)
    apply (simp add: image_reader_def n_def json_fields_def)
    done
qed

end
