(* ===== verification/Store_Cursor.thy ===== *)
theory Store_Cursor
  imports Store_Roundtrip
begin

text \<open>
  The cursor of a finished file delivers its entries, in order, and \<open>Seek\<close> delivers the
  tail from a path on. \<open>readable\<close> is what the proofs need of a reader: every record of its
  index leads to one block of the image.

  A cursor is used through its \<open>Next\<close> only. The locale \<open>source\<close> states that interface,
  the one \<open>internal/diff\<close> declares as \<open>Source\<close>, and the cursor interprets it on every
  reader whose stream ends without an error.
\<close>

section \<open>Streams of entries\<close>

text \<open>
  \<open>nxt\<close> pulls one entry; \<open>items\<close> is what a state still has to give, and \<open>clean\<close> says
  that nothing but the end follows it.
\<close>

locale source =
  fixes nxt :: "'s \<Rightarrow> entry pull \<times> 's"
    and items :: "'s \<Rightarrow> entry list"
    and clean :: "'s \<Rightarrow> bool"
  assumes nxt_nil: "clean s \<Longrightarrow> items s = [] \<Longrightarrow> fst (nxt s) = End"
    and nxt_cons: "clean s \<Longrightarrow> items s = e # es \<Longrightarrow>
      \<exists>s'. nxt s = (Got e, s') \<and> clean s' \<and> items s' = es"

text \<open>All that a cursor delivers, and how its stream ends.\<close>

function drain ::
    "(byte list \<Rightarrow> byte list option) \<Rightarrow> reader \<Rightarrow> cursor \<Rightarrow> entry list \<times> entry pull" where
  "drain dec r c =
     (case cursor_next dec r c of
        (Got e, c') \<Rightarrow> (case drain dec r c' of (es, p) \<Rightarrow> (e # es, p))
      | (p, c') \<Rightarrow> ([], p))"
  by pat_completeness auto
termination
  by (relation "inv_image rank_less (\<lambda>(dec, r, c). cursor_rank r c)")
    (auto intro: wf_rank_less dest: cursor_next_got [OF sym])

declare drain.simps [simp del]

definition cursor_items ::
    "(byte list \<Rightarrow> byte list option) \<Rightarrow> reader \<Rightarrow> cursor \<Rightarrow> entry list" where
  "cursor_items dec r c = fst (drain dec r c)"

definition cursor_clean :: "(byte list \<Rightarrow> byte list option) \<Rightarrow> reader \<Rightarrow> cursor \<Rightarrow> bool" where
  "cursor_clean dec r c \<longleftrightarrow> snd (drain dec r c) = End"

interpretation cur: source "cursor_next dec r" "cursor_items dec r" "cursor_clean dec r" for dec r
proof unfold_locales
  fix s e es
  show "cursor_clean dec r s \<Longrightarrow> cursor_items dec r s = [] \<Longrightarrow> fst (cursor_next dec r s) = End"
    by (auto simp: cursor_clean_def cursor_items_def drain.simps [of dec r s]
        split: prod.splits pull.splits)
  show "cursor_clean dec r s \<Longrightarrow> cursor_items dec r s = e # es \<Longrightarrow>
      \<exists>s'. cursor_next dec r s = (Got e, s') \<and> cursor_clean dec r s' \<and> cursor_items dec r s' = es"
    by (auto simp: cursor_clean_def cursor_items_def drain.simps [of dec r s]
        split: prod.splits pull.splits)
qed

section \<open>The cursor of a finished file\<close>

definition readable ::
    "(byte list \<Rightarrow> byte list option) \<Rightarrow> reader \<Rightarrow> entry list list \<Rightarrow> bool" where
  "readable dec r bss \<longleftrightarrow>
     length (r_index r) = length bss \<and>
     (\<forall>i < length bss.
        ie_first_key (r_index r ! i) = e_path (hd (bss ! i)) \<and>
        read_block dec (r_data r) (r_size r) (ie_offset (r_index r ! i)) (ie_size (r_index r ! i))
          = Ret (encode_entries [] (bss ! i)))"

definition stored :: "entry list \<Rightarrow> bool" where
  "stored es \<longleftrightarrow> increasing_keys (map e_path es) \<and>
     (\<forall>e\<in>set es. entry_wf e \<and> entry_fits e \<and> e_path e \<noteq> [])"

lemma stored_append:
  "stored (xs @ ys) \<longleftrightarrow> stored xs \<and> stored ys \<and>
     (\<forall>x\<in>set xs. \<forall>y\<in>set ys. key_less (e_path x) (e_path y))"
  by (auto simp: stored_def sorted_wrt_append)

lemma stored_Cons:
  "stored (x # ys) \<longleftrightarrow> stored ys \<and> entry_wf x \<and> entry_fits x \<and> e_path x \<noteq> [] \<and>
     (\<forall>y\<in>set ys. key_less (e_path x) (e_path y))"
  by (auto simp: stored_def)

text \<open>The position of a cursor: in the block \<open>cu_block\<close>, before the entries \<open>es\<close> of it.\<close>

definition sits :: "entry list list \<Rightarrow> cursor \<Rightarrow> entry list \<Rightarrow> bool" where
  "sits bss c es \<longleftrightarrow>
     \<not> cu_pending c \<and> - 1 \<le> cu_block c \<and> cu_block c < int (length bss) \<and>
     br_at (bd_br (cu_dec c)) (encode_entries (bd_prev (cu_dec c)) es) \<and> stored es \<and>
     (\<forall>e\<in>set es. bd_prev (cu_dec c) = [] \<or> key_less (bd_prev (cu_dec c)) (e_path e))"

definition later :: "entry list list \<Rightarrow> cursor \<Rightarrow> entry list" where
  "later bss c = concat (drop (nat (cu_block c + 1)) bss)"

lemma bd_next_sits:
  assumes "sits bss c (e # es)"
  shows "\<exists>d. bd_next (cu_dec c) = (Got e, d) \<and> bd_e d = e \<and> sits bss (c\<lparr>cu_dec := d\<rparr>) es"
proof -
  let ?d = "cu_dec c" and ?a = "append_entry [] e (bd_prev (cu_dec c))"
  have at: "br_at (bd_br ?d) (?a @ encode_entries (e_path e) es)"
    and st: "stored (e # es)" and pr: "bd_prev ?d = [] \<or> key_less (bd_prev ?d) (e_path e)"
    using assms by (auto simp: sits_def)
  have e: "entry_wf e" "entry_fits e" "e_path e \<noteq> []" using st by (simp_all add: stored_Cons)
  from br_at_skip [OF at] assms st show ?thesis
    by (subst bd_next_entry [OF at e pr]) (simp add: sits_def stored_Cons)
qed

lemma bd_next_end: "br_at (bd_br d) [] \<Longrightarrow> bd_next d = (End, d)"
  by (auto simp: bd_next_def br_at_def)

lemma cursor_loop_sits:
  assumes r: "readable dec r bss" and ok: "blocks_ok bss" and st: "stored (concat bss)"
    and c: "sits bss c cur"
  shows "cur @ later bss c = [] \<Longrightarrow> cursor_loop dec r c = (End, c)"
    and "cur @ later bss c = e # es \<Longrightarrow>
      \<exists>c' cur'. cursor_loop dec r c = (Got e, c') \<and> bd_e (cu_dec c') = e \<and>
        sits bss c' cur' \<and> cur' @ later bss c' = es"
proof -
  have len: "length (r_index r) = length bss" using r by (simp add: readable_def)
  let ?k = "nat (cu_block c + 1)"
  have k: "0 \<le> cu_block c + 1" "cu_block c < int (length bss)" using c by (simp_all add: sits_def)
  {
    assume nil: "cur @ later bss c = []"
    have "drop ?k bss = []"
    proof (rule ccontr)
      assume "drop ?k bss \<noteq> []"
      then obtain b bs where "drop ?k bss = b # bs" by (meson neq_Nil_conv)
      moreover from this have "b \<in> set bss" by (metis in_set_dropD list.set_intros(1))
      ultimately show False using nil ok by (auto simp: later_def blocks_ok_def)
    qed
    then have "int (length (r_index r)) \<le> cu_block c + 1" using k len by simp
    moreover have "bd_next (cu_dec c) = (End, cu_dec c)"
      using c nil by (intro bd_next_end) (simp add: sits_def)
    ultimately show "cursor_loop dec r c = (End, c)"
      by (simp add: cursor_loop.simps [of dec r c])
  }
  {
    assume cons: "cur @ later bss c = e # es"
    show "\<exists>c' cur'. cursor_loop dec r c = (Got e, c') \<and> bd_e (cu_dec c') = e \<and>
        sits bss c' cur' \<and> cur' @ later bss c' = es"
    proof (cases cur)
      case (Cons x xs)
      with cons have x: "x = e" "es = xs @ later bss c" by simp_all
      from bd_next_sits [of bss c x xs] c Cons obtain d where
        d: "bd_next (cu_dec c) = (Got e, d)" "bd_e d = e" "sits bss (c\<lparr>cu_dec := d\<rparr>) xs"
        using x by auto
      with x show ?thesis
        by (intro exI [of _ "c\<lparr>cu_dec := d\<rparr>"] exI [of _ xs])
          (simp add: cursor_loop.simps [of dec r c] later_def)
    next
      case Nil
      with cons have "drop ?k bss \<noteq> []" by (auto simp: later_def)
      then have lt: "?k < length bss" by simp
      then have drop: "drop ?k bss = bss ! ?k # drop (Suc ?k) bss" by (simp add: Cons_nth_drop_Suc)
      obtain x xs where b: "bss ! ?k = x # xs"
        using ok lt by (metis blocks_ok_def neq_Nil_conv nth_mem)
      have x: "x = e" "es = xs @ concat (drop (Suc ?k) bss)"
        using cons Nil drop b by (simp_all add: later_def)
      define buf where "buf = encode_entries [] (x # xs)"
      let ?c = "c\<lparr>cu_block := cu_block c + 1, cu_dec := bd_reset buf (cu_dec c)\<rparr>"
      have "stored (x # xs)"
      proof -
        have "concat bss = concat (take ?k bss) @ (x # xs) @ concat (drop (Suc ?k) bss)"
          using id_take_nth_drop [OF lt] b by (metis concat.simps(2) concat_append)
        with st show ?thesis by (metis stored_append)
      qed
      then have sits: "sits bss ?c (x # xs)"
        using lt k c by (auto simp: sits_def bd_reset_def br_at_def br_init_def buf_def)
      from bd_next_sits [OF sits] obtain d where
        d: "bd_next (cu_dec ?c) = (Got e, d)" "bd_e d = e" "sits bss (?c\<lparr>cu_dec := d\<rparr>) xs"
        using x by auto
      have fin: "bd_next (cu_dec c) = (End, cu_dec c)"
        using c Nil by (intro bd_next_end) (simp add: sits_def)
      have "read_block dec (r_data r) (r_size r) (ie_offset (r_index r ! ?k)) (ie_size (r_index r ! ?k))
          = Ret buf"
        using r lt b by (simp add: readable_def buf_def)
      moreover have "\<not> int (length bss) \<le> cu_block c + 1" using lt by linarith
      ultimately have "cursor_loop dec r c = cursor_loop dec r ?c"
        using fin k len by (subst cursor_loop.simps) (simp add: Let_def)
      also have "\<dots> = (Got e, ?c\<lparr>cu_dec := d\<rparr>)" using d(1) by (simp add: cursor_loop.simps [of dec r ?c])
      finally show ?thesis
        using d x k by (intro exI [of _ "?c\<lparr>cu_dec := d\<rparr>"] exI [of _ xs])
          (simp add: later_def nat_add_distrib Suc_nat_eq_nat_zadd1)
    qed
  }
qed


lemma drain_sits:
  assumes r: "readable dec r bss" and ok: "blocks_ok bss" and st: "stored (concat bss)"
  shows "sits bss c cur \<Longrightarrow> drain dec r c = (cur @ later bss c, End)"
proof (induction "cur @ later bss c" arbitrary: c cur)
  case Nil
  have "\<not> cu_pending c" using Nil.prems by (simp add: sits_def)
  with cursor_loop_sits(1) [OF r ok st Nil.prems Nil.hyps [symmetric]] Nil.hyps show ?case
    by (simp add: drain.simps [of dec r c] cursor_next_def)
next
  case (Cons e es)
  obtain c' cur' where step: "cursor_loop dec r c = (Got e, c')"
    and c': "sits bss c' cur'" "cur' @ later bss c' = es"
    using cursor_loop_sits(2) [OF r ok st Cons.prems Cons.hyps(2) [symmetric]] by blast
  have "\<not> cu_pending c" using Cons.prems by (simp add: sits_def)
  with step Cons.hyps(1) [OF c'(2) [symmetric] c'(1)] c'(2) Cons.hyps(2) show ?case
    by (simp add: drain.simps [of dec r c] cursor_next_def)
qed

lemma sits_start:
  "i \<le> length bss \<Longrightarrow> bss \<noteq> [] \<or> i = 0 \<Longrightarrow> int i - 1 < int (length bss) \<Longrightarrow> sits bss (cursor_start (int i - 1)) []"
  by (simp add: sits_def cursor_start_def bd_zero_def br_at_def br_init_def stored_def)

lemma later_start: "later bss (cursor_start (int i - 1)) = concat (drop i bss)"
  by (simp add: later_def cursor_start_def)

section \<open>Seek\<close>

text \<open>The binary search: the least index from which the predicate holds.\<close>

lemma search_loop_least:
  "i \<le> j \<Longrightarrow> \<forall>k l. k \<le> l \<longrightarrow> l < j \<longrightarrow> f k \<longrightarrow> f l \<Longrightarrow> \<forall>k < i. \<not> f k \<Longrightarrow>
   i \<le> search_loop f i j \<and> search_loop f i j \<le> j \<and> (\<forall>k < search_loop f i j. \<not> f k) \<and>
   (\<forall>k. search_loop f i j \<le> k \<longrightarrow> k < j \<longrightarrow> f k)"
proof (induction f i j rule: search_loop.induct)
  case (1 f i j)
  show ?case
  proof (cases "i < j")
    case False
    with "1.prems" have "i = j" by simp
    with "1.prems" show ?thesis by (simp add: search_loop.simps [of f j j])
  next
    case True
    define h where "h = (i + j) div 2"
    have h: "i \<le> h" "h < j" using True by (auto simp: h_def)
    show ?thesis
    proof (cases "f h")
      case False
      then have "\<forall>k < h + 1. \<not> f k" using "1.prems"(2) h by (metis Suc_eq_plus1 less_Suc_eq_le)
      with "1.IH"(1) [OF True h_def] False "1.prems" h True show ?thesis
        by (simp add: search_loop.simps [of f i j] h_def [symmetric])
    next
      case fh: True
      have up: "\<forall>k. h \<le> k \<longrightarrow> k < j \<longrightarrow> f k" using "1.prems"(2) fh by blast
      have ih: "i \<le> search_loop f i h \<and> search_loop f i h \<le> h \<and> (\<forall>k < search_loop f i h. \<not> f k) \<and>
          (\<forall>k. search_loop f i h \<le> k \<longrightarrow> k < h \<longrightarrow> f k)"
        using "1.IH"(2) [OF True h_def] fh "1.prems" h by auto
      with up fh True h show ?thesis
        by (auto simp: search_loop.simps [of f i j] h_def [symmetric])
    qed
  qed
qed

lemma seek_loop_sits:
  assumes r: "readable dec r bss" and ok: "blocks_ok bss" and st: "stored (concat bss)"
  shows "sits bss c cur \<Longrightarrow>
    \<exists>c'. seek_loop dec r path c = Ret c' \<and>
      drain dec r c' = (dropWhile (\<lambda>e. key_less (e_path e) path) (cur @ later bss c), End)"
proof (induction "cur @ later bss c" arbitrary: c cur)
  case Nil
  have np: "\<not> cu_pending c" using Nil.prems by (simp add: sits_def)
  have "cursor_loop dec r c = (End, c)"
    by (rule cursor_loop_sits(1) [OF r ok st Nil.prems Nil.hyps [symmetric]])
  moreover have "drain dec r c = ([], End)"
    using drain_sits [OF r ok st Nil.prems] Nil.hyps by simp
  ultimately show ?case
    using np Nil.hyps by (simp add: seek_loop.simps [of dec r path c] cursor_next_def)
next
  case (Cons e es)
  have np: "\<not> cu_pending c" using Cons.prems by (simp add: sits_def)
  obtain c' cur' where step: "cursor_loop dec r c = (Got e, c')" and e: "bd_e (cu_dec c') = e"
    and c': "sits bss c' cur'" "cur' @ later bss c' = es"
    using cursor_loop_sits(2) [OF r ok st Cons.prems Cons.hyps(2) [symmetric]] by blast
  show ?case
  proof (cases "key_less (e_path e) path")
    case True
    with Cons.hyps(1) [OF c'(2) [symmetric] c'(1)] c'(2) Cons.hyps(2) [symmetric] np step show ?thesis
      by (auto simp: seek_loop.simps [of dec r path c] cursor_next_def)
  next
    case False
    let ?c = "c'\<lparr>cu_pending := True\<rparr>"
    have "c'\<lparr>cu_pending := False\<rparr> = c'" using c'(1) by (simp add: sits_def)
    then have "drain dec r ?c = (e # es, End)"
      using drain_sits [OF r ok st c'(1)] e c'(2)
      by (simp add: drain.simps [of dec r ?c] cursor_next_def)
    with False np step Cons.hyps(2) [symmetric] show ?thesis
      by (simp add: seek_loop.simps [of dec r path c] cursor_next_def)
  qed
qed


lemma readable_first:
  assumes r: "readable dec r bss" and ok: "blocks_ok bss" and st: "stored (concat bss)"
    and k: "k < length bss" and e: "e \<in> set (concat (take k bss))"
  shows "key_less (e_path e) (ie_first_key (r_index r ! k))"
proof -
  have "bss ! k \<noteq> []" using ok k by (auto simp: blocks_ok_def)
  then have hd: "hd (bss ! k) \<in> set (concat (drop k bss))"
    using k by (metis Cons_nth_drop_Suc Un_iff concat.simps(2) list.set_sel(1) set_append)
  have "concat bss = concat (take k bss) @ concat (drop k bss)"
    by (metis append_take_drop_id concat_append)
  with st e hd r k show ?thesis by (metis readable_def stored_append)
qed

lemma seek_readable:
  assumes r: "readable dec r bss" and ok: "blocks_ok bss" and st: "stored (concat bss)"
  shows "\<exists>c. seek dec r path = Ret c \<and>
    drain dec r c = (dropWhile (\<lambda>e. key_less (e_path e) path) (concat bss), End)"
proof -
  let ?n = "length (r_index r)"
  let ?f = "\<lambda>i. 0 < compare_key (ie_first_key (r_index r ! i)) path"
  define i where "i = sort_search ?n ?f"
  define k where "k = i - 1"
  have n: "?n = length bss" using r by (simp add: readable_def)
  have mono: "?f l" if "j \<le> l" "l < ?n" "?f j" for j l
  proof (cases "j = l")
    case True
    with that show ?thesis by simp
  next
    case False
    with that have jl: "j < l" by simp
    have "hd (bss ! j) \<in> set (concat (take l bss))"
    proof -
      have "bss ! j \<in> set (take l bss)" using jl that(2) n by (metis in_set_conv_nth length_take min.absorb4 nth_take)
      moreover have "bss ! j \<noteq> []" using ok jl that(2) n by (auto simp: blocks_ok_def)
      ultimately show ?thesis by (auto intro!: bexI [of _ "bss ! j"])
    qed
    from readable_first [OF r ok st _ this] that jl n r
    have "key_less (ie_first_key (r_index r ! j)) (ie_first_key (r_index r ! l))"
      by (simp add: readable_def)
    moreover have "key_less path (ie_first_key (r_index r ! j))"
      using that(3) by (simp add: canon.cmp_sym)
    ultimately have "key_less path (ie_first_key (r_index r ! l))" by (rule canon.cmp_trans [rotated])
    then show ?thesis by (simp add: canon.cmp_sym)
  qed
  have least: "i \<le> ?n" "\<forall>k < i. \<not> ?f k"
  proof -
    have up: "\<forall>k l. k \<le> l \<longrightarrow> l < ?n \<longrightarrow> ?f k \<longrightarrow> ?f l"
      by (intro allI impI) (rule mono)
    have "\<forall>k < 0. \<not> ?f k" by simp
    from search_loop_least [OF le0 up this] show "i \<le> ?n" "\<forall>k < i. \<not> ?f k"
      unfolding i_def sort_search_def by blast+
  qed
  have start: "sits bss (cursor_start (int k - 1)) []"
    by (rule sits_start) (use least n in \<open>auto simp: k_def\<close>)
  have below: "\<forall>e\<in>set (concat (take k bss)). key_less (e_path e) path"
  proof (cases "k = 0")
    case True
    then show ?thesis by simp
  next
    case False
    then have k: "k < i" "k < length bss" using least n by (auto simp: k_def)
    then have "\<not> ?f k" using least by blast
    then have "ie_first_key (r_index r ! k) = path \<or> key_less (ie_first_key (r_index r ! k)) path"
      using canon.not_less_iff [of path "ie_first_key (r_index r ! k)"] canon.cmp_sym by (metis not_less)
    with readable_first [OF r ok st k(2)] show ?thesis by (metis canon.cmp_trans)
  qed
  have eq: "concat bss = concat (take k bss) @ concat (drop k bss)"
    by (metis append_take_drop_id concat_append)
  have tail: "dropWhile (\<lambda>e. key_less (e_path e) path) (concat bss)
      = dropWhile (\<lambda>e. key_less (e_path e) path) (concat (drop k bss))"
    by (subst eq) (rule dropWhile_append2, use below in blast)
  have "seek dec r path = seek_loop dec r path (cursor_start (int k - 1))"
    by (auto simp: seek_def Let_def i_def [symmetric] k_def of_nat_diff)
  with seek_loop_sits [OF r ok st start, of path] tail show ?thesis
    by (simp add: later_start)
qed

section \<open>A finished file is readable\<close>

lemma layout_nth:
  "i < length bss \<Longrightarrow> layout enc off bss ! i =
     \<lparr>ie_first_key = e_path (hd (bss ! i)),
      ie_offset = of_nat (off + length (data_image enc (take i bss))),
      ie_size = of_nat (length (block_image enc (bss ! i)))\<rparr>"
proof (induction bss arbitrary: off i)
  case Nil
  then show ?case by simp
next
  case (Cons b bss)
  then show ?case by (cases i) (simp_all add: add.assoc)
qed

lemma readable_image:
  assumes z: "zstd_ok enc dec" and ok: "blocks_ok bss"
    and small: "length (file_image enc payload bss) < 2 ^ 63"
  shows "readable dec (image_reader enc payload m bss) bss"
proof -
  let ?data = "file_image enc payload bss" and ?a = "header_size + length payload"
  have "read_block dec ?data (of_nat (length ?data))
      (of_nat (?a + length (data_image enc (take i bss)))) (of_nat (length (block_image enc (bss ! i))))
      = Ret (encode_entries [] (bss ! i))" if i: "i < length bss" for i
  proof -
    let ?xs = "file_header @ payload @ data_image enc (take i bss)"
    have p: "length (encode_entries [] (bss ! i)) \<le> max_block_size"
      using ok i by (simp add: blocks_ok_def)
    have "data_image enc bss = data_image enc (take i bss) @ block_image enc (bss ! i)
        @ data_image enc (drop (Suc i) bss)"
      by (metis data_image_simps(2,3) id_take_nth_drop [OF i])
    then obtain zs where d: "?data = ?xs @ section_bytes enc (encode_entries [] (bss ! i)) @ zs"
      by (simp add: file_image_def signed_part_def body_def block_image_def)
    from read_block_section [OF z p d small] show ?thesis by (simp add: block_image_def add.assoc)
  qed
  then show ?thesis by (simp add: readable_def image_reader_def layout_nth del: size_values)
qed

end
