(* ===== verification/Store_Session.thy ===== *)
theory Store_Session
  imports Store_Cursor
begin

text \<open>
  A whole session with the store: what \<open>NewWriter\<close>, the calls of \<open>Add\<close> and \<open>Close\<close> leave
  on the device, and what \<open>Open\<close>, the cursor, \<open>Seek\<close> and \<open>Verify\<close> give back. Then the
  error paths of the writer, and what the reader promises on a file it did not write.
\<close>

section \<open>Writing and reading back\<close>

definition write_fingerprint ::
    "(byte list \<Rightarrow> byte list) \<Rightarrow> (meta \<Rightarrow> byte list option) \<Rightarrow> device \<Rightarrow> meta \<Rightarrow> entry list
       \<Rightarrow> store_error + device" where
  "write_fingerprint enc marshal dev m es =
     (case new_writer marshal dev m of
        Inl e \<Rightarrow> Inl e
      | Inr w \<Rightarrow>
          (case add_all enc w es of
             (w, Some e) \<Rightarrow> Inl e
           | (w, None) \<Rightarrow>
               (case close_writer enc w of
                  (w, Some e) \<Rightarrow> Inl e
                | (w, None) \<Rightarrow> Inr (w_dev w))))"

lemma write_fingerprint_image:
  assumes run: "write_fingerprint enc marshal dev m es = Inr dev'" and dev: "dev_data dev = []"
    and es: "\<forall>e\<in>set es. entry_wf e \<and> entry_fits e"
  shows "\<exists>payload. marshal m = Some payload \<and> stored es \<and> blocks_ok (chunks [] es) \<and>
    dev_data dev' = file_image enc payload (chunks [] es)"
proof -
  obtain w w1 w2 where w: "new_writer marshal dev m = Inr w" "add_all enc w es = (w1, None)"
    "close_writer enc w1 = (w2, None)" "dev' = w_dev w2"
    using run by (auto simp: write_fingerprint_def split: sum.splits prod.splits option.splits)
  obtain payload where p: "marshal m = Some payload" "w_inv enc payload [] w"
    using new_writer_inv [OF w(1) dev] by blast
  have inv: "w_inv enc payload es w1" using add_all_inv [OF p(2) w(2) es] by simp
  then have "stored es" using es by (auto simp: stored_def w_inv_def)
  with close_writer_image [OF inv w(3)] p(1) w(4) show ?thesis by blast
qed

lemma write_fingerprint_room:
  assumes dev: "dev_data dev = []" "dev_room dev = None" and m: "marshal m = Some payload"
    and es: "stored es"
  shows "\<exists>dev'. write_fingerprint enc marshal dev m es = Inr dev'"
proof -
  obtain w where w: "new_writer marshal dev m = Inr w" "dev_room (w_dev w) = None"
    using dev m by (auto simp: new_writer_def w_write_def dev_write_def Let_def)
  have inv: "w_inv enc payload [] w" using new_writer_inv [OF w(1) dev(1), of enc] m by auto
  have "\<exists>w1. add_all enc w es = (w1, None) \<and> dev_room (w_dev w1) = None"
    using add_all_room [OF inv w(2)] es by (simp add: stored_def)
  then obtain w1 where w1: "add_all enc w es = (w1, None)" "dev_room (w_dev w1) = None" by blast
  have "w_inv enc payload es w1" using add_all_inv [OF inv w1(1)] es by (simp add: stored_def)
  then obtain w2 where "close_writer enc w1 = (w2, None)"
    using close_writer_room [OF _ _ w1(2)] w_inv_open by blast
  with w w1 show ?thesis by (simp add: write_fingerprint_def)
qed

text \<open>
  The three limits the reader checks and the writer leaves to its caller: the metadata, the
  uncompressed index and the size of the file itself.
\<close>

definition sizes_ok :: "(byte list \<Rightarrow> byte list) \<Rightarrow> byte list \<Rightarrow> entry list \<Rightarrow> bool" where
  "sizes_ok enc payload es \<longleftrightarrow>
     length payload \<le> max_meta_size \<and>
     length (index_bytes (layout enc (header_size + length payload) (chunks [] es))) \<le> max_block_size \<and>
     length (file_image enc payload (chunks [] es)) < 2 ^ 63"

lemma open_written:
  assumes z: "zstd_ok enc dec" and es: "stored es" and ok: "blocks_ok (chunks [] es)"
    and um: "unmarshal payload = Some (json_fields m)" and sizes: "sizes_ok enc payload es"
  shows "open_reader dec unmarshal (file_image enc payload (chunks [] es))
    = Ret (image_reader enc payload m (chunks [] es))"
proof -
  have "hd b \<in> set es" if "b \<in> set (chunks [] es)" for b
  proof -
    have "hd b \<in> set b" using ok that by (auto simp: blocks_ok_def)
    with that have "hd b \<in> set (concat (chunks [] es))" unfolding set_concat by blast
    then show ?thesis by (simp only: concat_chunks append_Nil)
  qed
  then have "\<forall>b\<in>set (chunks [] es). entry_fits (hd b)" using es by (auto simp: stored_def)
  from open_reader_image [where unmarshal = unmarshal and payload = payload and m = m, OF z um _ ok this] sizes show ?thesis by (simp add: sizes_ok_def)
qed

lemma image_delivers:
  assumes z: "zstd_ok enc dec" and es: "stored es" and ok: "blocks_ok (chunks [] es)"
    and sizes: "sizes_ok enc payload es"
  shows "drain dec (image_reader enc payload m (chunks [] es))
      (reader_cursor (image_reader enc payload m (chunks [] es))) = (es, End)"
    and "\<exists>c. seek dec (image_reader enc payload m (chunks [] es)) path = Ret c \<and>
      drain dec (image_reader enc payload m (chunks [] es)) c
        = (dropWhile (\<lambda>e. key_less (e_path e) path) es, End)"
proof -
  let ?bss = "chunks [] es" and ?r = "image_reader enc payload m (chunks [] es)"
  have r: "readable dec ?r ?bss"
    using readable_image [OF z ok] sizes by (simp add: sizes_ok_def)
  have st: "stored (concat ?bss)" using es by simp
  have "sits ?bss (cursor_start (- 1)) []" using sits_start [of 0 ?bss] by simp
  from drain_sits [OF r ok st this] later_start [of ?bss 0]
  show "drain dec ?r (reader_cursor ?r) = (es, End)" by (simp add: reader_cursor_def)
  from seek_readable [OF r ok st, of path]
  show "\<exists>c. seek dec ?r path = Ret c \<and>
      drain dec ?r c = (dropWhile (\<lambda>e. key_less (e_path e) path) es, End)" by simp
qed

lemma verify_image: "length (file_image enc payload bss) < 2 ^ 63 \<Longrightarrow>
  verify (image_reader enc payload m bss) = None"
  by (simp add: verify_def image_reader_def) (simp add: file_image_def)

lemma image_reader_meta [simp]:
  "r_meta (image_reader enc payload m (chunks [] es))
     = m\<lparr>m_entries := of_nat (length es), m_errors := of_nat (error_count es),
         m_blocks := of_nat (length (chunks [] es))\<rparr>"
  by (simp add: image_reader_def)


text \<open>
  C1. A fingerprint written without a reported error, on any device, opens again: the reader
  has the metadata that was written with the counters of the session, the cursor delivers
  exactly the entries that were added, in order, and then the end of the file, and \<open>Verify\<close>
  accepts the digest. What is assumed of the libraries is that \<open>zstd\<close> and \<open>json\<close> decode
  what they encode; the sizes are the three limits that the reader checks.
\<close>

theorem store_round_trip:
  assumes "zstd_ok enc dec" and "dev_data dev = []"
    and "write_fingerprint enc marshal dev m es = Inr dev'"
    and "\<forall>e\<in>set es. entry_wf e \<and> entry_fits e"
    and "marshal m = Some payload" and "unmarshal payload = Some (json_fields m)"
    and "sizes_ok enc payload es"
  shows "\<exists>r. open_reader dec unmarshal (dev_data dev') = Ret r \<and>
    r_meta r = m\<lparr>m_entries := of_nat (length es), m_errors := of_nat (error_count es),
                 m_blocks := of_nat (length (chunks [] es))\<rparr> \<and>
    drain dec r (reader_cursor r) = (es, End) \<and> verify r = None"
proof -
  have st: "stored es" and ok: "blocks_ok (chunks [] es)"
    and img: "dev_data dev' = file_image enc payload (chunks [] es)"
    using write_fingerprint_image [OF assms(3,2,4)] assms(5) by auto
  have small: "length (file_image enc payload (chunks [] es)) < 2 ^ 63"
    using assms(7) by (simp add: sizes_ok_def)
  show ?thesis
    using open_written [where unmarshal = unmarshal and payload = payload and m = m, OF assms(1) st ok assms(6,7)] image_delivers(1) [OF assms(1) st ok assms(7), of m]
      verify_image [OF small, of m] img by simp
qed

text \<open>
  C11. \<open>Seek\<close> on such a file leaves the cursor before the first entry whose path is not below
  the given one in canonical order, whatever the path: what the cursor then delivers is the
  tail of the entries from there on. The binary search over the index never skips an entry.
\<close>

theorem seek_first_not_below:
  assumes "zstd_ok enc dec" and "dev_data dev = []"
    and "write_fingerprint enc marshal dev m es = Inr dev'"
    and "\<forall>e\<in>set es. entry_wf e \<and> entry_fits e"
    and "marshal m = Some payload" and "unmarshal payload = Some (json_fields m)"
    and "sizes_ok enc payload es"
  shows "\<exists>r c. open_reader dec unmarshal (dev_data dev') = Ret r \<and> seek dec r path = Ret c \<and>
    drain dec r c = (dropWhile (\<lambda>e. key_less (e_path e) path) es, End)"
proof -
  have st: "stored es" and ok: "blocks_ok (chunks [] es)"
    and img: "dev_data dev' = file_image enc payload (chunks [] es)"
    using write_fingerprint_image [OF assms(3,2,4)] assms(5) by auto
  show ?thesis
    using open_written [where unmarshal = unmarshal and payload = payload and m = m, OF assms(1) st ok assms(6,7)]
      image_delivers(2) [OF assms(1) st ok assms(7), of m path] img by auto
qed

text \<open>
  C18. On a device with room the writer accepts every increasing stream of well-formed entries
  and closes without an error, so the round trip is not vacuous.
\<close>

theorem write_succeeds:
  assumes "dev_data dev = []" and "dev_room dev = None" and "marshal m = Some payload"
    and "stored es"
  shows "\<exists>dev'. write_fingerprint enc marshal dev m es = Inr dev' \<and>
    dev_data dev' = file_image enc payload (chunks [] es)"
proof -
  obtain dev' where run: "write_fingerprint enc marshal dev m es = Inr dev'"
    using write_fingerprint_room [where marshal = marshal and payload = payload and m = m, OF assms] by blast
  have "\<forall>e\<in>set es. entry_wf e \<and> entry_fits e" using assms(4) by (auto simp: stored_def)
  from write_fingerprint_image [OF run assms(1) this] run assms(3) show ?thesis by auto
qed

section \<open>A concrete session\<close>

definition sample_entry :: entry where
  "sample_entry = zero_entry\<lparr>e_path := ''/etc'', e_type := type_dir, e_mode := 0x1ED,
     e_dev := 1, e_ino := 2, e_nlink := 3\<rparr>"

definition sample_meta :: meta where
  "sample_meta = \<lparr>m_tool = ''osfp'', m_tool_version = ''1'', m_created_at = 0, m_key = ''k'',
     m_system = \<lparr>oi_os = ''linux'', oi_distro = [], oi_version = [], oi_arch = [], oi_kernel = [],
       oi_pretty = [], oi_hostname = [], oi_source = []\<rparr>,
     m_privileged = False, m_euid = 0,
     m_scan = \<lparr>so_root = ''/'', so_mounts = ''same'', so_max_depth = 0, so_max_file_size = 0,
       so_jobs = 1, so_track_hardlinks = True\<rparr>,
     m_exclusions = [], m_entries = 0, m_errors = 0, m_blocks = 0\<rparr>"

definition empty_device :: device where
  "empty_device = \<lparr>dev_data = [], dev_room = None\<rparr>"

lemma zstd_ok_stored: "zstd_ok (\<lambda>p. p) Some"
  by (simp add: zstd_ok_def)

lemma sample_stored: "stored [sample_entry]"
  by (simp add: stored_def sample_entry_def entry_wf_def entry_fits_def)

lemma sample_chunks: "chunks [] [sample_entry] = [[sample_entry]]"
  by simp

lemma sample_sizes: "sizes_ok (\<lambda>p. p) [] [sample_entry]"
proof -
  have wf: "entry_wf sample_entry" "entry_fits sample_entry"
    by (simp_all add: sample_entry_def entry_wf_def entry_fits_def)
  have len: "length (append_entry [] sample_entry []) \<le> 200000"
    using length_append_entry [OF wf, of "[]" "[]"] by simp
  have idx: "length (index_bytes (layout (\<lambda>p. p) 32 [[sample_entry]])) \<le> 100"
    using length_put_uvarint [of 1] length_put_uvarint [of 32] length_put_uvarint [of 4]
      length_put_uvarint [of "of_nat (length (block_image (\<lambda>p. p) [sample_entry]))"]
    by (simp add: index_bytes_def put_index_entry_def put_str_def sample_entry_def)
  show ?thesis
    unfolding sizes_ok_def sample_chunks
    using len idx by (simp add: length_signed_part block_image_def length_section_bytes)
qed

lemma sample_written:
  "\<exists>dev'. write_fingerprint (\<lambda>p. p) (\<lambda>m. Some []) empty_device sample_meta [sample_entry] = Inr dev'"
  by (rule write_fingerprint_room [where payload = "[]", OF _ _ _ sample_stored]) (simp_all add: empty_device_def)

theorem store_round_trip_witness:
  "\<exists>dev' r. write_fingerprint (\<lambda>p. p) (\<lambda>m. Some []) empty_device sample_meta [sample_entry] = Inr dev' \<and>
     open_reader Some (\<lambda>p. Some (json_fields sample_meta)) (dev_data dev') = Ret r \<and>
     m_entries (r_meta r) = 1 \<and> drain Some r (reader_cursor r) = ([sample_entry], End) \<and>
     verify r = None"
proof -
  obtain dev' where w: "write_fingerprint (\<lambda>p. p) (\<lambda>m. Some []) empty_device sample_meta [sample_entry]
      = Inr dev'" using sample_written by blast
  from store_round_trip [OF zstd_ok_stored _ w, of "[]" "\<lambda>p. Some (json_fields sample_meta)"]
    sample_stored sample_sizes w
  show ?thesis by (auto simp: empty_device_def stored_def)
qed

theorem seek_first_not_below_witness:
  "\<exists>dev' r c. write_fingerprint (\<lambda>p. p) (\<lambda>m. Some []) empty_device sample_meta [sample_entry] = Inr dev' \<and>
     open_reader Some (\<lambda>p. Some (json_fields sample_meta)) (dev_data dev') = Ret r \<and>
     seek Some r ''/dev'' = Ret c \<and> drain Some r c = ([sample_entry], End)"
proof -
  obtain dev' where w: "write_fingerprint (\<lambda>p. p) (\<lambda>m. Some []) empty_device sample_meta [sample_entry]
      = Inr dev'" using sample_written by blast
  have "\<not> key_less ''/etc'' ''/dev''" by simp
  with seek_first_not_below [OF zstd_ok_stored _ w, of "[]" "\<lambda>p. Some (json_fields sample_meta)" "''/dev''"]
    sample_stored sample_sizes w
  show ?thesis by (auto simp: empty_device_def stored_def) (auto simp: sample_entry_def)
qed

theorem write_succeeds_witness:
  "\<exists>dev'. write_fingerprint (\<lambda>p. p) (\<lambda>m. Some []) empty_device sample_meta [sample_entry] = Inr dev' \<and>
     dev_data dev' = file_image (\<lambda>p. p) [] [[sample_entry]]"
  using write_succeeds [of empty_device "\<lambda>m. Some []" sample_meta "[]" "[sample_entry]" "\<lambda>p. p"]
    sample_stored unfolding sample_chunks by (simp add: empty_device_def)


section \<open>The writer's error paths\<close>




text \<open>A write that fails latches its error, and nothing is written after it.\<close>

lemma w_write_latched:
  "w_write w p = (w', Some x) \<Longrightarrow> w_err w' = Some x"
  by (auto simp: w_write_def Let_def split: option.splits prod.splits)

lemma flush_block_latched: "flush_block enc w = (w', Some x) \<Longrightarrow> w_err w' = Some x"
  by (auto simp: flush_block_def Let_def split: if_splits prod.splits option.splits
      dest: w_write_latched)

text \<open>
  A device error is never lost: when \<open>Add\<close> reports an error for an entry it accepted,
  the error is the one of the device, every later \<open>Add\<close> and \<open>Close\<close> reports it again, and
  the device keeps exactly the bytes it had.
\<close>

theorem write_error_latched:
  assumes "w_inv enc payload es w" and "add enc w e = (w', Some x)" and "e_path e \<noteq> []"
    and "es = [] \<or> key_less (e_path (last es)) (e_path e)"
  shows "add enc w' e' = (w', Some x) \<and>
    (\<exists>w''. close_writer enc w' = (w'', Some x) \<and> w_dev w'' = w_dev w')"
proof -
  note st = w_inv_open [OF assms(1)]
  have "\<not> (w_has_last w \<and> 0 \<le> compare_key (w_last_key w) (e_path e))"
    using w_inv_accepts [OF assms(1), of "e_path e"] assms(4) by blast
  with assms(2,3) st have fl: "flush_block enc (add_pending w e) = (w', Some x)"
    by (auto simp: add_def Let_def split: if_splits)
  have "w_closed w' = w_closed (add_pending w e)"
    using fl by (auto simp: flush_block_def w_write_def Let_def
        split: if_splits prod.splits option.splits)
  with flush_block_latched [OF fl] st show ?thesis by (simp add: add_def close_writer_def)
qed

text \<open>A disk that is full after the header, and an entry that fills a block.\<close>

definition big_entry :: entry where
  "big_entry = zero_entry\<lparr>e_path := ''/x'', e_type := type_error, e_err := replicate 65536 CHR ''e''\<rparr>"

definition full_writer :: writer where
  "full_writer = \<lparr>w_dev = \<lparr>dev_data = file_header, dev_room = Some 0\<rparr>, w_digest = file_header,
     w_off = 32, w_block = [], w_block_first = [], w_block_prev = [], w_block_count = 0,
     w_index = [], w_last_key = [], w_has_last = False, w_entries = 0, w_errors = 0,
     w_meta_offset = 32, w_meta_length = 0, w_data_offset = 32, w_closed = False, w_err = None\<rparr>"

lemma full_writer_new:
  "new_writer (\<lambda>m. Some []) \<lparr>dev_data = [], dev_room = Some 32\<rparr> m = Inr full_writer"
  by (simp add: new_writer_def w_write_def dev_write_def full_writer_def Let_def)

lemma full_writer_inv: "w_inv (\<lambda>p. p) [] [] full_writer"
  using new_writer_inv [OF full_writer_new, of "\<lambda>p. p"] by auto

lemma full_writer_fails: "\<exists>w'. add (\<lambda>p. p) full_writer big_entry = (w', Some ErrWrite)"
proof -
  have "65536 \<le> length (w_block (add_pending full_writer big_entry))"
    by (simp add: add_pending_def full_writer_def append_entry_eq attr_bytes_def big_entry_def put_str_def)
  moreover have "\<exists>w'. flush_block (\<lambda>p. p) (add_pending full_writer big_entry) = (w', Some ErrWrite)"
    by (simp add: flush_block_def add_pending_def full_writer_def w_write_def dev_write_def Let_def)
  ultimately show ?thesis
    by (simp add: add_def Let_def full_writer_def) (simp add: big_entry_def)
qed

theorem write_error_latched_witness:
  "\<exists>w'. add (\<lambda>p. p) full_writer big_entry = (w', Some ErrWrite) \<and>
     add (\<lambda>p. p) w' sample_entry = (w', Some ErrWrite)"
proof -
  obtain w' where "add (\<lambda>p. p) full_writer big_entry = (w', Some ErrWrite)"
    using full_writer_fails by blast
  with write_error_latched [OF full_writer_inv this, of sample_entry] show ?thesis
    by (auto simp: big_entry_def)
qed

end
