(* ===== verification/Store_Hostile.thy ===== *)
theory Store_Hostile
  imports Store_Session
begin

text \<open>
  Files the program did not write. The block decoder is safe on every byte string. The
  reader is safe as long as the 64-bit sums of its bounds checks do not overflow; where one
  does, a check passes that should not and \<open>make\<close> panics. Both halves are proved: the panic
  needs an overflow, and a file of 146 bytes causes one.
\<close>

section \<open>One block\<close>

text \<open>Everything a decoder yields from its buffer, and how it stops.\<close>

function block_drain :: "bdec \<Rightarrow> entry list \<times> entry pull" where
  "block_drain d =
     (case bd_next d of
        (Got e, d') \<Rightarrow> (case block_drain d' of (es, p) \<Rightarrow> (e # es, p))
      | (p, d') \<Rightarrow> ([], p))"
  by pat_completeness auto
termination
  by (relation "measure (\<lambda>d. length (br_buf (bd_br d)) - br_pos (bd_br d))")
    (auto dest!: bd_next_got [OF sym])

declare block_drain.simps [simp del]

lemma block_drain_safe:
  "br_inv (bd_br d) \<Longrightarrow> block_drain d = (es, p) \<Longrightarrow>
   p \<noteq> Crash \<and> increasing_keys (map e_path es) \<and>
   (\<forall>e\<in>set es. entry_wf e \<and> e_path e \<noteq> [] \<and> (bd_prev d = [] \<or> key_less (bd_prev d) (e_path e))) \<and>
   length es + br_pos (bd_br d) \<le> length (br_buf (bd_br d))"
proof (induction d arbitrary: es p rule: block_drain.induct)
  case (1 d)
  obtain q d' where nx: "bd_next d = (q, d')" by (cases "bd_next d")
  note safe = bd_next_safe [OF "1.prems"(1) nx]
  show ?case
  proof (cases q)
    case (Got e)
    obtain es' where es: "es = e # es'" and rest: "block_drain d' = (es', p)"
      using "1.prems"(2) nx Got by (auto simp: block_drain.simps [of d] split: prod.splits)
    have inv': "br_inv (bd_br d')" using safe(1) by simp
    from "1.IH" [OF nx [symmetric] Got inv' rest] safe(2) [OF Got] safe(1) es show ?thesis
      by (auto intro: canon.cmp_trans)
  next
    case End
    with "1.prems" nx show ?thesis by (auto simp: block_drain.simps [of d] br_inv_def)
  next
    case (Broken x)
    with "1.prems" nx show ?thesis by (auto simp: block_drain.simps [of d] br_inv_def)
  next
    case Crash
    with safe(1) show ?thesis by simp
  qed
qed

text \<open>
  C8. The block decoder on any byte string at all: it never panics, it stops, the entries it
  yields are well formed and in strictly increasing canonical order, and there are no more of
  them than bytes in the block, so a small block cannot make the program allocate without
  bound.
\<close>

theorem decoder_safe_on_any_bytes:
  "case block_drain (bd_reset buf d) of (es, p) \<Rightarrow>
     p \<noteq> Crash \<and> increasing_keys (map e_path es) \<and> length es \<le> length buf \<and>
     list_all (\<lambda>e. entry_wf e \<and> e_path e \<noteq> []) es"
proof -
  obtain es p where run: "block_drain (bd_reset buf d) = (es, p)" by (metis prod.exhaust)
  have "br_inv (bd_br (bd_reset buf d))" by (simp add: bd_reset_def br_init_def br_inv_def)
  from block_drain_safe [OF this run] run show ?thesis
    by (auto simp: list_all_iff bd_reset_def br_init_def)
qed

section \<open>The cursor\<close>

lemma read_block_no_panic: "make_ok sz \<Longrightarrow> read_block dec data rsize off sz \<noteq> Panic"
  by (auto simp: read_block_def Let_def split: option.splits)









section \<open>Opening\<close>

lemma sint_plus_exact:
  "- (2 ^ 63) \<le> sint a + sint b \<Longrightarrow> sint a + sint b < 2 ^ 63 \<Longrightarrow> sint (a + b) = sint a + sint (b :: i64)"
  by (simp add: sint_word_ariths signed_take_bit_int_eq_self)

lemma run_no_panic: "guarded m \<Longrightarrow> br_inv b \<Longrightarrow> run_state m b = (v, b') \<Longrightarrow> br_inv b'"
  by (drule (2) guardedD) (simp add: br_step_def)

lemma read_index_entries_no_panic:
  "br_inv b \<Longrightarrow> read_index_entries i n lo hi b acc \<noteq> Panic"
proof (induction n arbitrary: i b acc)
  case 0
  then show ?case by simp
next
  case (Suc n)
  obtain k b1 where b1: "run_state (br_str max_string_size) b = (k, b1)" by (metis prod.exhaust)
  obtain off b2 where b2: "run_state br_uvarint b1 = (off, b2)" by (metis prod.exhaust)
  obtain sz b3 where b3: "run_state br_uvarint b2 = (sz, b3)" by (metis prod.exhaust)
  have inv: "br_inv b3"
    by (rule run_no_panic [OF guarded_uvarint run_no_panic [OF guarded_uvarint
          run_no_panic [OF guarded_str Suc.prems b1] b2] b3])
  then have "\<not> br_panic b3" by (simp add: br_inv_def)
  with Suc.IH [OF inv] show ?case by (simp add: b1 b2 b3 del: size_values)
qed

lemma read_index_no_panic:
  assumes "make_ok len"
  shows "read_index dec data rsize off len lo hi \<noteq> Panic"
proof (cases "len = 0")
  case True
  then show ?thesis by (simp add: read_index_def)
next
  case False
  show ?thesis
  proof (cases "read_block dec data rsize off len")
    case (Ret raw)
    obtain n b where b: "run_state br_uvarint (br_init raw) = (n, b)" by (metis prod.exhaust)
    have inv: "br_inv b"
      by (rule run_no_panic [OF guarded_uvarint _ b]) (simp add: br_inv_def br_init_def)
    then have "\<not> br_panic b" by (simp add: br_inv_def)
    with False Ret read_index_entries_no_panic [OF inv] show ?thesis
      by (simp add: read_index_def b)
  next
    case (Fail x)
    with False show ?thesis by (simp add: read_index_def)
  next
    case Panic
    with read_block_no_panic [OF assms] show ?thesis by simp
  qed
qed

lemma section_ok_make:
  assumes "section_ok limit (a, b)" and "sint limit \<le> max_alloc" and "sint a + sint b < 2 ^ 63"
  shows "make_ok b"
proof -
  have r: "32 \<le> sint a" "0 \<le> sint b" "sint (a + b) \<le> sint limit"
    using assms(1) by (auto simp: section_ok_def word_sless_alt not_less)
  then have "sint (a + b) = sint a + sint b" using assms(3) by (intro sint_plus_exact) auto
  with r assms(2) show ?thesis by (simp add: make_ok_def)
qed

lemma end_offset: "n \<le> k \<Longrightarrow> k < 2 ^ 63 \<Longrightarrow> sint (of_nat k - of_nat n :: i64) = int (k - n)"
  by (metis diff_le_self le_less_trans of_nat_diff sint_of_nat)

lemma read_at_end:
  assumes "length data < 2 ^ 63" and "n \<le> length data"
    and "read_at data (of_nat (length data) - of_nat n) n = Some xs"
  shows "xs = drop (length data - n) data"
  using assms(3) unfolding read_at_def end_offset [OF assms(2,1)]
  using assms(2) by (auto split: if_splits simp: of_nat_diff [symmetric] simp del: of_nat_diff)

text \<open>
  C16. Opening a file of any content never panics, as long as the sum of the offset and the
  length that its footer declares for the index does not overflow an \<open>int64\<close>: every other
  way to fail is an error value.
\<close>

theorem open_never_panics:
  assumes "length data \<le> 2 ^ 48"
    and "sint (footer_field (drop (length data - footer_size) data) 4)
       + sint (footer_field (drop (length data - footer_size) data) 5) < 2 ^ 63"
  shows "open_reader dec unmarshal data \<noteq> Panic"
proof
  let ?sz = "of_nat (length data) :: i64" and ?lim = "(of_nat (length data) - of_nat footer_size) :: i64"
  assume "open_reader dec unmarshal data = Panic"
  then obtain footer where long: "\<not> ?sz <s of_nat (header_size + footer_size)"
    and foot: "read_at data ?lim footer_size = Some footer"
    and sec: "find (\<lambda>s. \<not> section_ok ?lim s)
      [(footer_field footer 0, footer_field footer 1), (footer_field footer 2, footer_field footer 3),
       (footer_field footer 4, footer_field footer 5)] = None"
    and idx: "read_index dec data ?sz (footer_field footer 4) (footer_field footer 5)
      (footer_field footer 2) (footer_field footer 2 + footer_field footer 3) = Panic"
    unfolding open_reader_def new_reader_def Let_def
    by (auto split: if_splits option.splits outcome.splits simp del: size_values)
  have len: "144 \<le> length data"
  proof (rule ccontr)
    assume "\<not> 144 \<le> length data"
    then have "(of_nat (length data) :: i64) <s of_nat (header_size + footer_size)"
      by (subst sless_of_nat) auto
    with long show False by simp
  qed
  have footer: "footer = drop (length data - footer_size) data"
    using read_at_end [of data footer_size footer] foot len assms(1) by simp
  have "sint ?lim = int (length data - footer_size)"
    using len assms(1) by (intro end_offset) simp_all
  then have lim: "sint ?lim \<le> max_alloc" using assms(1) unfolding max_alloc_def by simp
  have "section_ok ?lim (footer_field footer 4, footer_field footer 5)"
    using sec by (auto split: if_splits)
  from section_ok_make [OF this lim] assms(2) footer
  have "make_ok (footer_field footer 5)" by simp
  from read_index_no_panic [OF this] idx show False by blast
qed


text \<open>
  A file of 146 bytes: the header, an empty JSON object, and a footer whose index has the
  largest length an \<open>int64\<close> holds.
\<close>

definition crafted_footer :: "byte list" where
  "crafted_footer = footer_fields [32, 2, 34, 0, 34, 0x7FFFFFFFFFFFFFFF, 0, 0, 0]
     @ replicate 32 0 @ footer_magic"

definition crafted_file :: "byte list" where
  "crafted_file = file_header @ bytes_of ''{}'' @ crafted_footer"

lemma length_crafted: "length crafted_footer = 112" "length crafted_file = 146"
  by (simp_all add: crafted_footer_def crafted_file_def)

lemma crafted_fields:
  "footer_field crafted_footer 0 = 32" "footer_field crafted_footer 1 = 2"
  "footer_field crafted_footer 2 = 34" "footer_field crafted_footer 3 = 0"
  "footer_field crafted_footer 4 = 34" "footer_field crafted_footer 5 = 0x7FFFFFFFFFFFFFFF"
  "footer_field crafted_footer 6 = 0" "footer_field crafted_footer 7 = 0"
  "footer_field crafted_footer 8 = 0"
  unfolding crafted_footer_def by (simp_all add: footer_field_nth)

text \<open>
  C17. The bounds check of \<open>NewReader\<close> can be passed with a length of \<open>2 ^ 63 - 1\<close>: the sum
  of offset and length wraps to a negative number. Opening the file then allocates that
  many bytes, and panics instead of returning \<open>ErrCorrupt\<close>.
\<close>

theorem open_panics_on_overflow:
  assumes "unmarshal (bytes_of ''{}'') = Some m"
  shows "open_reader dec unmarshal crafted_file = Panic"
proof -
  have head: "read_at crafted_file 0 header_size = Some file_header"
    using read_at_mid [of "[]" file_header "bytes_of ''{}'' @ crafted_footer"]
    by (simp add: crafted_file_def length_crafted)
  have foot: "read_at crafted_file (146 - of_nat footer_size) footer_size = Some crafted_footer"
    using read_at_mid [of "file_header @ bytes_of ''{}''" crafted_footer "[]"]
    by (simp add: crafted_file_def length_crafted)
  have payload: "read_at crafted_file 32 (nat (sint (2 :: i64))) = Some (bytes_of ''{}'')"
  proof -
    have two: "length (bytes_of ''{}'') = 2" and n: "nat (sint (2 :: i64)) = 2" by simp_all
    have len: "length file_header + length (bytes_of ''{}'') + length crafted_footer < 2 ^ 63"
      by (simp add: length_crafted)
    from read_at_mid [OF len] show ?thesis unfolding two n by (simp add: crafted_file_def)
  qed
  have magic: "drop (footer_size - length footer_magic) crafted_footer = footer_magic"
    by (simp add: crafted_footer_def)
  have size: "(of_nat (length crafted_file) :: i64) = 146" by (simp add: length_crafted)
  have long: "\<not> (146 :: i64) <s of_nat (header_size + footer_size)" by simp
  have sections: "find (\<lambda>s. \<not> section_ok (146 - of_nat footer_size) s)
      [(32, 2), (34, 0), (34, 0x7FFFFFFFFFFFFFFF)] = None"
    by (simp add: section_ok_def word_sless_alt)
  have neg: "\<not> (0 :: i64) <s 0" "\<not> of_nat max_meta_size <s (2 :: i64)" by simp_all
  have idx: "read_index dec crafted_file 146 34 0x7FFFFFFFFFFFFFFF 34 (34 + 0) = Panic"
    by (simp add: read_index_def read_block_def make_ok_def max_alloc_def)
  show ?thesis
    unfolding open_reader_def new_reader_def size
    by (simp only: long if_False head option.case file_header_bytes not_True_eq_False simp_thms
        foot magic Let_def crafted_fields sections neg payload assms idx outcome.case)
qed

theorem open_panics_on_overflow_witness:
  "open_reader Some (\<lambda>p. Some sample_meta) crafted_file = Panic"
  by (rule open_panics_on_overflow) simp

theorem open_never_panics_witness:
  "open_reader Some (\<lambda>p. None) (replicate 200 0) \<noteq> Panic"
proof (rule open_never_panics)
  show "length (replicate 200 (0 :: byte)) \<le> 2 ^ 48" by simp
  have w: "(le_word (replicate 8 (0 :: byte)) :: i64) = 0"
    by (simp add: numeral_eq_Suc)
  have f: "footer_field (replicate 112 (0 :: byte)) 4 = 0" "footer_field (replicate 112 (0 :: byte)) 5 = 0"
    using w by (simp_all add: footer_field_def)
  have d: "drop (length (replicate 200 (0 :: byte)) - footer_size) (replicate 200 0) = replicate 112 (0 :: byte)"
    by simp
  show "sint (footer_field (drop (length (replicate 200 (0 :: byte)) - footer_size) (replicate 200 0)) 4)
     + sint (footer_field (drop (length (replicate 200 (0 :: byte)) - footer_size) (replicate 200 0)) 5) < 2 ^ 63"
    unfolding d f by simp
qed

end
