(* ===== verification/Go_Strings.thy ===== *)
theory Go_Strings
  imports Prelude
begin

text \<open>
  What the program uses of the packages \<open>strings\<close>, \<open>strconv\<close> and \<open>unicode/utf8\<close>. A Go
  string is a sequence of bytes, so the functions that look at runes decode UTF-8 here as
  the library does, with the replacement character for an invalid sequence.
\<close>

section \<open>Tests and cuts\<close>

definition has_prefix :: "string \<Rightarrow> string \<Rightarrow> bool" where
  "has_prefix s p \<longleftrightarrow> take (length p) s = p"

definition has_suffix :: "string \<Rightarrow> string \<Rightarrow> bool" where
  "has_suffix s p \<longleftrightarrow> has_prefix (rev s) (rev p)"

definition trim_prefix :: "string \<Rightarrow> string \<Rightarrow> string" where
  "trim_prefix s p = (if has_prefix s p then drop (length p) s else s)"

definition trim_suffix :: "string \<Rightarrow> string \<Rightarrow> string" where
  "trim_suffix s p = (if has_suffix s p then take (length s - length p) s else s)"

lemma has_prefix_append [simp]: "has_prefix (p @ s) p"
  by (simp add: has_prefix_def)

lemma has_prefix_refl [simp]: "has_prefix p p"
  by (simp add: has_prefix_def)

lemma has_prefix_iff: "has_prefix s p \<longleftrightarrow> (\<exists>r. s = p @ r)"
  by (metis append_take_drop_id has_prefix_append has_prefix_def)

definition contains_any :: "string \<Rightarrow> string \<Rightarrow> bool" where
  "contains_any s cs \<longleftrightarrow> list_ex (\<lambda>c. c \<in> set cs) s"

text \<open>\<open>strings.Cut\<close> and \<open>strings.Split\<close> at a separator of one byte.\<close>

fun cut :: "char \<Rightarrow> string \<Rightarrow> (string \<times> string) option" where
  "cut sep [] = None"
| "cut sep (c # s) =
     (if c = sep then Some ([], s)
      else case cut sep s of None \<Rightarrow> None | Some (a, b) \<Rightarrow> Some (c # a, b))"

fun split_at :: "char \<Rightarrow> string \<Rightarrow> string list" where
  "split_at sep [] = [[]]"
| "split_at sep (c # s) =
     (if c = sep then [] # split_at sep s
      else case split_at sep s of [] \<Rightarrow> [[c]] | f # fs \<Rightarrow> (c # f) # fs)"

fun join :: "string \<Rightarrow> string list \<Rightarrow> string" where
  "join sep [] = []"
| "join sep [x] = x"
| "join sep (x # y # ys) = x @ sep @ join sep (y # ys)"

text \<open>\<open>strings.ReplaceAll(s, "\r\n", "\n")\<close>.\<close>

fun unix_newlines :: "string \<Rightarrow> string" where
  "unix_newlines (a # b # s) =
     (if a = CHR 13 \<and> b = CHR 10 then CHR 10 # unix_newlines s else a # unix_newlines (b # s))"
| "unix_newlines s = s"

lemma split_at_nonempty [simp]: "split_at sep s \<noteq> []"
  by (induction s) (auto split: list.split)

lemma join_Cons_Cons [simp]: "join [sep] ((c # f) # fs) = c # join [sep] (f # fs)"
  by (cases fs) auto

lemma join_split: "join [sep] (split_at sep s) = s"
proof (induction s)
  case Nil
  then show ?case by simp
next
  case (Cons c s)
  obtain f fs where "split_at sep s = f # fs" by (meson neq_Nil_conv split_at_nonempty)
  with Cons show ?case by (cases fs) auto
qed

lemma split_at_no_sep: "f \<in> set (split_at sep s) \<Longrightarrow> sep \<notin> set f"
  by (induction s arbitrary: f) (auto split: list.splits if_splits)

lemma cut_Some: "cut sep s = Some (a, b) \<Longrightarrow> s = a @ sep # b \<and> sep \<notin> set a"
proof (induction s arbitrary: a)
  case Nil
  then show ?case by simp
next
  case (Cons c s)
  show ?case
  proof (cases "c = sep")
    case True
    with Cons.prems show ?thesis by simp
  next
    case False
    with Cons.prems obtain a' where "cut sep s = Some (a', b)" "a = c # a'"
      by (cases "cut sep s") auto
    with Cons.IH False show ?thesis by simp
  qed
qed

lemma cut_None: "cut sep s = None \<longleftrightarrow> sep \<notin> set s"
  by (induction s) (auto split: option.splits)

section \<open>White space\<close>

text \<open>The UTF-8 encodings of the code points for which \<open>unicode.IsSpace\<close> holds.\<close>

definition spaces :: "string list" where
  "spaces =
     map (map (char_of :: nat \<Rightarrow> char))
       ([[9], [10], [11], [12], [13], [32], [0xC2, 0x85], [0xC2, 0xA0], [0xE1, 0x9A, 0x80]]
        @ map (\<lambda>i. [0xE2, 0x80, 0x80 + i]) [0 ..< 11]
        @ [[0xE2, 0x80, 0xA8], [0xE2, 0x80, 0xA9], [0xE2, 0x80, 0xAF], [0xE2, 0x81, 0x9F],
           [0xE3, 0x80, 0x80]])"

function trim_left_of :: "string list \<Rightarrow> string \<Rightarrow> string" where
  "trim_left_of seqs s =
     (case find (\<lambda>q. q \<noteq> [] \<and> has_prefix s q) seqs of
        None \<Rightarrow> s
      | Some q \<Rightarrow> trim_left_of seqs (drop (length q) s))"
  by pat_completeness auto
termination
proof (relation "measure (\<lambda>(seqs, s). length s)")
  fix seqs :: "string list" and s q :: string
  assume "find (\<lambda>q. q \<noteq> [] \<and> has_prefix s q) seqs = Some q"
  then have "q \<noteq> [] \<and> has_prefix s q" by (auto simp: find_Some_iff)
  then obtain r where "s = q @ r" "q \<noteq> []" by (auto simp: has_prefix_iff)
  then show "((seqs, drop (length q) s), seqs, s) \<in> measure (\<lambda>(seqs, s). length s)" by simp
qed simp

declare trim_left_of.simps [simp del]

text \<open>
  \<open>strings.TrimSpace\<close>. UTF-8 is self-synchronising, so the last rune of a string is a space
  exactly when the string ends in the encoding of one.
\<close>

definition trim_space :: "string \<Rightarrow> string" where
  "trim_space s = rev (trim_left_of (map rev spaces) (rev (trim_left_of spaces s)))"

lemma trim_left_of_done:
  "find (\<lambda>q. q \<noteq> [] \<and> has_prefix (trim_left_of seqs s) q) seqs = None \<and>
   (\<exists>x. s = x @ trim_left_of seqs s)"
proof (induction seqs s rule: trim_left_of.induct)
  case (1 seqs s)
  show ?case
  proof (cases "find (\<lambda>q. q \<noteq> [] \<and> has_prefix s q) seqs")
    case None
    then show ?thesis by (simp add: trim_left_of.simps [of seqs s])
  next
    case (Some q)
    with 1 obtain x where "drop (length q) s = x @ trim_left_of seqs (drop (length q) s)" by blast
    then have "s = (take (length q) s @ x) @ trim_left_of seqs (drop (length q) s)"
      by (metis append.assoc append_take_drop_id)
    then have "\<exists>y. s = y @ trim_left_of seqs (drop (length q) s)" by (rule exI)
    with 1 Some show ?thesis by (simp add: trim_left_of.simps [of seqs s])
  qed
qed

lemma trim_left_of_fix:
  "find (\<lambda>q. q \<noteq> [] \<and> has_prefix s q) seqs = None \<Longrightarrow> trim_left_of seqs s = s"
  by (simp add: trim_left_of.simps [of seqs s])

text \<open>A string between two printable ASCII bytes is already trimmed.\<close>

definition plain :: "char \<Rightarrow> bool" where
  "plain c \<longleftrightarrow> 32 < (of_char c :: nat) \<and> (of_char c :: nat) < 128"

lemma spaces_not_plain: "\<forall>q\<in>set spaces. q \<noteq> [] \<and> \<not> plain (hd q) \<and> \<not> plain (last q)"
  by (auto simp: spaces_def plain_def)

lemma trim_space_plain:
  assumes "plain (hd s)" and "plain (last s)" and "s \<noteq> []"
  shows "trim_space s = s"
proof -
  have "trim_left_of spaces s = s"
  proof (rule trim_left_of_fix, unfold find_None_iff, clarify)
    fix q assume "q \<in> set spaces" "has_prefix s q" "q \<noteq> []"
    then have "hd s = hd q" by (auto simp: has_prefix_iff)
    with \<open>q \<in> set spaces\<close> spaces_not_plain assms(1) show False by auto
  qed
  moreover have "trim_left_of (map rev spaces) (rev s) = rev s"
  proof (rule trim_left_of_fix, unfold find_None_iff, clarify)
    fix q assume "q \<in> set (map rev spaces)" "has_prefix (rev s) q" "q \<noteq> []"
    then obtain q' where q': "q' \<in> set spaces" "q = rev q'" by auto
    obtain r where "rev s = rev q' @ r" using \<open>has_prefix (rev s) q\<close> q' by (auto simp: has_prefix_iff)
    then have "s = rev r @ q'" by (metis rev_append rev_rev_ident)
    with \<open>q \<noteq> []\<close> q' have "last s = last q'" by simp
    with q'(1) spaces_not_plain assms(2) show False by auto
  qed
  ultimately show ?thesis by (simp add: trim_space_def)
qed

lemma trim_space_idem [simp]: "trim_space (trim_space s) = trim_space s"
proof -
  define a where "a = trim_left_of spaces s"
  define b where "b = rev (trim_left_of (map rev spaces) (rev a))"
  have ts: "trim_space s = b" by (simp add: trim_space_def a_def b_def)
  obtain x where "rev a = x @ trim_left_of (map rev spaces) (rev a)"
    using trim_left_of_done by blast
  then have pre: "a = b @ rev x" by (metis b_def rev_append rev_rev_ident)
  have "has_prefix b q \<Longrightarrow> has_prefix a q" for q
    using pre by (auto simp: has_prefix_iff)
  moreover have "find (\<lambda>q. q \<noteq> [] \<and> has_prefix a q) spaces = None"
    using trim_left_of_done by (simp add: a_def)
  ultimately have "find (\<lambda>q. q \<noteq> [] \<and> has_prefix b q) spaces = None"
    by (auto simp: find_None_iff)
  then have l: "trim_left_of spaces b = b" by (rule trim_left_of_fix)
  have "trim_left_of (map rev spaces) (rev b) = rev b"
    by (rule trim_left_of_fix) (use trim_left_of_done in \<open>simp add: b_def\<close>)
  with l show ?thesis by (simp add: trim_space_def [of b] ts)
qed

section \<open>Numbers\<close>

definition digit :: "nat \<Rightarrow> char" where
  "digit d = char_of (48 + d)"

function nat_base :: "nat \<Rightarrow> nat \<Rightarrow> string" where
  "nat_base b n =
     (if n < b \<or> b < 2 then [digit n] else nat_base b (n div b) @ [digit (n mod b)])"
  by pat_completeness auto
termination
  by (relation "measure snd") auto

declare nat_base.simps [simp del]

abbreviation decimal :: "nat \<Rightarrow> string" where
  "decimal \<equiv> nat_base 10"

definition int_dec :: "int \<Rightarrow> string" where
  "int_dec n = (if n < 0 then CHR ''-'' # decimal (nat (- n)) else decimal (nat n))"

fun base_value :: "nat \<Rightarrow> nat \<Rightarrow> string \<Rightarrow> nat" where
  "base_value b acc [] = acc"
| "base_value b acc (c # s) = base_value b (b * acc + (of_char c - 48)) s"

lemma base_value_append: "base_value b acc (s @ t) = base_value b (base_value b acc s) t"
  by (induction s arbitrary: acc) auto

lemma of_char_digit: "d < 10 \<Longrightarrow> of_char (digit d) = (48 + d :: nat)"
  by (simp add: digit_def)

text \<open>The digits denote the number.\<close>

lemma base_value_nat_base: "2 \<le> b \<Longrightarrow> b \<le> 10 \<Longrightarrow> base_value b 0 (nat_base b n) = n"
proof (induction b n rule: nat_base.induct)
  case (1 b n)
  show ?case
  proof (cases "n < b")
    case True
    with "1.prems" show ?thesis by (simp add: nat_base.simps [of b n] of_char_digit)
  next
    case False
    have "n mod b < 10" using "1.prems" mod_less_divisor [of b n] by linarith
    moreover have "base_value b 0 (nat_base b (n div b)) = n div b"
      using 1 False by simp
    ultimately show ?thesis
      using False "1.prems" by (simp add: nat_base.simps [of b n] base_value_append of_char_digit)
  qed
qed

lemma nat_base_inj: "2 \<le> b \<Longrightarrow> b \<le> 10 \<Longrightarrow> nat_base b m = nat_base b n \<Longrightarrow> m = n"
  by (metis base_value_nat_base)

lemma nat_base_digits: "c \<in> set (nat_base b n) \<Longrightarrow> 2 \<le> b \<Longrightarrow> b \<le> 10 \<Longrightarrow> \<exists>d < b. c = digit d"
proof (induction b n rule: nat_base.induct)
  case (1 b n)
  show ?case
  proof (cases "n < b")
    case True
    with 1 show ?thesis by (auto simp: nat_base.simps [of b n])
  next
    case False
    have "n mod b < b" using "1.prems" by simp
    with False 1 show ?thesis by (auto simp: nat_base.simps [of b n] intro: exI [of _ "n mod b"])
  qed
qed

lemma nat_base_char: "c \<in> set (nat_base b n) \<Longrightarrow> 2 \<le> b \<Longrightarrow> b \<le> 10 \<Longrightarrow> of_char c \<in> {48 ..< 58 :: nat}"
proof -
  assume "c \<in> set (nat_base b n)" "2 \<le> b" "b \<le> 10"
  then obtain d where "d < b" "c = digit d" using nat_base_digits by metis
  with \<open>b \<le> 10\<close> show ?thesis by (simp add: of_char_digit)
qed

lemma nat_base_nonempty [simp]: "nat_base b n \<noteq> []"
  by (subst nat_base.simps) simp

end
