(* ===== verification/Go_Time.thy ===== *)
theory Go_Time
  imports Go_Strings
begin

text \<open>
  What the program uses of the package \<open>time\<close>: \<open>Duration.Round\<close> and \<open>Duration.String\<close>, and
  the layout \<open>2006-01-02T15:04:05Z\<close> of a time in UTC. A duration is a number of nanoseconds
  and an instant a number of seconds since the Unix epoch; both are integers here, with the
  bounds of an \<open>int64\<close> where the library tests them.
\<close>

section \<open>Durations\<close>

definition microsecond :: int where "microsecond = 1000"
definition millisecond :: int where "millisecond = 1000000"
definition second :: int where "second = 1000000000"

text \<open>To the nearest multiple, halves away from zero, saturating.\<close>

definition round_duration :: "int \<Rightarrow> int \<Rightarrow> int" where
  "round_duration d m =
     (if m \<le> 0 then d
      else let r = \<bar>d\<bar> mod m in
        if d < 0 then
          (if 2 * r < m then d + r else if d - m + r < - (2 ^ 63) then - (2 ^ 63) else d - m + r)
        else
          (if 2 * r < m then d - r else if 2 ^ 63 \<le> d + m - r then 2 ^ 63 - 1 else d + m - r))"

text \<open>
  \<open>fmtFrac\<close>: the last \<open>prec\<close> digits of a number behind a point, without trailing zeros and
  without the point when they are all zero; the rest of the number is returned.
\<close>

fun frac_digits :: "nat \<Rightarrow> bool \<Rightarrow> nat \<Rightarrow> string \<times> nat \<times> bool" where
  "frac_digits 0 started v = ([], v, started)"
| "frac_digits (Suc prec) started v =
     (let started = (started \<or> v mod 10 \<noteq> 0);
          (ds, rest, any) = frac_digits prec started (v div 10)
      in (ds @ (if started then [digit (v mod 10)] else []), rest, any))"

definition frac_string :: "nat \<Rightarrow> nat \<Rightarrow> string \<times> nat" where
  "frac_string prec v =
     (case frac_digits prec False v of (ds, rest, any) \<Rightarrow> ((if any then CHR ''.'' # ds else []), rest))"

definition micro_sign :: string where
  "micro_sign = map (char_of :: nat \<Rightarrow> char) [0xC2, 0xB5]"

definition duration_string :: "int \<Rightarrow> string" where
  "duration_string d =
     (let u = nat \<bar>d\<bar>;
          sign = (if d < 0 then ''-'' else [])
      in if u < 1000000000 then
           if u = 0 then ''0s''
           else
             let (prec, unit_name) =
                   (if u < 1000 then (0, ''n'') else if u < 1000000 then (3, micro_sign) else (6, ''m''));
                 (f, n) = frac_string prec u
             in sign @ decimal n @ f @ unit_name @ ''s''
         else
           let (f, n) = frac_string 9 u;
               secs = decimal (n mod 60) @ f @ ''s'';
               mins = n div 60;
               hours = mins div 60
           in sign @ (if 0 < hours then decimal hours @ ''h'' else [])
                @ (if 0 < mins then decimal (mins mod 60) @ ''m'' else []) @ secs)"

section \<open>Dates\<close>

text \<open>The proleptic Gregorian calendar: year, month and day of a number of days since 1970.\<close>

definition civil :: "int \<Rightarrow> int \<times> int \<times> int" where
  "civil days =
     (let z = days + 719468;
          era = z div 146097;
          doe = z mod 146097;
          yoe = (doe - doe div 1460 + doe div 36524 - doe div 146096) div 365;
          doy = doe - (365 * yoe + yoe div 4 - yoe div 100);
          mp = (5 * doy + 2) div 153;
          m = (if mp < 10 then mp + 3 else mp - 9)
      in (yoe + era * 400 + (if m \<le> 2 then 1 else 0), m, doy - (153 * mp + 2) div 5 + 1))"

definition pad_left :: "nat \<Rightarrow> string \<Rightarrow> string" where
  "pad_left w s = replicate (w - length s) CHR ''0'' @ s"

definition year_string :: "int \<Rightarrow> string" where
  "year_string y = (if y < 0 then ''-'' else []) @ pad_left 4 (decimal (nat \<bar>y\<bar>))"

definition two_digits :: "int \<Rightarrow> string" where
  "two_digits n = pad_left 2 (decimal (nat n))"

definition utc_string :: "int \<Rightarrow> string" where
  "utc_string secs =
     (let (y, m, d) = civil (secs div 86400); s = secs mod 86400
      in year_string y @ ''-'' @ two_digits m @ ''-'' @ two_digits d @ ''T'' @
         two_digits (s div 3600) @ '':'' @ two_digits (s div 60 mod 60) @ '':'' @
         two_digits (s mod 60) @ ''Z'')"

lemma length_pad_left: "length s \<le> w \<Longrightarrow> length (pad_left w s) = w"
  by (simp add: pad_left_def)

end
