(* ===== verification/Humanize.thy ===== *)
theory Humanize
  imports Go_Time "HOL-Library.Word"
begin

text \<open>
  \<open>internal/humanize/humanize.go\<close>: the numbers of the report. \<open>Bytes\<close> divides in \<open>float64\<close>
  and prints one decimal; the division is by a power of two, so the only rounding before the
  one of \<open>%.1f\<close> is the conversion of a count above \<open>2 ^ 53\<close>, which \<open>to_float64\<close> writes out.
\<close>

section \<open>Count\<close>

text \<open>One pass over the digits, with a comma before every group of three.\<close>

fun group_digits :: "bool \<Rightarrow> string \<Rightarrow> string" where
  "group_digits start [] = []"
| "group_digits start (c # cs) =
     (if \<not> start \<and> length (c # cs) mod 3 = 0 then [CHR '','', c] else [c])
       @ group_digits False cs"

definition count_string :: "i64 \<Rightarrow> string" where
  "count_string n =
     (let s = int_dec (sint n);
          neg = has_prefix s ''-'';
          s = trim_prefix s ''-'';
          b = group_digits True s
      in if neg then CHR ''-'' # b else b)"

section \<open>Bytes\<close>

text \<open>\<open>n\<close> over \<open>2 ^ k\<close>, to the nearest integer, ties to even.\<close>

definition round_even :: "nat \<Rightarrow> nat \<Rightarrow> nat" where
  "round_even n d =
     (let q = n div d; r = n mod d
      in if 2 * r < d \<or> (2 * r = d \<and> even q) then q else q + 1)"

text \<open>\<open>float64(n)\<close> of a non-negative \<open>int64\<close>: 53 significant bits.\<close>

function float_shift :: "nat \<Rightarrow> nat" where
  "float_shift n = (if n < 2 ^ 53 then 0 else Suc (float_shift (n div 2)))"
  by pat_completeness auto
termination by (relation "measure id") auto

declare float_shift.simps [simp del]

definition to_float64 :: "nat \<Rightarrow> nat" where
  "to_float64 n = round_even n (2 ^ float_shift n) * 2 ^ float_shift n"

text \<open>The loop that finds the unit: the divisor and the index of its letter.\<close>

fun unit_loop :: "nat \<Rightarrow> nat \<Rightarrow> nat \<Rightarrow> nat \<Rightarrow> nat \<times> nat" where
  "unit_loop 0 v d x = (d, x)"
| "unit_loop (Suc fuel) v d x =
     (if 1024 \<le> v \<and> x < 4 then unit_loop fuel (v div 1024) (d * 1024) (Suc x) else (d, x))"

definition byte_unit :: "nat \<Rightarrow> nat \<times> nat" where
  "byte_unit n = unit_loop 5 (n div 1024) 1024 0"

text \<open>\<open>%.1f\<close> of a number of tenths.\<close>

definition tenths_string :: "nat \<Rightarrow> string" where
  "tenths_string t = decimal (t div 10) @ ''.'' @ decimal (t mod 10)"

definition bytes_string :: "i64 \<Rightarrow> string" where
  "bytes_string n =
     (if sint n < 1024 then int_dec (sint n) @ '' B''
      else
        let m = nat (sint n); (d, x) = byte_unit m
        in tenths_string (round_even (10 * to_float64 m) d) @ '' '' @ [''KMGTP'' ! x] @ ''iB'')"

section \<open>Duration, Mode and Plural\<close>

definition duration_text :: "int \<Rightarrow> string" where
  "duration_text d =
     duration_string
       (if d < 10 * millisecond then round_duration d microsecond
        else if d < second then round_duration d millisecond
        else round_duration d (100 * millisecond))"

definition mode_string :: "u32 \<Rightarrow> string" where
  "mode_string m = CHR ''0'' # nat_base 8 (unat m)"

definition plural :: "i64 \<Rightarrow> string \<Rightarrow> string \<Rightarrow> string" where
  "plural n one many = (if n = 1 \<or> n = - 1 then one else many)"

section \<open>Properties\<close>

lemma remove_commas: "CHR '','' \<notin> set cs \<Longrightarrow> filter (\<lambda>c. c \<noteq> CHR '','') (group_digits b cs) = cs"
  by (induction b cs rule: group_digits.induct) auto

lemma int_dec_no_comma: "CHR '','' \<notin> set (int_dec n)"
proof -
  have "CHR '','' \<notin> set (decimal k)" for k using nat_base_char [of "CHR '',''" 10 k] by auto
  then show ?thesis by (simp add: int_dec_def)
qed

text \<open>
  \<open>Count\<close> never changes the number it prints: without the commas the text is the plain
  decimal, sign included, so two counts that differ print differently.
\<close>

theorem count_string_faithful:
  "filter (\<lambda>c. c \<noteq> CHR '','') (count_string n) = int_dec (sint n)"
proof (cases "sint n < 0")
  case True
  let ?d = "decimal (nat (- sint n))"
  have "CHR '','' \<notin> set ?d" using int_dec_no_comma [of "sint n"] True by (simp add: int_dec_def)
  with True show ?thesis
    by (simp add: count_string_def int_dec_def has_prefix_def trim_prefix_def remove_commas)
next
  case False
  let ?d = "decimal (nat (sint n))"
  have nc: "CHR '','' \<notin> set ?d" using int_dec_no_comma [of "sint n"] False by (simp add: int_dec_def)
  have "CHR ''-'' \<notin> set ?d" using nat_base_char [of "CHR ''-''" 10 "nat (sint n)"] by auto
  then have "\<not> has_prefix ?d ''-''" by (auto simp: has_prefix_iff)
  with False nc show ?thesis
    by (simp add: count_string_def int_dec_def trim_prefix_def remove_commas)
qed


lemma unit_loop_power:
  "v = n div 1024 ^ Suc x \<Longrightarrow> d = 1024 ^ Suc x \<Longrightarrow> d \<le> n \<Longrightarrow> x \<le> 4 \<Longrightarrow> 4 - x < fuel \<Longrightarrow>
   \<exists>y \<le> 4. unit_loop fuel v d x = (1024 ^ Suc y, y) \<and> 1024 ^ Suc y \<le> n \<and>
     (y = 4 \<or> n < 1024 ^ Suc (Suc y))"
proof (induction fuel arbitrary: v d x)
  case 0
  then show ?case by simp
next
  case (Suc fuel)
  show ?case
  proof (cases "1024 \<le> v \<and> x < 4")
    case True
    have "1024 * d \<le> n"
      using True Suc.prems(1,2) by (metis div_le_mono div_mult2_eq le_trans mult.commute
          mult_le_mono2 nat_mult_le_cancel_disj times_div_less_eq_dividend)
    moreover have "v div 1024 = n div 1024 ^ Suc (Suc x)"
      using Suc.prems(1) by (metis div_mult2_eq power_Suc2)
    moreover have "4 - Suc x < fuel" using True Suc.prems(5) by linarith
    ultimately show ?thesis
      using True Suc.prems Suc.IH [of "v div 1024" "Suc x" "d * 1024"] by (simp add: mult.commute)
  next
    case False
    have "n < 1024 ^ Suc (Suc x)" if "v < 1024"
      using that Suc.prems(1) by (simp add: div_less_iff_less_mult)
    with False Suc.prems show ?thesis by auto
  qed
qed

lemma byte_unit_power:
  "1024 \<le> n \<Longrightarrow> \<exists>x \<le> 4. byte_unit n = (1024 ^ Suc x, x) \<and> 1024 ^ Suc x \<le> n \<and>
     (x = 4 \<or> n < 1024 ^ Suc (Suc x))"
  unfolding byte_unit_def by (rule unit_loop_power) simp_all

lemma round_even_close:
  assumes "0 < d"
  shows "2 * \<bar>int (round_even n d * d) - int n\<bar> \<le> int d"
proof -
  define q r where "q = n div d" and "r = n mod d"
  have n: "n = q * d + r" and r: "r < d" using assms by (simp_all add: q_def r_def)
  show ?thesis
  proof (cases "2 * r < d \<or> (2 * r = d \<and> even q)")
    case True
    then have "round_even n d = q" by (simp add: round_even_def q_def r_def Let_def)
    with True n show ?thesis by auto
  next
    case False
    then have "round_even n d = q + 1" by (auto simp: round_even_def q_def r_def Let_def)
    moreover have "d \<le> 2 * r" using False by simp
    ultimately show ?thesis using n r by (simp add: algebra_simps)
  qed
qed

lemma to_float64_exact: "n < 2 ^ 53 \<Longrightarrow> to_float64 n = n"
  by (simp add: to_float64_def float_shift.simps [of n] round_even_def Let_def)

text \<open>
  C23. \<open>Bytes\<close> picks the largest unit that is not larger than the count (up to PiB), never
  indexes past its five letters, and what it prints is within half of the last printed digit
  of the exact value, for every count that a \<open>float64\<close> holds exactly.
\<close>

theorem bytes_string_close:
  assumes "1024 \<le> sint n" and "sint n < 2 ^ 53"
  shows "\<exists>x t. x \<le> 4 \<and> 1024 ^ Suc x \<le> sint n \<and> (x = 4 \<or> sint n < 1024 ^ Suc (Suc x)) \<and>
    bytes_string n = tenths_string t @ '' '' @ [''KMGTP'' ! x] @ ''iB'' \<and>
    2 * \<bar>int t * 1024 ^ Suc x - 10 * sint n\<bar> \<le> 1024 ^ Suc x"
proof -
  define m where "m = nat (sint n)"
  have m: "sint n = int m" using assms(1) by (simp add: m_def)
  have "1024 \<le> m" using assms(1) m by simp
  then obtain x where x: "x \<le> 4" "byte_unit m = (1024 ^ Suc x, x)" "1024 ^ Suc x \<le> m"
    "x = 4 \<or> m < 1024 ^ Suc (Suc x)" using byte_unit_power by blast
  define d :: nat where "d = 1024 ^ Suc x"
  define t where "t = round_even (10 * m) d"
  have "to_float64 m = m" using assms(2) m by (intro to_float64_exact) simp
  then have s: "bytes_string n = tenths_string t @ '' '' @ [''KMGTP'' ! x] @ ''iB''"
    using assms(1) by (simp add: bytes_string_def Let_def m_def [symmetric] x(2) t_def d_def)
  have "2 * \<bar>int (t * d) - int (10 * m)\<bar> \<le> int d"
    unfolding t_def by (rule round_even_close) (simp add: d_def)
  then have "2 * \<bar>int t * 1024 ^ Suc x - 10 * sint n\<bar> \<le> 1024 ^ Suc x"
    by (simp add: m d_def)
  moreover have "1024 ^ Suc x \<le> sint n" using x(3) m by (metis of_nat_le_iff of_nat_numeral of_nat_power)
  moreover have "x = 4 \<or> sint n < 1024 ^ Suc (Suc x)"
    using x(4) m by (metis of_nat_less_iff of_nat_numeral of_nat_power)
  ultimately show ?thesis using x(1) s by blast
qed

theorem bytes_string_close_witness:
  "\<exists>x t. bytes_string 88301568 = tenths_string t @ '' '' @ [''KMGTP'' ! x] @ ''iB'' \<and>
     2 * \<bar>int t * 1024 ^ Suc x - 883015680\<bar> \<le> 1024 ^ Suc x"
  using bytes_string_close [of 88301568] by auto

end
