(* ===== verification/Go_Path.thy ===== *)
theory Go_Path
  imports Go_Strings
begin

text \<open>
  What the program uses of \<open>path/filepath\<close> on Unix: \<open>Clean\<close>, \<open>Base\<close> and the glob matcher
  \<open>Match\<close>, with the rune decoder of \<open>unicode/utf8\<close> it reads names with. A malformed
  pattern is the result \<open>BadPattern\<close>. The main lemma: whether a pattern is malformed does
  not depend on the name it is matched against, so one trial match validates it.
\<close>

section \<open>Clean and Base\<close>

text \<open>One component onto the stack of components kept so far, the last one first.\<close>

definition clean_step :: "bool \<Rightarrow> string list \<Rightarrow> string \<Rightarrow> string list" where
  "clean_step rooted out f =
     (if f = [] \<or> f = ''.'' then out
      else if f = ''..'' then
        (case out of
           [] \<Rightarrow> if rooted then [] else [f]
         | g # out' \<Rightarrow> if g = ''..'' then f # out else out')
      else f # out)"

definition clean :: "string \<Rightarrow> string" where
  "clean p =
     (let rooted = has_prefix p ''/'';
          out = join ''/'' (rev (foldl (clean_step rooted) [] (split_at CHR ''/'' p)))
      in if rooted then CHR ''/'' # out else if out = [] then ''.'' else out)"

definition base_name :: "string \<Rightarrow> string" where
  "base_name p =
     (if p = [] then ''.''
      else
        let q = rev (dropWhile (\<lambda>c. c = CHR ''/'') (rev p));
            b = rev (takeWhile (\<lambda>c. c \<noteq> CHR ''/'') (rev q))
        in if b = [] then ''/'' else b)"

section \<open>Runes\<close>

definition rune_error :: nat where "rune_error = 0xFFFD"

definition cont :: "nat \<Rightarrow> nat \<Rightarrow> char \<Rightarrow> bool" where
  "cont lo hi c \<longleftrightarrow> lo \<le> of_char c \<and> of_char c \<le> hi"

definition low6 :: "char \<Rightarrow> nat" where
  "low6 c = of_char c mod 64"

text \<open>\<open>utf8.DecodeRuneInString\<close>: the rune and its width in bytes.\<close>

definition decode_rune :: "string \<Rightarrow> nat \<times> nat" where
  "decode_rune s =
     (case s of
        [] \<Rightarrow> (rune_error, 0)
      | a # t \<Rightarrow>
          let x = of_char a in
          if x < 0x80 then (x, 1)
          else if 0xC2 \<le> x \<and> x \<le> 0xDF then
            (case t of
               b # _ \<Rightarrow> if cont 0x80 0xBF b then ((x mod 32) * 64 + low6 b, 2) else (rune_error, 1)
             | _ \<Rightarrow> (rune_error, 1))
          else if 0xE0 \<le> x \<and> x \<le> 0xEF then
            (case t of
               b # c # _ \<Rightarrow>
                 if cont (if x = 0xE0 then 0xA0 else 0x80) (if x = 0xED then 0x9F else 0xBF) b
                    \<and> cont 0x80 0xBF c
                 then ((x mod 16) * 4096 + low6 b * 64 + low6 c, 3) else (rune_error, 1)
             | _ \<Rightarrow> (rune_error, 1))
          else if 0xF0 \<le> x \<and> x \<le> 0xF4 then
            (case t of
               b # c # d # _ \<Rightarrow>
                 if cont (if x = 0xF0 then 0x90 else 0x80) (if x = 0xF4 then 0x8F else 0xBF) b
                    \<and> cont 0x80 0xBF c \<and> cont 0x80 0xBF d
                 then ((x mod 8) * 262144 + low6 b * 4096 + low6 c * 64 + low6 d, 4)
                 else (rune_error, 1)
             | _ \<Rightarrow> (rune_error, 1))
          else (rune_error, 1))"

lemma decode_rune_width: "s \<noteq> [] \<Longrightarrow> decode_rune s = (r, n) \<Longrightarrow> 0 < n"
  by (auto simp: decode_rune_def Let_def split: list.splits if_splits)

section \<open>Match\<close>

datatype chunk_result = BadPattern | NoMatch | Matched string

fun scan_body :: "bool \<Rightarrow> string \<Rightarrow> string \<times> string" where
  "scan_body inrange [] = ([], [])"
| "scan_body inrange (c # p) =
     (if c = CHR 92 then
        (case p of
           [] \<Rightarrow> ([c], [])
         | d # p' \<Rightarrow> (case scan_body inrange p' of (a, b) \<Rightarrow> (c # d # a, b)))
      else if c = CHR ''*'' \<and> \<not> inrange then ([], c # p)
      else
        (case scan_body (if c = CHR ''['' then True else if c = CHR '']'' then False else inrange) p of
           (a, b) \<Rightarrow> (c # a, b)))"

definition scan_chunk :: "string \<Rightarrow> bool \<times> string \<times> string" where
  "scan_chunk p =
     (let q = dropWhile (\<lambda>c. c = CHR ''*'') p
      in (q \<noteq> p, scan_body False q))"

text \<open>A possibly escaped rune of a character class; \<open>None\<close> is a bad pattern.\<close>

definition get_esc :: "string \<Rightarrow> (nat \<times> string) option" where
  "get_esc chunk =
     (if chunk = [] \<or> hd chunk = CHR ''-'' \<or> hd chunk = CHR '']'' then None
      else
        let c = (if hd chunk = CHR 92 then tl chunk else chunk) in
        if c = [] then None
        else case decode_rune c of (r, n) \<Rightarrow>
          if r = rune_error \<and> n = 1 then None
          else if drop n c = [] then None
          else Some (r, drop n c))"

lemma get_esc_shorter: "get_esc chunk = Some (r, c) \<Longrightarrow> length c < length chunk"
proof -
  assume a: "get_esc chunk = Some (r, c)"
  let ?c = "if hd chunk = CHR 92 then tl chunk else chunk"
  obtain n where n: "decode_rune ?c = (r, n)" "?c \<noteq> []" "c = drop n ?c"
    using a by (auto simp: get_esc_def Let_def split: if_splits prod.splits)
  then have "0 < n" using decode_rune_width by blast
  with n have "length c < length ?c" by (cases ?c) auto
  also have "length ?c \<le> length chunk" by simp
  finally show ?thesis .
qed

text \<open>The ranges of a class: whether one holds \<open>r\<close>, and the chunk after the class.\<close>

function class_loop :: "string \<Rightarrow> nat \<Rightarrow> nat \<Rightarrow> bool \<Rightarrow> (bool \<times> string) option" where
  "class_loop chunk r nrange found =
     (if chunk \<noteq> [] \<and> hd chunk = CHR '']'' \<and> 0 < nrange then Some (found, tl chunk)
      else
        case get_esc chunk of
          None \<Rightarrow> None
        | Some (lo, c1) \<Rightarrow>
            (if hd c1 = CHR ''-'' then
               (case get_esc (tl c1) of
                  None \<Rightarrow> None
                | Some (hi, c2) \<Rightarrow>
                    class_loop c2 r (Suc nrange) (found \<or> lo \<le> r \<and> r \<le> hi))
             else class_loop c1 r (Suc nrange) (found \<or> lo \<le> r \<and> r \<le> lo)))"
  by pat_completeness auto
termination
  by (relation "measure (\<lambda>(chunk, r, n, f). length chunk)")
    (auto dest!: get_esc_shorter)

declare class_loop.simps [simp del]

lemma class_loop_shorter:
  "class_loop chunk r n f = Some (m, c) \<Longrightarrow> length c < length chunk"
proof (induction chunk r n f arbitrary: m c rule: class_loop.induct)
  case (1 chunk r n f)
  show ?case
  proof (cases "chunk \<noteq> [] \<and> hd chunk = CHR '']'' \<and> 0 < n")
    case True
    with "1.prems" show ?thesis by (auto simp: class_loop.simps [of chunk r n f])
  next
    case False
    with "1.prems" obtain lo c1 where e: "get_esc chunk = Some (lo, c1)"
      by (auto simp: class_loop.simps [of chunk r n f] split: option.splits)
    show ?thesis
    proof (cases "hd c1 = CHR ''-''")
      case True
      with "1.prems" False e obtain hi c2 where e2: "get_esc (tl c1) = Some (hi, c2)"
        by (auto simp: class_loop.simps [of chunk r n f] split: option.splits)
      with "1.prems" False e True
      have "class_loop c2 r (Suc n) (f \<or> lo \<le> r \<and> r \<le> hi) = Some (m, c)"
        by (simp add: class_loop.simps [of chunk r n f])
      from "1.IH"(1) [OF False e refl True e2 refl this] get_esc_shorter [OF e] get_esc_shorter [OF e2]
      show ?thesis by simp
    next
      case nodash: False
      with "1.prems" False e have "class_loop c1 r (Suc n) (f \<or> lo \<le> r \<and> r \<le> lo) = Some (m, c)"
        by (simp add: class_loop.simps [of chunk r n f])
      from "1.IH"(2) [OF False e refl nodash this] get_esc_shorter [OF e] show ?thesis by simp
    qed
  qed
qed


text \<open>
  One turn of the loop of \<open>matchChunk\<close>, on a chunk that is not empty: what is left of the
  chunk and of the string, and whether the match has failed. After a mismatch the loop goes
  on over the chunk, to check its syntax, but no longer reads the string.
\<close>

definition chunk_step :: "string \<Rightarrow> string \<Rightarrow> bool \<Rightarrow> (string \<times> string \<times> bool) option" where
  "chunk_step chunk s failed =
     (if hd chunk = CHR ''['' then
        let (r, n) = (if failed then (0, 0) else decode_rune s);
            negated = (tl chunk \<noteq> [] \<and> hd (tl chunk) = CHR ''^'');
            c = (if negated then tl (tl chunk) else tl chunk)
        in (case class_loop c r 0 False of
              None \<Rightarrow> None
            | Some (found, rest) \<Rightarrow> Some (rest, drop n s, failed \<or> found = negated))
      else if hd chunk = CHR ''?'' then
        (if failed then Some (tl chunk, s, True)
         else Some (tl chunk, drop (snd (decode_rune s)) s, hd s = CHR ''/''))
      else
        let lit = (if hd chunk = CHR 92 then tl chunk else chunk) in
        if lit = [] then None
        else if failed then Some (tl lit, s, True)
        else Some (tl lit, tl s, hd lit \<noteq> hd s))"

lemma chunk_step_shorter:
  assumes "chunk \<noteq> []" and "chunk_step chunk s f = Some (c, s', f')"
  shows "length c < length chunk"
proof (cases "hd chunk = CHR ''[''")
  case True
  define neg where "neg = (tl chunk \<noteq> [] \<and> hd (tl chunk) = CHR ''^'')"
  define c2 where "c2 = (if neg then tl (tl chunk) else tl chunk)"
  obtain r m where "class_loop c2 r 0 False = Some (m, c)"
    using assms(2) True
    by (auto simp: chunk_step_def Let_def neg_def [symmetric] c2_def [symmetric]
        split: prod.splits option.splits)
  then have "length c < length c2" by (rule class_loop_shorter)
  also have "length c2 \<le> length chunk" by (simp add: c2_def)
  finally show ?thesis .
next
  case False
  from assms False show ?thesis
    by (auto simp: chunk_step_def Let_def length_greater_0_conv [symmetric]
        simp del: length_greater_0_conv split: if_splits)
qed

function match_chunk :: "string \<Rightarrow> string \<Rightarrow> bool \<Rightarrow> chunk_result" where
  "match_chunk chunk s failed =
     (if chunk = [] then (if failed then NoMatch else Matched s)
      else case chunk_step chunk s (failed \<or> s = []) of
             None \<Rightarrow> BadPattern
           | Some (c, s', f) \<Rightarrow> match_chunk c s' f)"
  by pat_completeness auto
termination
  by (relation "measure (\<lambda>(chunk, s, f). length chunk)") (auto dest: chunk_step_shorter)

declare match_chunk.simps [simp del]

fun star_loop :: "string \<Rightarrow> bool \<Rightarrow> string \<Rightarrow> chunk_result" where
  "star_loop chunk final [] = NoMatch"
| "star_loop chunk final (c # name) =
     (if c = CHR ''/'' then NoMatch
      else
        case match_chunk chunk name False of
          BadPattern \<Rightarrow> BadPattern
        | NoMatch \<Rightarrow> star_loop chunk final name
        | Matched t \<Rightarrow> if final \<and> t \<noteq> [] then star_loop chunk final name else Matched t)"

lemma scan_body_split: "scan_body b p = (x, y) \<Longrightarrow> p = x @ y"
proof (induction b p arbitrary: x y rule: scan_body.induct)
  case (2 inrange c p)
  then show ?case by (cases p) (auto split: prod.splits if_splits)
qed simp

lemma scan_body_nonempty: "c \<noteq> CHR ''*'' \<Longrightarrow> fst (scan_body False (c # p)) \<noteq> []"
  by (cases p) (simp_all split: prod.split)

lemma scan_chunk_shorter:
  assumes "p \<noteq> []" and "scan_chunk p = (star, chunk, rest)"
  shows "length rest < length p"
proof -
  let ?q = "dropWhile (\<lambda>c. c = CHR ''*'') p"
  have q: "?q = chunk @ rest" and star: "star \<longleftrightarrow> ?q \<noteq> p"
    using assms(2) scan_body_split by (auto simp: scan_chunk_def Let_def)
  show ?thesis
  proof (cases star)
    case True
    have "length ?q < length p"
      using star True by (metis append_Nil length_append length_dropWhile_le
          less_add_same_cancel2 length_greater_0_conv takeWhile_dropWhile_id)
    with q show ?thesis by (metis length_append less_le_trans not_add_less2 not_le)
  next
    case False
    with star have qp: "?q = p" by simp
    obtain c p' where p: "p = c # p'" using assms(1) by (cases p) auto
    with qp have "c \<noteq> CHR ''*''" by (metis dropWhile_eq_self_iff list.sel(1) list.simps(3))
    with assms(2) qp p scan_body_nonempty [of c p'] have "chunk \<noteq> []"
      by (simp add: scan_chunk_def Let_def)
    with q qp show ?thesis by (metis length_append length_greater_0_conv less_add_same_cancel2)
  qed
qed

text \<open>The syntax check of the chunks that are left when the name has already failed.\<close>

function rest_ok :: "string \<Rightarrow> bool" where
  "rest_ok p =
     (if p = [] then True
      else case scan_chunk p of (star, chunk, rest) \<Rightarrow>
        match_chunk chunk [] False \<noteq> BadPattern \<and> rest_ok rest)"
  by pat_completeness auto
termination
  by (relation "measure length") (auto dest: scan_chunk_shorter [OF _ sym])

declare rest_ok.simps [simp del]

text \<open>One chunk against the name: in place, and behind a star at every later byte.\<close>

definition chunk_at :: "bool \<Rightarrow> string \<Rightarrow> bool \<Rightarrow> string \<Rightarrow> chunk_result" where
  "chunk_at star chunk final name =
     (case match_chunk chunk name False of
        BadPattern \<Rightarrow> BadPattern
      | NoMatch \<Rightarrow> if star then star_loop chunk final name else NoMatch
      | Matched t \<Rightarrow>
          if t = [] \<or> \<not> final then Matched t
          else if star then star_loop chunk final name else NoMatch)"

text \<open>\<open>filepath.Match\<close>; \<open>None\<close> is \<open>ErrBadPattern\<close>.\<close>

function go_match :: "string \<Rightarrow> string \<Rightarrow> bool option" where
  "go_match p name =
     (if p = [] then Some (name = [])
      else case scan_chunk p of (star, chunk, rest) \<Rightarrow>
        if star \<and> chunk = [] then Some (CHR ''/'' \<notin> set name)
        else
          case chunk_at star chunk (rest = []) name of
            BadPattern \<Rightarrow> None
          | Matched t \<Rightarrow> go_match rest t
          | NoMatch \<Rightarrow> if rest_ok rest then Some False else None)"
  by pat_completeness auto
termination
  by (relation "measure (\<lambda>(p, name). length p)") (auto dest: scan_chunk_shorter [OF _ sym])

declare go_match.simps [simp del]

section \<open>A pattern is malformed or not, whatever the name\<close>

lemma class_loop_esc:
  "\<not> (chunk \<noteq> [] \<and> hd chunk = CHR '']'' \<and> 0 < n) \<Longrightarrow>
   class_loop chunk r n f =
     (case get_esc chunk of
        None \<Rightarrow> None
      | Some (lo, c1) \<Rightarrow>
          (if hd c1 = CHR ''-'' then
             (case get_esc (tl c1) of
                None \<Rightarrow> None
              | Some (hi, c2) \<Rightarrow> class_loop c2 r (Suc n) (f \<or> lo \<le> r \<and> r \<le> hi))
           else class_loop c1 r (Suc n) (f \<or> lo \<le> r \<and> r \<le> lo)))"
  by (subst class_loop.simps) (simp only: if_not_P if_False)

lemma class_loop_rest:
  "class_loop chunk r n f = Some (m, c) \<Longrightarrow> \<exists>m'. class_loop chunk r' n f' = Some (m', c)"
proof (induction chunk r n f arbitrary: m c f' rule: class_loop.induct)
  case (1 chunk r n f)
  show ?case
  proof (cases "chunk \<noteq> [] \<and> hd chunk = CHR '']'' \<and> 0 < n")
    case True
    with "1.prems" show ?thesis by (auto simp: class_loop.simps [of chunk])
  next
    case False
    with "1.prems" obtain lo c1 where e: "get_esc chunk = Some (lo, c1)"
      by (auto simp: class_loop_esc [OF False] split: option.splits)
    show ?thesis
    proof (cases "hd c1 = CHR ''-''")
      case True
      with "1.prems" False e obtain hi c2 where e2: "get_esc (tl c1) = Some (hi, c2)"
        by (auto simp: class_loop_esc [OF False] split: option.splits)
      with "1.prems" False e True
      have "class_loop c2 r (Suc n) (f \<or> lo \<le> r \<and> r \<le> hi) = Some (m, c)"
        by (simp add: class_loop_esc [OF False])
      from "1.IH"(1) [OF False e refl True e2 refl this, of "f' \<or> lo \<le> r' \<and> r' \<le> hi"]
      show ?thesis using e e2 True by (simp add: class_loop_esc [OF False])
    next
      case nodash: False
      with "1.prems" False e have "class_loop c1 r (Suc n) (f \<or> lo \<le> r \<and> r \<le> lo) = Some (m, c)"
        by (simp add: class_loop_esc [OF False])
      from "1.IH"(2) [OF False e refl nodash this, of "f' \<or> lo \<le> r' \<and> r' \<le> lo"]
      show ?thesis using e nodash by (simp add: class_loop_esc [OF False])
    qed
  qed
qed

lemma class_loop_None: "class_loop chunk r n f = None \<Longrightarrow> class_loop chunk r' n f' = None"
  by (metis class_loop_rest not_None_eq prod.exhaust)

lemma chunk_step_syntax:
  "map_option fst (chunk_step chunk s f) = map_option fst (chunk_step chunk s' f')"
proof (cases "hd chunk = CHR ''[''")
  case True
  define neg where "neg = (tl chunk \<noteq> [] \<and> hd (tl chunk) = CHR ''^'')"
  define c2 where "c2 = (if neg then tl (tl chunk) else tl chunk)"
  obtain r n where r: "(if f then (0, 0) else decode_rune s) = (r, n)" by (metis prod.exhaust)
  obtain r' n' where r': "(if f' then (0, 0) else decode_rune s') = (r', n')" by (metis prod.exhaust)
  show ?thesis
  proof (cases "class_loop c2 r 0 False")
    case None
    with class_loop_None [OF None, of r' False] True r r' show ?thesis
      by (simp add: chunk_step_def neg_def [symmetric] c2_def [symmetric])
  next
    case (Some p)
    then obtain m c where p: "class_loop c2 r 0 False = Some (m, c)" by (cases p) auto
    obtain m' where "class_loop c2 r' 0 False = Some (m', c)" using class_loop_rest [OF p] by blast
    with p True r r' show ?thesis
      by (simp add: chunk_step_def neg_def [symmetric] c2_def [symmetric])
  qed
next
  case False
  then show ?thesis by (cases f; cases f'; simp add: chunk_step_def Let_def)
qed

definition chunk_bad :: "string \<Rightarrow> bool" where
  "chunk_bad chunk \<longleftrightarrow> match_chunk chunk [] True = BadPattern"

lemma match_chunk_bad_eq: "match_chunk chunk s f = BadPattern \<Longrightarrow> match_chunk chunk s' f' = BadPattern"
proof (induction chunk s f arbitrary: s' f' rule: match_chunk.induct)
  case (1 chunk s f)
  have ne: "chunk \<noteq> []"
    using "1.prems" by (auto simp: match_chunk.simps [of "[]"] split: if_splits)
  note syn = chunk_step_syntax [of chunk s "f \<or> s = []" s' "f' \<or> s' = []"]
  show ?case
  proof (cases "chunk_step chunk s (f \<or> s = [])")
    case None
    with syn ne show ?thesis by (simp add: match_chunk.simps [of chunk])
  next
    case (Some q)
    obtain c s1 f1 where q: "q = (c, s1, f1)" by (cases q)
    with Some syn obtain s2 f2 where st: "chunk_step chunk s' (f' \<or> s' = []) = Some (c, s2, f2)"
      by (auto simp: map_option_case split: option.splits)
    have "match_chunk c s1 f1 = BadPattern"
      using "1.prems" ne Some q by (simp add: match_chunk.simps [of chunk s f])
    from "1.IH" [OF ne Some q [symmetric] refl this, of s2 f2] st ne show ?thesis
      by (simp add: match_chunk.simps [of chunk s' f'])
  qed
qed

lemma match_chunk_bad: "match_chunk chunk s f = BadPattern \<longleftrightarrow> chunk_bad chunk"
  unfolding chunk_bad_def by (blast intro: match_chunk_bad_eq)

lemma star_loop_bad: "star_loop chunk final name = BadPattern \<Longrightarrow> chunk_bad chunk"
  by (induction name) (auto simp: match_chunk_bad split: if_splits chunk_result.splits)

lemma chunk_at_bad: "chunk_at star chunk final name = BadPattern \<longleftrightarrow> chunk_bad chunk"
proof (cases "chunk_bad chunk")
  case True
  then have "match_chunk chunk name False = BadPattern" by (simp add: match_chunk_bad)
  with True show ?thesis by (simp add: chunk_at_def)
next
  case False
  then have "match_chunk chunk name False \<noteq> BadPattern" "star_loop chunk final name \<noteq> BadPattern"
    using star_loop_bad by (auto simp: match_chunk_bad)
  with False show ?thesis by (auto simp: chunk_at_def split: chunk_result.split)
qed

lemma chunk_bad_Nil [simp]: "\<not> chunk_bad []"
  by (simp add: chunk_bad_def match_chunk.simps [of "[]"])

lemma scan_chunk_Nil:
  assumes "scan_chunk p = (star, [], rest)"
  shows "rest = []"
proof (cases rest)
  case (Cons c r)
  let ?q = "dropWhile (\<lambda>c. c = CHR ''*'') p"
  have body: "scan_body False ?q = ([], rest)" using assms by (simp add: scan_chunk_def Let_def)
  then have "?q = rest" using scan_body_split by fastforce
  with Cons have q: "?q = c # r" by simp
  then have "c \<noteq> CHR ''*''" using hd_dropWhile [of "\<lambda>c. c = CHR ''*''" p] by simp
  from body q have "fst (scan_body False (c # r)) = []" by (simp only: fst_conv)
  with scan_body_nonempty [OF \<open>c \<noteq> CHR ''*''\<close>] show ?thesis by blast
qed simp

text \<open>
  \<open>filepath.Match\<close> reports a malformed pattern for every name or for none: a trial match
  against any one name is a complete syntax check.
\<close>

lemma go_match_bad_pattern: "go_match p name = None \<longleftrightarrow> \<not> rest_ok p"
proof (induction p name rule: go_match.induct)
  case (1 p name)
  show ?case
  proof (cases "p = []")
    case True
    then show ?thesis by (simp add: go_match.simps [of "[]"] rest_ok.simps [of "[]"])
  next
    case False
    obtain star chunk rest where sc: "scan_chunk p = (star, chunk, rest)" by (metis prod.exhaust)
    have ok: "rest_ok p \<longleftrightarrow> \<not> chunk_bad chunk \<and> rest_ok rest"
      using False sc by (simp add: rest_ok.simps [of p] match_chunk_bad)
    show ?thesis
    proof (cases "star \<and> chunk = []")
      case True
      with sc have "rest = []" using scan_chunk_Nil by blast
      with True ok False sc show ?thesis
        by (simp add: go_match.simps [of p] rest_ok.simps [of "[]"])
    next
      case nt: False
      have unf: "go_match p name =
        (case chunk_at star chunk (rest = []) name of
            BadPattern \<Rightarrow> None
          | Matched t \<Rightarrow> go_match rest t
          | NoMatch \<Rightarrow> if rest_ok rest then Some False else None)"
        by (subst go_match.simps) (simp only: False sc prod.case if_False nt)
      note bad = chunk_at_bad [of star chunk "rest = []" name]
      show ?thesis
      proof (cases "chunk_at star chunk (rest = []) name")
        case BadPattern
        with ok unf bad show ?thesis by simp
      next
        case NoMatch
        with ok unf bad show ?thesis by simp
      next
        case (Matched t)
        with "1.IH" [OF False sc [symmetric] refl nt Matched] ok unf bad show ?thesis by simp
      qed
    qed
  qed
qed

end
