(* ===== verification/Exclude.thy ===== *)
theory Exclude
  imports Go_Path
begin

text \<open>
  \<open>internal/exclude\<close>: which paths a scan leaves alone. \<open>defaults.go\<close> is the built-in lists;
  \<open>matcher.go\<close> compiles patterns into a \<open>Set\<close> and matches paths against it. Reading
  patterns from a file and the paths of the program's own binary are the operating
  system's.
\<close>

section \<open>defaults.go\<close>

definition common_defaults :: "string list" where
  "common_defaults =
     [''/proc'', ''/sys'', ''/dev'', ''/tmp'', ''/var/tmp'', ''/run'', ''/var/run'', ''/media'',
      ''/mnt'', ''/lost+found'']"

definition family :: "string \<Rightarrow> string" where
  "family goos =
     (if goos = ''illumos'' then ''solaris''
      else if goos = ''dragonfly'' then ''freebsd''
      else goos)"

definition os_defaults :: "string \<Rightarrow> string list" where
  "os_defaults fam =
     (if fam = ''linux'' then [''/var/lib/docker'', ''/swapfile'']
      else if fam = ''solaris'' then
        [''/devices'', ''/system/contract'', ''/system/object'', ''/system/volatile'', ''/rpool'']
      else if fam = ''freebsd'' then [''/compat/linux/proc'', ''/var/db/freebsd-update'']
      else if fam = ''darwin'' then
        [''/Volumes'', ''/System/Volumes'', ''/private/var/vm'', ''/.Spotlight-V100'', ''/.fseventsd'']
      else [])"

definition defaults :: "string \<Rightarrow> string list" where
  "defaults goos = common_defaults @ os_defaults (family goos)"

definition volatile_defaults :: "string list" where
  "volatile_defaults = [''/var/log'', ''/var/cache'', ''/var/spool'']"

definition os_volatile :: "string \<Rightarrow> string list" where
  "os_volatile fam =
     (if fam = ''solaris'' then
        [''/var/adm'', ''/var/svc/log'', ''/var/audit'', ''/var/share/adm'', ''/var/share/audit'',
         ''/var/share/sstore'']
      else [])"

definition volatile_paths :: "string \<Rightarrow> string list" where
  "volatile_paths goos =
     (if family goos = ''darwin'' then [''/private/var/log'', ''/private/var/folders'']
      else volatile_defaults @ os_volatile (family goos))"

section \<open>matcher.go\<close>

record exclude_options =
  xo_goos :: string
  xo_root :: string
  xo_no_defaults :: bool
  xo_patterns :: "string list"
  xo_auto :: "string list"
  xo_no_volatiles :: bool

record exclude_set =
  xs_root :: string
  xs_prefixes :: "string list"
  xs_path_globs :: "string list"
  xs_name_globs :: "string list"
  xs_volatile :: "string list"
  xs_patterns :: "string list"
  xs_dropped :: "string list"

definition empty_set :: exclude_set where
  "empty_set = \<lparr>xs_root = [], xs_prefixes = [], xs_path_globs = [], xs_name_globs = [],
     xs_volatile = [], xs_patterns = [], xs_dropped = []\<rparr>"

text \<open>\<open>path[len(prefix)]\<close> is guarded by the test before it.\<close>

definition is_under :: "string \<Rightarrow> string \<Rightarrow> bool" where
  "is_under path pre \<longleftrightarrow>
     pre = ''/'' \<or>
     (has_prefix path pre \<and>
      (length path = length pre \<or> path ! length pre = CHR ''/''))"

definition is_glob :: "string \<Rightarrow> bool" where
  "is_glob p \<longleftrightarrow> contains_any p [CHR ''*'', CHR ''?'', CHR ''['']"

definition absolute :: "string \<Rightarrow> bool" where
  "absolute p \<longleftrightarrow> has_prefix p ''/''"

text \<open>\<open>Match\<close>: an error of \<open>filepath.Match\<close> counts as no match, as in the code.\<close>

definition set_match :: "exclude_set \<Rightarrow> string \<Rightarrow> bool" where
  "set_match s path \<longleftrightarrow>
     list_ex (\<lambda>p. is_under path p) (xs_prefixes s) \<or>
     list_ex (\<lambda>g. go_match g path = Some True) (xs_path_globs s) \<or>
     (xs_name_globs s \<noteq> [] \<and>
      list_ex (\<lambda>g. go_match g (base_name path) = Some True) (xs_name_globs s))"

definition set_volatile :: "exclude_set \<Rightarrow> string \<Rightarrow> bool" where
  "set_volatile s path \<longleftrightarrow> list_ex (\<lambda>p. is_under path p) (xs_volatile s)"

text \<open>\<open>Inl p\<close> is the error "invalid exclusion pattern p".\<close>

definition add_one :: "exclude_set \<Rightarrow> string \<Rightarrow> string + exclude_set" where
  "add_one s p =
     (let glob = is_glob p in
      if \<not> glob \<and> absolute p \<and> xs_root s \<noteq> [] \<and> is_under (xs_root s) (clean p)
      then Inr (s\<lparr>xs_dropped := xs_dropped s @ [p]\<rparr>)
      else
        let s = s\<lparr>xs_patterns := xs_patterns s @ [p]\<rparr> in
        if glob \<and> go_match p ''/'' = None then Inl p
        else if \<not> absolute p then Inr (s\<lparr>xs_name_globs := xs_name_globs s @ [p]\<rparr>)
        else if glob then Inr (s\<lparr>xs_path_globs := xs_path_globs s @ [p]\<rparr>)
        else Inr (s\<lparr>xs_prefixes := xs_prefixes s @ [clean p]\<rparr>))"

fun add_patterns :: "exclude_set \<Rightarrow> string list \<Rightarrow> string + exclude_set" where
  "add_patterns s [] = Inr s"
| "add_patterns s (p # ps) =
     (let p = trim_space p in
      if p = [] \<or> has_prefix p ''#'' then add_patterns s ps
      else case add_one s p of Inl e \<Rightarrow> Inl e | Inr s' \<Rightarrow> add_patterns s' ps)"

fun add_auto :: "exclude_set \<Rightarrow> string list \<Rightarrow> string + exclude_set" where
  "add_auto s [] = Inr s"
| "add_auto s (p # ps) =
     (let p = trim_space p in
      if p = [] \<or> set_match s p then add_auto s ps
      else case add_one s p of Inl e \<Rightarrow> Inl e | Inr s' \<Rightarrow> add_auto s' ps)"

definition start_set :: "string \<Rightarrow> exclude_set" where
  "start_set root = (if root \<noteq> [] then empty_set\<lparr>xs_root := clean root\<rparr> else empty_set)"

definition new_set :: "exclude_options \<Rightarrow> string + exclude_set" where
  "new_set o' =
     (let s = start_set (xo_root o')
      in case (if xo_no_defaults o' then Inr s else add_patterns s (defaults (xo_goos o'))) of
           Inl e \<Rightarrow> Inl e
         | Inr s \<Rightarrow>
             (case add_patterns s (xo_patterns o') of
                Inl e \<Rightarrow> Inl e
              | Inr s \<Rightarrow>
                  (case add_auto s (xo_auto o') of
                     Inl e \<Rightarrow> Inl e
                   | Inr s \<Rightarrow>
                       Inr (if xo_no_volatiles o' then s
                            else s\<lparr>xs_volatile := volatile_paths (xo_goos o')\<rparr>))))"

section \<open>Paths below a prefix\<close>

lemma is_under_iff:
  "is_under path pre \<longleftrightarrow> pre = ''/'' \<or> path = pre \<or> (\<exists>r. path = pre @ CHR ''/'' # r)"
proof -
  have "has_prefix path pre \<and> (length path = length pre \<or> path ! length pre = CHR ''/'') \<longleftrightarrow>
      path = pre \<or> (\<exists>r. path = pre @ CHR ''/'' # r)" (is "?l \<longleftrightarrow> ?r") if "pre \<noteq> []"
  proof
    assume ?l
    then obtain r where r: "path = pre @ r" by (auto simp: has_prefix_iff)
    with \<open>?l\<close> show ?r by (cases r) auto
  next
    assume ?r
    then show ?l by auto
  qed
  moreover have "has_prefix path [] \<and> (length path = 0 \<or> path ! 0 = CHR ''/'') \<longleftrightarrow>
      path = [] \<or> (\<exists>r. path = CHR ''/'' # r)"
    by (cases path) (auto simp: has_prefix_def)
  ultimately show ?thesis by (cases "pre = []") (auto simp: is_under_def)
qed

lemma is_under_refl [simp]: "is_under p p"
  by (simp add: is_under_iff)

lemma is_under_trans: "is_under a b \<Longrightarrow> is_under b c \<Longrightarrow> b \<noteq> ''/'' \<Longrightarrow> is_under a c"
  by (auto simp: is_under_iff)

text \<open>
  An excluded directory hides everything below it: a path at or below one that a prefix
  excludes is excluded as well, so the walk may prune there. The test is by whole
  components, so a sibling whose name merely starts with the same letters is not hidden.
\<close>

theorem excluded_subtree:
  "p \<in> set (xs_prefixes s) \<Longrightarrow> p \<noteq> ''/'' \<Longrightarrow>
   set_match s (p @ CHR ''/'' # r) \<and> is_under (p @ r) p = (r = [] \<or> hd r = CHR ''/'')"
  by (cases r) (auto simp: set_match_def is_under_iff list_ex_iff intro!: bexI [of _ p])

theorem excluded_subtree_witness:
  "set_match (empty_set\<lparr>xs_prefixes := [''/var/tmp'']\<rparr>) ''/var/tmp/x'' \<and>
   \<not> is_under ''/var/tmpfoo'' ''/var/tmp''"
  using excluded_subtree [of "''/var/tmp''" "empty_set\<lparr>xs_prefixes := [''/var/tmp'']\<rparr>" "''x''"]
    excluded_subtree [of "''/var/tmp''" "empty_set\<lparr>xs_prefixes := [''/var/tmp'']\<rparr>" "''foo''"]
  by simp

section \<open>What every construction keeps\<close>

text \<open>A pattern that reaches the recorded list, for a scan root.\<close>

definition recorded :: "string \<Rightarrow> string \<Rightarrow> bool" where
  "recorded root p \<longleftrightarrow>
     trim_space p = p \<and> p \<noteq> [] \<and>
     \<not> (\<not> is_glob p \<and> absolute p \<and> root \<noteq> [] \<and> is_under root (clean p)) \<and>
     (is_glob p \<longrightarrow> rest_ok p)"

text \<open>
  The recorded patterns determine the set: every compiled list is a filter of them. And no
  prefix covers the root.
\<close>

definition set_inv :: "exclude_set \<Rightarrow> bool" where
  "set_inv s \<longleftrightarrow>
     xs_prefixes s = map clean (filter (\<lambda>p. absolute p \<and> \<not> is_glob p) (xs_patterns s)) \<and>
     xs_path_globs s = filter (\<lambda>p. absolute p \<and> is_glob p) (xs_patterns s) \<and>
     xs_name_globs s = filter (\<lambda>p. \<not> absolute p) (xs_patterns s) \<and>
     (\<forall>p\<in>set (xs_patterns s). recorded (xs_root s) p)"

definition no_comment :: "exclude_set \<Rightarrow> bool" where
  "no_comment s \<longleftrightarrow> (\<forall>p\<in>set (xs_patterns s). \<not> has_prefix p ''#'')"

lemma set_inv_start: "set_inv (start_set r)" "no_comment (start_set r)"
  "xs_root (start_set r) = (if r = [] then [] else clean r)" "xs_patterns (start_set r) = []"
  by (simp_all add: set_inv_def start_set_def empty_set_def no_comment_def)

lemma add_one_cases:
  assumes "add_one s p = Inr s'"
  obtains (dropped) "s' = s\<lparr>xs_dropped := xs_dropped s @ [p]\<rparr>"
  | (name) "\<not> absolute p" "is_glob p \<longrightarrow> rest_ok p"
      "s' = s\<lparr>xs_patterns := xs_patterns s @ [p], xs_name_globs := xs_name_globs s @ [p]\<rparr>"
  | (glob) "absolute p" "is_glob p" "rest_ok p"
      "s' = s\<lparr>xs_patterns := xs_patterns s @ [p], xs_path_globs := xs_path_globs s @ [p]\<rparr>"
  | (pre) "absolute p" "\<not> is_glob p" "\<not> (xs_root s \<noteq> [] \<and> is_under (xs_root s) (clean p))"
      "s' = s\<lparr>xs_patterns := xs_patterns s @ [p], xs_prefixes := xs_prefixes s @ [clean p]\<rparr>"
  using assms
  by (cases "is_glob p"; cases "absolute p"; cases "go_match p ''/'' = None")
    (auto simp: add_one_def Let_def go_match_bad_pattern split: if_splits)

lemma add_one_inv:
  assumes "add_one s p = Inr s'" and "set_inv s" and "trim_space p = p" and "p \<noteq> []"
  shows "set_inv s' \<and> xs_root s' = xs_root s \<and>
   (no_comment s \<longrightarrow> \<not> has_prefix p ''#'' \<longrightarrow> no_comment s')"
  using assms(1) by (cases rule: add_one_cases)
    (use assms(2-4) in \<open>auto simp: set_inv_def recorded_def no_comment_def\<close>)

lemma add_patterns_inv:
  "add_patterns s ps = Inr s' \<Longrightarrow> set_inv s \<Longrightarrow>
   set_inv s' \<and> xs_root s' = xs_root s \<and> (no_comment s \<longrightarrow> no_comment s')"
proof (induction s ps rule: add_patterns.induct)
  case (2 s p ps)
  show ?case
  proof (cases "trim_space p = [] \<or> has_prefix (trim_space p) ''#''")
    case True
    with 2 show ?thesis by (simp add: Let_def)
  next
    case False
    with "2.prems" obtain s1 where s1: "add_one s (trim_space p) = Inr s1" "add_patterns s1 ps = Inr s'"
      by (auto simp: Let_def split: sum.splits)
    with add_one_inv [OF s1(1) "2.prems"(2)] "2.IH"(2) [OF refl False s1(1)] False
    show ?thesis by auto
  qed
qed simp

lemma add_auto_inv:
  "add_auto s ps = Inr s' \<Longrightarrow> set_inv s \<Longrightarrow>
   set_inv s' \<and> xs_root s' = xs_root s \<and>
   (no_comment s \<longrightarrow> (\<forall>p\<in>set ps. \<not> has_prefix (trim_space p) ''#'') \<longrightarrow> no_comment s')"
proof (induction s ps rule: add_auto.induct)
  case (2 s p ps)
  show ?case
  proof (cases "trim_space p = [] \<or> set_match s (trim_space p)")
    case True
    with 2 show ?thesis by (simp add: Let_def)
  next
    case False
    with "2.prems" obtain s1 where s1: "add_one s (trim_space p) = Inr s1" "add_auto s1 ps = Inr s'"
      by (auto simp: Let_def split: sum.splits)
    with add_one_inv [OF s1(1) "2.prems"(2)] "2.IH"(2) [OF refl False s1(1)] False
    show ?thesis by auto
  qed
qed simp

lemma set_inv_volatile [simp]: "set_inv (s\<lparr>xs_volatile := v\<rparr>) \<longleftrightarrow> set_inv s"
  "no_comment (s\<lparr>xs_volatile := v\<rparr>) \<longleftrightarrow> no_comment s"
  by (simp_all add: set_inv_def no_comment_def)

lemma new_set_inv:
  assumes "new_set opts = Inr s"
  shows "set_inv s \<and> xs_root s = (if xo_root opts = [] then [] else clean (xo_root opts)) \<and>
    ((\<forall>p\<in>set (xo_auto opts). \<not> has_prefix (trim_space p) ''#'') \<longrightarrow> no_comment s)"
proof -
  let ?s0 = "start_set (xo_root opts)"
  obtain s1 s2 s3 where s1: "(if xo_no_defaults opts then Inr ?s0 else add_patterns ?s0 (defaults (xo_goos opts))) = Inr s1"
    and s2: "add_patterns s1 (xo_patterns opts) = Inr s2"
    and s3: "add_auto s2 (xo_auto opts) = Inr s3"
    and s: "s = (if xo_no_volatiles opts then s3 else s3\<lparr>xs_volatile := volatile_paths (xo_goos opts)\<rparr>)"
    using assms by (auto simp: new_set_def Let_def split: sum.splits)
  have "set_inv s1 \<and> xs_root s1 = xs_root ?s0 \<and> no_comment s1"
    using s1 add_patterns_inv [of ?s0] set_inv_start by (auto split: if_splits)
  moreover from this add_patterns_inv [OF s2] have "set_inv s2 \<and> xs_root s2 = xs_root ?s0 \<and> no_comment s2"
    by simp
  moreover from this add_auto_inv [OF s3]
  have "set_inv s3 \<and> xs_root s3 = xs_root ?s0 \<and>
    ((\<forall>p\<in>set (xo_auto opts). \<not> has_prefix (trim_space p) ''#'') \<longrightarrow> no_comment s3)" by simp
  ultimately show ?thesis using s set_inv_start(3) by simp
qed


definition sample_options :: exclude_options where
  "sample_options = \<lparr>xo_goos = ''linux'', xo_root = ''/srv/jail'', xo_no_defaults = True,
     xo_patterns = [''/srv'', ''/srv/jail/tmp''], xo_auto = [], xo_no_volatiles = True\<rparr>"

lemma sample_set:
  "new_set sample_options = Inr (empty_set\<lparr>xs_root := ''/srv/jail'', xs_prefixes := [''/srv/jail/tmp''],
     xs_patterns := [''/srv/jail/tmp''], xs_dropped := [''/srv'']\<rparr>)"
proof -
  have t: "trim_space ''/srv'' = ''/srv''" "trim_space ''/srv/jail/tmp'' = ''/srv/jail/tmp''"
    by (simp_all add: trim_space_plain plain_def)
  have c: "clean ''/srv/jail'' = ''/srv/jail''" "clean ''/srv'' = ''/srv''"
    "clean ''/srv/jail/tmp'' = ''/srv/jail/tmp''"
    by (simp_all add: clean_def clean_step_def has_prefix_def Let_def)
  show ?thesis
    by (simp add: new_set_def sample_options_def start_set_def empty_set_def add_one_def t c Let_def
        has_prefix_def is_glob_def contains_any_def absolute_def is_under_def)
qed


section \<open>Replaying a recorded perimeter\<close>

lemma add_recorded:
  "set_inv s \<Longrightarrow> \<forall>p\<in>set ps. recorded (xs_root s) p \<and> \<not> has_prefix p ''#'' \<Longrightarrow>
   \<exists>s'. add_patterns s ps = Inr s' \<and> xs_patterns s' = xs_patterns s @ ps \<and>
     xs_dropped s' = xs_dropped s \<and> xs_root s' = xs_root s \<and> set_inv s'"
proof (induction ps arbitrary: s)
  case Nil
  then show ?case by simp
next
  case (Cons p ps)
  then have rec: "recorded (xs_root s) p" "\<not> has_prefix p ''#''" by simp_all
  obtain s1 where s1: "add_one s p = Inr s1" "xs_patterns s1 = xs_patterns s @ [p]"
    "xs_dropped s1 = xs_dropped s"
  proof (cases "is_glob p")
    case True
    with rec show ?thesis
      by (cases "absolute p") (auto intro!: that simp: add_one_def recorded_def Let_def go_match_bad_pattern)
  next
    case False
    with rec show ?thesis
      by (cases "absolute p") (auto intro!: that simp: add_one_def recorded_def Let_def)
  qed
  have inv: "set_inv s1" "xs_root s1 = xs_root s"
    using add_one_inv [OF s1(1) Cons.prems(1)] rec by (simp_all add: recorded_def)
  with Cons.IH [OF inv(1)] Cons.prems(2) s1 rec show ?case
    by (auto simp: recorded_def Let_def)
qed

lemma set_match_cong:
  "set_inv s \<Longrightarrow> set_inv s' \<Longrightarrow> xs_patterns s = xs_patterns s' \<Longrightarrow> set_match s = set_match s'"
  by (rule ext) (simp add: set_match_def set_inv_def)

text \<open>
  C15. The perimeter can be replayed: compiling the patterns that a fingerprint recorded, with
  the built-in list off and the same root, gives a set that excludes exactly the same paths,
  records the same patterns again and drops none. This is what lets \<open>compare\<close> scan what
  \<open>baseline\<close> scanned.
\<close>

theorem recorded_patterns_replay:
  assumes "new_set opts = Inr s"
    and "\<forall>p\<in>set (xo_auto opts). \<not> has_prefix (trim_space p) ''#''"
  shows "\<exists>s'. new_set \<lparr>xo_goos = goos, xo_root = xo_root opts, xo_no_defaults = True,
      xo_patterns = xs_patterns s, xo_auto = [], xo_no_volatiles = nv\<rparr> = Inr s' \<and>
    set_match s' = set_match s \<and> xs_patterns s' = xs_patterns s \<and> xs_dropped s' = []"
proof -
  let ?s0 = "start_set (xo_root opts)"
  have inv: "set_inv s" "no_comment s" "xs_root s = xs_root ?s0"
    using new_set_inv [OF assms(1)] assms(2) by (auto simp: set_inv_start)
  then have "\<forall>p\<in>set (xs_patterns s). recorded (xs_root ?s0) p \<and> \<not> has_prefix p ''#''"
    by (simp add: set_inv_def no_comment_def)
  from add_recorded [OF set_inv_start(1) this] obtain s' where
    s': "add_patterns ?s0 (xs_patterns s) = Inr s'" "xs_patterns s' = xs_patterns s"
      "xs_dropped s' = xs_dropped ?s0" "set_inv s'"
    by (auto simp: set_inv_start)
  have "xs_dropped ?s0 = []" by (simp add: start_set_def empty_set_def)
  with s' set_match_cong [OF inv(1) s'(4)] have
    "set_match s' = set_match s \<and> xs_patterns s' = xs_patterns s \<and> xs_dropped s' = []" by simp
  moreover have "set_match (s'\<lparr>xs_volatile := v\<rparr>) = set_match s'" for v
    by (rule ext) (simp add: set_match_def)
  ultimately show ?thesis using s'(1) by (auto simp: new_set_def)
qed

theorem recorded_patterns_replay_witness:
  "\<exists>s'. new_set \<lparr>xo_goos = ''linux'', xo_root = ''/srv/jail'', xo_no_defaults = True,
      xo_patterns = [''/srv/jail/tmp''], xo_auto = [], xo_no_volatiles = True\<rparr> = Inr s' \<and>
    set_match s' ''/srv/jail/tmp/x'' \<and> xs_dropped s' = []"
  using recorded_patterns_replay [OF sample_set, of "''linux''" True]
  by (auto simp: sample_options_def) (auto simp: set_match_def is_under_iff)

section \<open>A malformed pattern that is not refused\<close>

text \<open>The pattern \<open>core\<close> followed by a backslash: no glob character, and no escaped byte.\<close>

definition dangling :: string where
  "dangling = ''core'' @ [CHR 92]"

lemma dangling_bad: "\<not> rest_ok dangling"
  by (simp add: dangling_def rest_ok.simps scan_chunk_def match_chunk.simps chunk_step_def Let_def)

text \<open>
  \<open>New\<close> promises to fail on a malformed pattern, but checks only those with a glob
  character: a relative pattern that ends in a backslash is accepted, is recorded, and then
  matches no path whatsoever, because each match fails with the error that \<open>Match\<close> drops.
\<close>

theorem dangling_backslash_accepted:
  "\<exists>s. new_set \<lparr>xo_goos = goos, xo_root = [], xo_no_defaults = True, xo_patterns = [dangling],
      xo_auto = [], xo_no_volatiles = True\<rparr> = Inr s \<and>
    xs_patterns s = [dangling] \<and> (\<forall>path. \<not> set_match s path)"
proof -
  have t: "trim_space dangling = dangling"
    by (rule trim_space_plain) (simp_all add: dangling_def plain_def)
  have k: "\<not> is_glob dangling" "\<not> absolute dangling" "\<not> has_prefix dangling ''#''" "dangling \<noteq> []"
    by (simp_all add: dangling_def is_glob_def contains_any_def absolute_def has_prefix_def)
  have m: "go_match dangling path = None" for path
    using dangling_bad by (simp add: go_match_bad_pattern)
  show ?thesis
    by (simp add: new_set_def start_set_def t k add_one_def Let_def)
      (simp add: empty_set_def set_match_def m)
qed

end
