(* ===== verification/Diff_Op.thy ===== *)
theory Diff_Op
  imports Go_Strings
begin

text \<open>
  \<open>internal/diff/op.go\<close>: the categories of a difference, their two-character codes and the
  parser of the lists that \<open>--show\<close> and the ignore rules take. A \<open>map[Op]bool\<close> is a set.
\<close>

datatype op =
    OpNone
  | OpAddedDir
  | OpRemovedDir
  | OpChangedDir
  | OpAdded
  | OpRemoved
  | OpChangedFile
  | OpChangedMeta
  | OpTypeChanged
  | OpRetargeted
  | OpUnreadable

definition all_ops :: "op list" where
  "all_ops =
     [OpAddedDir, OpRemovedDir, OpChangedDir,
      OpAdded, OpRemoved, OpChangedFile, OpChangedMeta,
      OpTypeChanged, OpRetargeted, OpUnreadable]"

definition op_string :: "op \<Rightarrow> string" where
  "op_string o' =
     (case o' of
        OpNone \<Rightarrow> ''=''
      | OpAddedDir \<Rightarrow> ''+D''
      | OpRemovedDir \<Rightarrow> ''-D''
      | OpChangedDir \<Rightarrow> ''~D''
      | OpAdded \<Rightarrow> ''+F''
      | OpRemoved \<Rightarrow> ''-F''
      | OpChangedFile \<Rightarrow> ''~F''
      | OpChangedMeta \<Rightarrow> ''%F''
      | OpTypeChanged \<Rightarrow> ''!T''
      | OpRetargeted \<Rightarrow> ''~L''
      | OpUnreadable \<Rightarrow> ''?E'')"

text \<open>The em dash of the source is three bytes of UTF-8.\<close>

definition em_dash :: string where
  "em_dash = map (char_of :: nat \<Rightarrow> char) [0xE2, 0x80, 0x94]"

definition description :: "op \<Rightarrow> string" where
  "description o' =
     (case o' of
        OpAddedDir \<Rightarrow> ''added directories''
      | OpRemovedDir \<Rightarrow> ''deleted directories''
      | OpChangedDir \<Rightarrow> ''modified directories''
      | OpAdded \<Rightarrow> ''added files''
      | OpRemoved \<Rightarrow> ''deleted files''
      | OpChangedFile \<Rightarrow> ''modified files '' @ em_dash @ '' content''
      | OpChangedMeta \<Rightarrow> ''modified files '' @ em_dash @ '' metadata''
      | OpTypeChanged \<Rightarrow> ''type changes''
      | OpRetargeted \<Rightarrow> ''retargeted symlinks''
      | OpUnreadable \<Rightarrow> ''unreadable''
      | OpNone \<Rightarrow> ''unchanged'')"

text \<open>
  \<open>strings.EqualFold\<close> against a code. No code point outside ASCII folds to a letter of the
  codes, so the folding of ASCII letters decides.
\<close>

definition fold_char :: "char \<Rightarrow> nat" where
  "fold_char c = (let n = of_char c in if 65 \<le> n \<and> n \<le> 90 then n + 32 else n)"

definition equal_fold :: "string \<Rightarrow> string \<Rightarrow> bool" where
  "equal_fold s t \<longleftrightarrow> map fold_char s = map fold_char t"

datatype op_error = UnknownCode string | NoCode

definition parse_op :: "string \<Rightarrow> op_error + op" where
  "parse_op s =
     (let s = trim_space s in
      case find (\<lambda>o'. equal_fold s (op_string o')) all_ops of
        Some o' \<Rightarrow> Inr o'
      | None \<Rightarrow> Inl (UnknownCode s))"

fun parse_fields :: "op set \<Rightarrow> string list \<Rightarrow> op_error + op set" where
  "parse_fields ops [] = Inr ops"
| "parse_fields ops (f # fs) =
     (if trim_space f = [] then parse_fields ops fs
      else case parse_op f of
             Inl e \<Rightarrow> Inl e
           | Inr o' \<Rightarrow> parse_fields (insert o' ops) fs)"

definition parse_ops :: "string \<Rightarrow> op_error + op set" where
  "parse_ops s =
     (case parse_fields {} (split_at CHR '','' s) of
        Inl e \<Rightarrow> Inl e
      | Inr ops \<Rightarrow> if ops = {} then Inl NoCode else Inr ops)"

section \<open>Round trips\<close>

lemma all_ops_complete: "set all_ops = UNIV - {OpNone}"
proof -
  have "o' \<in> set all_ops" if "o' \<noteq> OpNone" for o' using that by (cases o') (simp_all add: all_ops_def)
  then show ?thesis by (auto simp: all_ops_def)
qed

lemma trim_code: "o' \<noteq> OpNone \<Longrightarrow> trim_space (op_string o') = op_string o'"
  by (cases o') (simp_all add: op_string_def trim_space_plain plain_def)

lemma equal_fold_code:
  "o' \<in> set all_ops \<Longrightarrow> q \<in> set all_ops \<Longrightarrow> equal_fold (op_string o') (op_string q) \<longleftrightarrow> o' = q"
  by (auto simp: all_ops_def op_string_def equal_fold_def fold_char_def)

lemma find_code: "equal_fold s (op_string o') \<Longrightarrow> o' \<noteq> OpNone \<Longrightarrow>
  find (\<lambda>q. equal_fold s (op_string q)) all_ops = Some o'"
proof -
  assume s: "equal_fold s (op_string o')" and o': "o' \<noteq> OpNone"
  then have mem: "o' \<in> set all_ops" by (simp add: all_ops_complete)
  have "equal_fold s (op_string q) \<longleftrightarrow> q = o'" if "q \<in> set all_ops" for q
    using s equal_fold_code [OF mem that] by (auto simp: equal_fold_def)
  then have "find (\<lambda>q. equal_fold s (op_string q)) all_ops = find (\<lambda>q. q = o') all_ops"
    by (rule find_cong [OF refl])
  also have "\<dots> = Some o'" using mem by (auto simp: all_ops_def)
  finally show ?thesis .
qed

lemma parse_op_Inr:
  "parse_op s = Inr o' \<longleftrightarrow> o' \<noteq> OpNone \<and> equal_fold (trim_space s) (op_string o')"
proof
  assume "parse_op s = Inr o'"
  then have "find (\<lambda>q. equal_fold (trim_space s) (op_string q)) all_ops = Some o'"
    by (auto simp: parse_op_def Let_def split: option.splits)
  then have "equal_fold (trim_space s) (op_string o')" "o' \<in> set all_ops"
    by (auto simp: find_Some_iff)
  then show "o' \<noteq> OpNone \<and> equal_fold (trim_space s) (op_string o')"
    by (auto simp: all_ops_complete)
next
  assume "o' \<noteq> OpNone \<and> equal_fold (trim_space s) (op_string o')"
  then show "parse_op s = Inr o'" using find_code [of "trim_space s" o'] by (simp add: parse_op_def Let_def)
qed

text \<open>
  \<open>ParseOp\<close> reads every code the program prints, with blanks around it and in either case,
  and reads no other text as a code: what it accepts is one of the ten codes.
\<close>

theorem parse_op_iff:
  "parse_op s = Inr o' \<longleftrightarrow> o' \<noteq> OpNone \<and> equal_fold (trim_space s) (op_string o')"
  by (rule parse_op_Inr)

definition op_codes :: "string list" where
  "op_codes = map op_string all_ops"

lemma parse_op_code: "o' \<noteq> OpNone \<Longrightarrow> parse_op (op_string o') = Inr o'"
  by (simp add: parse_op_Inr trim_code equal_fold_def)

lemma split_join: "\<forall>f\<in>set fs. sep \<notin> set f \<Longrightarrow> fs \<noteq> [] \<Longrightarrow> split_at sep (join [sep] fs) = fs"
proof (induction fs rule: induct_list012)
  case (2 f)
  have "sep \<notin> set f \<Longrightarrow> split_at sep f = [f]" by (induction f) auto
  with 2 show ?case by simp
next
  case (3 f g fs)
  have "sep \<notin> set f \<Longrightarrow> split_at sep (f @ sep # s) = f # split_at sep s" for s by (induction f) auto
  with 3 show ?case by simp
qed simp

lemma parse_fields_codes:
  "OpNone \<notin> set ops \<Longrightarrow> parse_fields acc (map op_string ops) = Inr (acc \<union> set ops)"
proof (induction ops arbitrary: acc)
  case (Cons o' ops)
  have "op_string o' \<noteq> []" by (cases o') (simp_all add: op_string_def)
  with Cons show ?case by (auto simp: trim_code parse_op_code)
qed simp

lemma parse_ops_codes:
  assumes "ops \<noteq> []" and "OpNone \<notin> set ops"
  shows "parse_ops (join '','' (map op_string ops)) = Inr (set ops)"
proof -
  have "CHR '','' \<notin> set (op_string o')" for o' by (cases o') (simp_all add: op_string_def)
  then have "split_at CHR '','' (join '','' (map op_string ops)) = map op_string ops"
    using assms(1) by (intro split_join) auto
  with assms show ?thesis by (simp add: parse_ops_def parse_fields_codes)
qed

text \<open>
  \<open>ParseOps\<close> inverts printing: the comma-separated codes of any non-empty list of
  categories are read back as exactly those categories.
\<close>

theorem parse_ops_round_trip:
  assumes "ops \<noteq> []" and "OpNone \<notin> set ops"
  shows "parse_ops (join '','' (map op_string ops)) = Inr (set ops)"
  by (rule parse_ops_codes [OF assms])

theorem parse_ops_round_trip_witness:
  "parse_ops ''~F,%F'' = Inr {OpChangedFile, OpChangedMeta}"
  using parse_ops_round_trip [of "[OpChangedFile, OpChangedMeta]"] by (simp add: op_string_def)

end
