(* ===== verification/Diff_Ignore.thy ===== *)
theory Diff_Ignore
  imports Diff_Op Exclude
begin

text \<open>
  \<open>internal/diff/ignore.go\<close>: the rules that drop classified changes. A nil \<open>*Ignore\<close> is
  \<open>None\<close>; \<open>LoadIgnore\<close> is \<open>ignore_lines\<close> on the content of the file.
\<close>

record ignore_rule =
  ir_ops :: "op set option"
  ir_match :: exclude_set
  ir_raw :: string

type_synonym ignore = "ignore_rule list"

datatype ignore_error =
    IgnoreCodes nat op_error
  | IgnoreNoPattern nat string
  | IgnoreBadPattern nat string

definition rule_options :: "string \<Rightarrow> exclude_options" where
  "rule_options line =
     \<lparr>xo_goos = [], xo_root = [], xo_no_defaults = True, xo_patterns = [line], xo_auto = [],
      xo_no_volatiles = True\<rparr>"

text \<open>One line that is neither blank nor a comment; \<open>n\<close> counts from one.\<close>

definition parse_rule :: "nat \<Rightarrow> string \<Rightarrow> ignore_error + ignore_rule" where
  "parse_rule n raw =
     (case (case cut CHR '':'' raw of
              None \<Rightarrow> Inr (None, raw)
            | Some (codes, pat) \<Rightarrow>
                (case parse_ops codes of
                   Inl e \<Rightarrow> Inl (IgnoreCodes n e)
                 | Inr ops \<Rightarrow> Inr (Some ops, trim_space pat))) of
        Inl e \<Rightarrow> Inl e
      | Inr (ops, line) \<Rightarrow>
          if line = [] then Inl (IgnoreNoPattern n raw)
          else case new_set (rule_options line) of
                 Inl p \<Rightarrow> Inl (IgnoreBadPattern n p)
               | Inr s \<Rightarrow> Inr \<lparr>ir_ops = ops, ir_match = s, ir_raw = raw\<rparr>)"

fun parse_ignore_from :: "nat \<Rightarrow> string list \<Rightarrow> ignore \<Rightarrow> ignore_error + ignore" where
  "parse_ignore_from n [] rules = Inr rules"
| "parse_ignore_from n (l # ls) rules =
     (let line = trim_space l in
      if line = [] \<or> has_prefix line ''#'' then parse_ignore_from (Suc n) ls rules
      else case parse_rule n line of
             Inl e \<Rightarrow> Inl e
           | Inr r \<Rightarrow> parse_ignore_from (Suc n) ls (rules @ [r]))"

definition parse_ignore :: "string list \<Rightarrow> ignore_error + ignore" where
  "parse_ignore ls = parse_ignore_from 1 ls []"

definition ignore_lines :: "string \<Rightarrow> string list" where
  "ignore_lines content = split_at CHR 10 (unix_newlines content)"

definition ignore_match :: "ignore option \<Rightarrow> op \<Rightarrow> string \<Rightarrow> bool" where
  "ignore_match ig o' path =
     (case ig of
        None \<Rightarrow> False
      | Some rules \<Rightarrow>
          list_ex (\<lambda>r. \<not> (case ir_ops r of None \<Rightarrow> False | Some ops \<Rightarrow> o' \<notin> ops)
                       \<and> set_match (ir_match r) path) rules)"

definition ignore_raw :: "ignore option \<Rightarrow> string list" where
  "ignore_raw ig = (case ig of None \<Rightarrow> [] | Some rules \<Rightarrow> map ir_raw rules)"

section \<open>What a rule means\<close>

lemma cut_first: "sep \<notin> set a \<Longrightarrow> cut sep (a @ sep # b) = Some (a, b)"
  by (induction a) auto

lemma join_no_char:
  "\<forall>f\<in>set fs. c \<notin> set f \<Longrightarrow> c \<noteq> sep \<Longrightarrow> c \<notin> set (join [sep] fs)"
  by (induction "[sep]" fs rule: join.induct) auto

text \<open>An absolute path without glob characters, in the form \<open>Clean\<close> leaves it in.\<close>

definition plain_path :: "string \<Rightarrow> bool" where
  "plain_path p \<longleftrightarrow> absolute p \<and> \<not> is_glob p \<and> clean p = p \<and> plain (last p)"

lemma plain_path_facts:
  assumes "plain_path p"
  shows "p \<noteq> []" "hd p = CHR ''/''" "trim_space p = p" "\<not> has_prefix p ''#''"
proof -
  show ne: "p \<noteq> []" and hd: "hd p = CHR ''/''"
    using assms by (auto simp: plain_path_def absolute_def has_prefix_iff)
  show "trim_space p = p"
    using assms ne hd by (intro trim_space_plain) (simp_all add: plain_path_def plain_def)
  show "\<not> has_prefix p ''#''" using hd by (auto simp: has_prefix_iff)
qed

lemma new_set_plain_path:
  assumes "plain_path p"
  shows "\<exists>s. new_set (rule_options p) = Inr s \<and> (\<forall>path. set_match s path \<longleftrightarrow> is_under path p)"
proof -
  note facts = plain_path_facts [OF assms]
  from assms have a: "absolute p" "\<not> is_glob p" "clean p = p" by (simp_all add: plain_path_def)
  show ?thesis
    by (simp add: new_set_def rule_options_def start_set_def facts a add_one_def Let_def)
      (simp add: empty_set_def set_match_def)
qed

text \<open>
  C22. A rule "codes:path" hides exactly the changes of those categories at that path or below
  it, and a rule "path" those of every category; a comma or a colon in the path does not
  change that, once there is a list of codes before it.
\<close>

theorem ignore_rule_meaning:
  assumes "plain_path p" and "ops \<noteq> []" and "OpNone \<notin> set ops"
  shows "\<exists>rules. parse_ignore [join '','' (map op_string ops) @ '':'' @ p] = Inr rules \<and>
    (\<forall>o' path. ignore_match (Some rules) o' path \<longleftrightarrow> o' \<in> set ops \<and> is_under path p)"
proof -
  let ?codes = "join '','' (map op_string ops)" and ?line = "join '','' (map op_string ops) @ '':'' @ p"
  note facts = plain_path_facts [OF assms(1)]
  have chars: "CHR '':'' \<notin> set (op_string o')" "o' \<noteq> OpNone \<Longrightarrow> op_string o' \<noteq> [] \<and> plain (hd (op_string o'))
      \<and> hd (op_string o') \<noteq> CHR ''#''" for o'
    by (cases o'; simp add: op_string_def plain_def)+
  obtain q qs where ops: "ops = q # qs" using assms(2) by (cases ops) auto
  then have "q \<noteq> OpNone" using assms(3) by auto
  have hd: "?codes \<noteq> []" "hd ?codes = hd (op_string q)"
    using chars(2) [OF \<open>q \<noteq> OpNone\<close>] ops by (cases qs; simp)+
  have nocolon: "CHR '':'' \<notin> set ?codes" by (rule join_no_char) (use chars(1) in auto)
  then have cut: "cut CHR '':'' ?line = Some (?codes, p)" using cut_first by simp
  have trim: "trim_space ?line = ?line"
    using hd chars(2) [OF \<open>q \<noteq> OpNone\<close>] facts assms(1)
    by (intro trim_space_plain) (simp_all add: plain_path_def)
  have nohash: "\<not> has_prefix ?line ''#''"
    using hd chars(2) [OF \<open>q \<noteq> OpNone\<close>] by (cases ?codes) (auto simp: has_prefix_iff)
  have codes: "parse_ops ?codes = Inr (set ops)" by (rule parse_ops_codes [OF assms(2,3)])
  obtain s where s: "new_set (rule_options p) = Inr s" "\<And>path. set_match s path \<longleftrightarrow> is_under path p"
    using new_set_plain_path [OF assms(1)] by blast
  have "parse_rule 1 ?line = Inr \<lparr>ir_ops = Some (set ops), ir_match = s, ir_raw = ?line\<rparr>"
    unfolding parse_rule_def cut option.case prod.case codes sum.case using facts s(1) by simp
  with trim nohash hd have "parse_ignore [?line] = Inr [\<lparr>ir_ops = Some (set ops), ir_match = s, ir_raw = ?line\<rparr>]"
    by (simp add: parse_ignore_def Let_def)
  with s(2) show ?thesis by (intro exI conjI) (assumption, auto simp: ignore_match_def)
qed

theorem ignore_rule_meaning_witness:
  "\<exists>rules. parse_ignore [''~F,%F:/etc/adjtime''] = Inr rules \<and>
     ignore_match (Some rules) OpChangedFile ''/etc/adjtime'' \<and>
     \<not> ignore_match (Some rules) OpRemoved ''/etc/adjtime'' \<and>
     \<not> ignore_match (Some rules) OpChangedFile ''/etc/adjtime2''"
proof -
  have "plain_path ''/etc/adjtime''"
    by (simp add: plain_path_def absolute_def has_prefix_def is_glob_def contains_any_def plain_def
        clean_def clean_step_def Let_def)
  from ignore_rule_meaning [OF this, of "[OpChangedFile, OpChangedMeta]"] obtain rules where
    r: "parse_ignore [''~F,%F:/etc/adjtime''] = Inr rules"
    "\<And>o' path. ignore_match (Some rules) o' path \<longleftrightarrow>
       (o' = OpChangedFile \<or> o' = OpChangedMeta) \<and> is_under path ''/etc/adjtime''"
    by (auto simp: op_string_def)
  then show ?thesis by (intro exI [of _ rules]) (simp add: is_under_iff)
qed

end
