(* ===== verification/Diff_Classify.thy ===== *)
theory Diff_Classify
  imports Diff_Op Humanize Entry
begin

text \<open>
  \<open>internal/diff/classify.go\<close>: the decision table that turns two entries of one path into a
  category and the fact that produced it.
\<close>

text \<open>The arrow of the details, U+2192 between blanks.\<close>

definition arrow :: string where
  "arrow = '' '' @ map (char_of :: nat \<Rightarrow> char) [0xE2, 0x86, 0x92] @ '' ''"

definition compare_unhashed :: "entry \<Rightarrow> entry \<Rightarrow> string" where
  "compare_unhashed old live =
     (let parts = [];
          parts = (if e_size old \<noteq> e_size live
                   then parts @ [''size '' @ bytes_string (e_size old) @ arrow @ bytes_string (e_size live)]
                   else parts);
          parts = (if e_mtime old \<noteq> e_mtime live then parts @ [''mtime changed''] else parts)
      in if parts = [] then []
         else join '', '' parts @ '' (not hashed, so content was not verified)'')"

definition compare_attributes :: "entry \<Rightarrow> entry \<Rightarrow> string" where
  "compare_attributes old live =
     (let parts = [];
          parts = (if e_mode old \<noteq> e_mode live
                   then parts @ [''mode '' @ mode_string (e_mode old) @ arrow @ mode_string (e_mode live)]
                   else parts);
          parts = (if e_uid old \<noteq> e_uid live
                   then parts @ [''uid '' @ decimal (unat (e_uid old)) @ arrow @ decimal (unat (e_uid live))]
                   else parts);
          parts = (if e_gid old \<noteq> e_gid live
                   then parts @ [''gid '' @ decimal (unat (e_gid old)) @ arrow @ decimal (unat (e_gid live))]
                   else parts)
      in join '', '' parts)"

text \<open>The end of \<open>Classify\<close>: the attributes, for every type.\<close>

definition classify_attributes :: "entry \<Rightarrow> entry \<Rightarrow> op \<times> string" where
  "classify_attributes old live =
     (let d = compare_attributes old live in
      if d \<noteq> [] then (if e_type live = type_dir then (OpChangedDir, d) else (OpChangedMeta, d))
      else (OpNone, []))"

definition classify :: "entry \<Rightarrow> entry \<Rightarrow> op \<times> string" where
  "classify old live =
     (if e_err live \<noteq> [] then (OpUnreadable, e_err live)
      else if e_err old \<noteq> []
        then (OpUnreadable, ''unreadable when the fingerprint was taken: '' @ e_err old)
      else if e_type old \<noteq> e_type live
        then (OpTypeChanged, type_string (e_type old) @ arrow @ type_string (e_type live))
      else if e_type live = type_symlink \<and> e_link old \<noteq> e_link live
        then (OpRetargeted, e_link old @ arrow @ e_link live)
      else if e_type live = type_file then
        (if e_hashed old \<and> e_hashed live then
           (if e_hash old \<noteq> e_hash live
            then (OpChangedFile, bytes_string (e_size old) @ arrow @ bytes_string (e_size live))
            else classify_attributes old live)
         else
           let d = compare_unhashed old live in
           if d \<noteq> [] then (OpChangedMeta, d) else classify_attributes old live)
      else classify_attributes old live)"

definition op_for_missing :: "entry \<Rightarrow> bool \<Rightarrow> op" where
  "op_for_missing e added =
     (if e_type e = type_dir \<and> added then OpAddedDir
      else if e_type e = type_dir then OpRemovedDir
      else if added then OpAdded
      else OpRemoved)"

section \<open>The decision table\<close>

lemma arrow_nonempty [simp]: "arrow \<noteq> []"
  by (simp add: arrow_def)

lemma compare_attributes_empty:
  "compare_attributes old live = [] \<longleftrightarrow>
     e_mode old = e_mode live \<and> e_uid old = e_uid live \<and> e_gid old = e_gid live"
  by (simp add: compare_attributes_def Let_def)

lemma compare_unhashed_empty:
  "compare_unhashed old live = [] \<longleftrightarrow> e_size old = e_size live \<and> e_mtime old = e_mtime live"
  by (simp add: compare_unhashed_def Let_def)

lemma fst_classify_attributes:
  "fst (classify_attributes old live) =
     (if e_mode old = e_mode live \<and> e_uid old = e_uid live \<and> e_gid old = e_gid live then OpNone
      else if e_type live = type_dir then OpChangedDir else OpChangedMeta)"
  by (auto simp: classify_attributes_def Let_def compare_attributes_empty [symmetric])

lemma fst_classify:
  "fst (classify old live) =
     (if e_err old \<noteq> [] \<or> e_err live \<noteq> [] then OpUnreadable
      else if e_type old \<noteq> e_type live then OpTypeChanged
      else if e_type live = type_symlink \<and> e_link old \<noteq> e_link live then OpRetargeted
      else if e_type live = type_file \<and> e_hashed old \<and> e_hashed live \<and> e_hash old \<noteq> e_hash live
        then OpChangedFile
      else if e_type live = type_file \<and> \<not> (e_hashed old \<and> e_hashed live) \<and>
          (e_size old \<noteq> e_size live \<or> e_mtime old \<noteq> e_mtime live) then OpChangedMeta
      else if e_mode old \<noteq> e_mode live \<or> e_uid old \<noteq> e_uid live \<or> e_gid old \<noteq> e_gid live
        then (if e_type live = type_dir then OpChangedDir else OpChangedMeta)
      else OpNone)"
  by (cases "e_err live = []"; cases "e_err old = []"; cases "e_type old = e_type live";
      cases "e_type live = type_file"; cases "e_hashed old \<and> e_hashed live")
    (auto simp: classify_def Let_def fst_classify_attributes compare_unhashed_empty simp del: type_codes)

text \<open>
  C14. The decision table of the package, as its documentation states it: the category is
  decided by the first row that applies, readability before type before link target before
  content before size and time (only where a hash is missing) before the attributes; and the
  classifier says nothing exactly when no row applies.
\<close>

theorem classify_table:
  "fst (classify old live) =
     (if e_err old \<noteq> [] \<or> e_err live \<noteq> [] then OpUnreadable
      else if e_type old \<noteq> e_type live then OpTypeChanged
      else if e_type live = type_symlink \<and> e_link old \<noteq> e_link live then OpRetargeted
      else if e_type live = type_file \<and> e_hashed old \<and> e_hashed live \<and> e_hash old \<noteq> e_hash live
        then OpChangedFile
      else if e_type live = type_file \<and> \<not> (e_hashed old \<and> e_hashed live) \<and>
          (e_size old \<noteq> e_size live \<or> e_mtime old \<noteq> e_mtime live) then OpChangedMeta
      else if e_mode old \<noteq> e_mode live \<or> e_uid old \<noteq> e_uid live \<or> e_gid old \<noteq> e_gid live
        then (if e_type live = type_dir then OpChangedDir else OpChangedMeta)
      else OpNone)"
  by (rule fst_classify)

theorem classify_table_witness:
  "fst (classify
     (zero_entry\<lparr>e_type := type_file, e_hashed := True, e_hash := replicate 32 1\<rparr>)
     (zero_entry\<lparr>e_type := type_file, e_hashed := True, e_hash := replicate 32 2, e_mode := 1\<rparr>))
   = OpChangedFile"
  using classify_table
    [of "zero_entry\<lparr>e_type := type_file, e_hashed := True, e_hash := replicate 32 1\<rparr>"
        "zero_entry\<lparr>e_type := type_file, e_hashed := True, e_hash := replicate 32 2, e_mode := 1\<rparr>"]
  by simp

text \<open>
  The modification time is never consulted for a file that was hashed on both sides, nor
  for anything that is not a regular file: whatever the two times are, category and detail
  are the same. And a file can only be reported as changed content when both hashes are
  there and differ.
\<close>

theorem mtime_ignored:
  assumes "(e_hashed old \<and> e_hashed live) \<or> e_type live \<noteq> type_file"
  shows "classify (old\<lparr>e_mtime := a\<rparr>) (live\<lparr>e_mtime := b\<rparr>) = classify old live \<and>
    (fst (classify old live) = OpChangedFile \<longleftrightarrow>
      e_err old = [] \<and> e_err live = [] \<and> e_type old = type_file \<and> e_type live = type_file \<and>
      e_hashed old \<and> e_hashed live \<and> e_hash old \<noteq> e_hash live)"
proof -
  have at: "classify_attributes (old\<lparr>e_mtime := a\<rparr>) (live\<lparr>e_mtime := b\<rparr>) = classify_attributes old live"
    by (simp add: classify_attributes_def compare_attributes_def Let_def)
  have "classify (old\<lparr>e_mtime := a\<rparr>) (live\<lparr>e_mtime := b\<rparr>) = classify old live"
    using assms by (auto simp: classify_def Let_def at)
  then show ?thesis by (auto simp: fst_classify simp del: type_codes) (auto split: if_splits)
qed

theorem mtime_ignored_witness:
  "classify (zero_entry\<lparr>e_type := type_dir, e_mtime := 5\<rparr>) (zero_entry\<lparr>e_type := type_dir, e_mtime := 9\<rparr>)
     = (OpNone, [])"
  using mtime_ignored [of "zero_entry\<lparr>e_type := type_dir\<rparr>" "zero_entry\<lparr>e_type := type_dir\<rparr>" 5 9]
  by (simp add: classify_def classify_attributes_def compare_attributes_def)

end
