(* ===== verification/Diff_Join.thy ===== *)
theory Diff_Join
  imports Diff_Classify Diff_Ignore Store_Cursor
begin

text \<open>
  \<open>internal/diff/merge.go\<close>: the merge join of the fingerprint with the scan. The scan pushes
  entries through \<open>feed\<close> and the fingerprint is pulled through \<open>nxt\<close>, the \<open>Next\<close> of a
  \<open>Source\<close>; \<open>emit\<close> is the callback on a state of its own and \<open>summarize\<close> the optional
  counter of new directories. The two loops pull from a source that the package knows
  nothing about, so they are \<open>partial_function\<close>s: that they end is a theorem about sources
  that satisfy the locale \<open>source\<close>.

  The specification is declarative: the paths of both sides in canonical order, and for each
  the change that the two entries call for.
\<close>

section \<open>The joiner\<close>

record dir_summary =
  ds_files :: i64
  ds_dirs :: i64
  ds_bytes :: i64

record change =
  c_op :: op
  c_path :: string
  c_old :: "entry option"
  c_new :: "entry option"
  c_detail :: string
  c_summary :: "dir_summary option"

record join_options =
  jo_show :: "op set option"
  jo_ignore :: "ignore option"
  jo_summarize :: "(string \<Rightarrow> dir_summary option) option"

record stats =
  st_counts :: "op \<Rightarrow> nat"
  st_ignored :: nat
  st_hidden :: nat
  st_compared :: nat

definition zero_stats :: stats where
  "zero_stats = \<lparr>st_counts = (\<lambda>_. 0), st_ignored = 0, st_hidden = 0, st_compared = 0\<rparr>"

definition stats_total :: "stats \<Rightarrow> nat" where
  "stats_total s = sum_list (map (st_counts s) (OpNone # all_ops))"

datatype 'x join_error = JoinOrder string string | JoinSource store_error | JoinEmit 'x | JoinPanic

record ('s, 'w) joiner =
  j_base :: 's
  j_old :: "entry option"
  j_out :: 'w
  j_stats :: stats
  j_last_live :: string
  j_started :: bool
  j_done :: bool

type_synonym ('s, 'w, 'x) join_result = "('s, 'w) joiner \<times> 'x join_error option"

definition advance ::
    "('s \<Rightarrow> entry pull \<times> 's) \<Rightarrow> ('s, 'w) joiner \<Rightarrow> ('s, 'w, 'x) join_result" where
  "advance nxt j =
     (case nxt (j_base j) of
        (End, s) \<Rightarrow> (j\<lparr>j_base := s, j_old := None\<rparr>, None)
      | (Broken e, s) \<Rightarrow> (j\<lparr>j_base := s\<rparr>, Some (JoinSource e))
      | (Crash, s) \<Rightarrow> (j\<lparr>j_base := s\<rparr>, Some JoinPanic)
      | (Got e, s) \<Rightarrow> (j\<lparr>j_base := s, j_old := Some e\<rparr>, None))"

text \<open>The two filters, in the order of the code.\<close>

definition report ::
    "join_options \<Rightarrow> ('w \<Rightarrow> change \<Rightarrow> 'w \<times> 'x option) \<Rightarrow> ('s, 'w) joiner \<Rightarrow> change
       \<Rightarrow> ('s, 'w, 'x) join_result" where
  "report opts emit j c =
     (let st = j_stats j in
      if ignore_match (jo_ignore opts) (c_op c) (c_path c)
        then (j\<lparr>j_stats := st\<lparr>st_ignored := st_ignored st + 1\<rparr>\<rparr>, None)
      else if (case jo_show opts of None \<Rightarrow> False | Some ops \<Rightarrow> c_op c \<notin> ops)
        then (j\<lparr>j_stats := st\<lparr>st_hidden := st_hidden st + 1\<rparr>\<rparr>, None)
      else
        let c = (case jo_summarize opts of
                   None \<Rightarrow> c
                 | Some f \<Rightarrow> if c_op c = OpAddedDir then c\<lparr>c_summary := f (c_path c)\<rparr> else c);
            j = j\<lparr>j_stats := st\<lparr>st_counts := (st_counts st)(c_op c := st_counts st (c_op c) + 1)\<rparr>\<rparr>
        in case emit (j_out j) c of
             (w, None) \<Rightarrow> (j\<lparr>j_out := w\<rparr>, None)
           | (w, Some x) \<Rightarrow> (j\<lparr>j_out := w\<rparr>, Some (JoinEmit x)))"

definition removed_change :: "entry \<Rightarrow> change" where
  "removed_change e =
     \<lparr>c_op = op_for_missing e False, c_path = e_path e, c_old = Some e, c_new = None,
      c_detail = [], c_summary = None\<rparr>"

definition added_change :: "entry \<Rightarrow> change" where
  "added_change e =
     \<lparr>c_op = op_for_missing e True, c_path = e_path e, c_old = None, c_new = Some e,
      c_detail = [], c_summary = None\<rparr>"

text \<open>\<open>reportRemoved\<close> on the current fingerprint entry.\<close>

definition report_removed ::
    "('s \<Rightarrow> entry pull \<times> 's) \<Rightarrow> join_options \<Rightarrow> ('w \<Rightarrow> change \<Rightarrow> 'w \<times> 'x option) \<Rightarrow> entry
       \<Rightarrow> ('s, 'w) joiner \<Rightarrow> ('s, 'w, 'x) join_result" where
  "report_removed nxt opts emit old j =
     (case report opts emit j (removed_change old) of
        (j, Some x) \<Rightarrow> (j, Some x)
      | (j, None) \<Rightarrow> advance nxt j)"

text \<open>The loop of \<open>Feed\<close> (\<open>lim = Some path\<close>) and the one of \<open>Finish\<close> (\<open>lim = None\<close>).\<close>

partial_function (option) remove_loop ::
    "('s \<Rightarrow> entry pull \<times> 's) \<Rightarrow> join_options \<Rightarrow> ('w \<Rightarrow> change \<Rightarrow> 'w \<times> 'x option) \<Rightarrow> string option
       \<Rightarrow> ('s, 'w) joiner \<Rightarrow> ('s, 'w, 'x) join_result option" where
  "remove_loop nxt opts emit lim j =
     (case j_old j of
        None \<Rightarrow> Some (j, None)
      | Some old \<Rightarrow>
          if (case lim of None \<Rightarrow> True | Some path \<Rightarrow> key_less (e_path old) path)
          then (case report_removed nxt opts emit old j of
                  (j', Some x) \<Rightarrow> Some (j', Some x)
                | (j', None) \<Rightarrow> remove_loop nxt opts emit lim j')
          else Some (j, None))"

definition new_joiner ::
    "('s \<Rightarrow> entry pull \<times> 's) \<Rightarrow> 's \<Rightarrow> 'w \<Rightarrow> ('s, 'w, 'x) join_result" where
  "new_joiner nxt s w =
     advance nxt \<lparr>j_base = s, j_old = None, j_out = w, j_stats = zero_stats, j_last_live = [],
       j_started = False, j_done = False\<rparr>"

text \<open>\<open>Feed\<close> after the loop: the live entry itself.\<close>

definition feed_entry ::
    "('s \<Rightarrow> entry pull \<times> 's) \<Rightarrow> join_options \<Rightarrow> ('w \<Rightarrow> change \<Rightarrow> 'w \<times> 'x option) \<Rightarrow> entry
       \<Rightarrow> ('s, 'w) joiner \<Rightarrow> ('s, 'w, 'x) join_result" where
  "feed_entry nxt opts emit live j =
     (case j_old j of
        Some old \<Rightarrow>
          if e_path old = e_path live then
            let j = j\<lparr>j_stats := (j_stats j)\<lparr>st_compared := st_compared (j_stats j) + 1\<rparr>\<rparr>;
                (o', detail) = classify old live
            in if o' \<noteq> OpNone
               then (case report opts emit j
                       \<lparr>c_op = o', c_path = e_path live, c_old = Some old, c_new = Some live,
                        c_detail = detail, c_summary = None\<rparr> of
                       (j, Some x) \<Rightarrow> (j, Some x)
                     | (j, None) \<Rightarrow> advance nxt j)
               else advance nxt j
          else report opts emit j (added_change live)
      | None \<Rightarrow> report opts emit j (added_change live))"

definition feed ::
    "('s \<Rightarrow> entry pull \<times> 's) \<Rightarrow> join_options \<Rightarrow> ('w \<Rightarrow> change \<Rightarrow> 'w \<times> 'x option) \<Rightarrow> entry
       \<Rightarrow> ('s, 'w) joiner \<Rightarrow> ('s, 'w, 'x) join_result option" where
  "feed nxt opts emit live j =
     (if j_started j \<and> 0 \<le> compare_key (j_last_live j) (e_path live)
      then Some (j, Some (JoinOrder (e_path live) (j_last_live j)))
      else
        let j = j\<lparr>j_last_live := e_path live, j_started := True\<rparr>
        in case remove_loop nxt opts emit (Some (e_path live)) j of
             None \<Rightarrow> None
           | Some (j, Some x) \<Rightarrow> Some (j, Some x)
           | Some (j, None) \<Rightarrow> Some (feed_entry nxt opts emit live j))"

definition finish ::
    "('s \<Rightarrow> entry pull \<times> 's) \<Rightarrow> join_options \<Rightarrow> ('w \<Rightarrow> change \<Rightarrow> 'w \<times> 'x option)
       \<Rightarrow> ('s, 'w) joiner \<Rightarrow> ('s, 'w, 'x) join_result option" where
  "finish nxt opts emit j =
     (if j_done j then Some (j, None)
      else remove_loop nxt opts emit None (j\<lparr>j_done := True\<rparr>))"

fun feed_all ::
    "('s \<Rightarrow> entry pull \<times> 's) \<Rightarrow> join_options \<Rightarrow> ('w \<Rightarrow> change \<Rightarrow> 'w \<times> 'x option) \<Rightarrow> entry list
       \<Rightarrow> ('s, 'w) joiner \<Rightarrow> ('s, 'w, 'x) join_result option" where
  "feed_all nxt opts emit [] j = Some (j, None)"
| "feed_all nxt opts emit (e # es) j =
     (case feed nxt opts emit e j of
        None \<Rightarrow> None
      | Some (j', Some x) \<Rightarrow> Some (j', Some x)
      | Some (j', None) \<Rightarrow> feed_all nxt opts emit es j')"

text \<open>What \<open>compare\<close> does with a joiner.\<close>

definition join_streams ::
    "('s \<Rightarrow> entry pull \<times> 's) \<Rightarrow> join_options \<Rightarrow> ('w \<Rightarrow> change \<Rightarrow> 'w \<times> 'x option) \<Rightarrow> 's \<Rightarrow> entry list
       \<Rightarrow> 'w \<Rightarrow> ('s, 'w, 'x) join_result option" where
  "join_streams nxt opts emit s live w =
     (case new_joiner nxt s w of
        (j, Some x) \<Rightarrow> Some (j, Some x)
      | (j, None) \<Rightarrow>
          (case feed_all nxt opts emit live j of
             None \<Rightarrow> None
           | Some (j, Some x) \<Rightarrow> Some (j, Some x)
           | Some (j, None) \<Rightarrow> finish nxt opts emit j))"


section \<open>The specification\<close>

text \<open>What one path contributes: whether it is on both sides, and its change.\<close>

type_synonym event = "bool \<times> change option"

definition both_event :: "entry \<Rightarrow> entry \<Rightarrow> event" where
  "both_event old live =
     (True,
      case classify old live of (o', detail) \<Rightarrow>
        if o' = OpNone then None
        else Some \<lparr>c_op = o', c_path = e_path live, c_old = Some old, c_new = Some live,
                   c_detail = detail, c_summary = None\<rparr>)"

definition entry_at :: "entry list \<Rightarrow> string \<Rightarrow> entry option" where
  "entry_at es p = find (\<lambda>e. e_path e = p) es"

definition event_at :: "entry list \<Rightarrow> entry list \<Rightarrow> string \<Rightarrow> event" where
  "event_at base live p =
     (case (entry_at base p, entry_at live p) of
        (Some old, Some new) \<Rightarrow> both_event old new
      | (Some old, None) \<Rightarrow> (False, Some (removed_change old))
      | (None, Some new) \<Rightarrow> (False, Some (added_change new))
      | (None, None) \<Rightarrow> (False, None))"

text \<open>Every path of the two sides once, in canonical order.\<close>

definition all_paths :: "entry list \<Rightarrow> entry list \<Rightarrow> string list" where
  "all_paths base live =
     map key_path (sorted_list_of_set (PKey ` e_path ` (set base \<union> set live)))"

definition changes_of :: "entry list \<Rightarrow> entry list \<Rightarrow> change list" where
  "changes_of base live =
     List.map_filter (\<lambda>p. snd (event_at base live p)) (all_paths base live)"

section \<open>The merge of two increasing lists\<close>

fun merge_events :: "entry list \<Rightarrow> entry list \<Rightarrow> event list" where
  "merge_events [] live = map (\<lambda>e. (False, Some (added_change e))) live"
| "merge_events (b # base) [] = (False, Some (removed_change b)) # merge_events base []"
| "merge_events (b # base) (l # live) =
     (if key_less (e_path b) (e_path l)
      then (False, Some (removed_change b)) # merge_events base (l # live)
      else if e_path b = e_path l then both_event b l # merge_events base live
      else (False, Some (added_change l)) # merge_events (b # base) live)"

fun merge_paths :: "entry list \<Rightarrow> entry list \<Rightarrow> string list" where
  "merge_paths [] live = map e_path live"
| "merge_paths (b # base) [] = e_path b # merge_paths base []"
| "merge_paths (b # base) (l # live) =
     (if key_less (e_path b) (e_path l) then e_path b # merge_paths base (l # live)
      else if e_path b = e_path l then e_path b # merge_paths base live
      else e_path l # merge_paths (b # base) live)"

abbreviation increasing :: "entry list \<Rightarrow> bool" where
  "increasing es \<equiv> increasing_keys (map e_path es)"

lemma set_merge_paths: "set (merge_paths base live) = e_path ` (set base \<union> set live)"
  by (induction base live rule: merge_paths.induct) auto

lemma increasing_merge_paths:
  "increasing base \<Longrightarrow> increasing live \<Longrightarrow> increasing_keys (merge_paths base live)"
proof (induction base live rule: merge_paths.induct)
  case (3 b base l live)
  have gt: "key_less (e_path l) (e_path b)"
    if "\<not> key_less (e_path b) (e_path l)" "e_path b \<noteq> e_path l"
    using that canon.not_less_iff [of "e_path b" "e_path l"] by auto
  from 3 gt show ?case
    by (auto simp: set_merge_paths image_Un intro: canon.cmp_trans)
qed (auto simp: set_merge_paths)

lemma all_paths_eq:
  assumes "increasing base" and "increasing live"
  shows "all_paths base live = merge_paths base live"
proof -
  let ?ks = "map PKey (merge_paths base live)"
  have "sorted_wrt (<) ?ks"
    using increasing_merge_paths [OF assms] by (simp add: sorted_wrt_PKey)
  moreover have "set ?ks = PKey ` e_path ` (set base \<union> set live)"
    by (simp add: set_merge_paths)
  ultimately have "sorted_list_of_set (PKey ` e_path ` (set base \<union> set live)) = ?ks"
    by (metis sorted_list_of_set.idem_if_sorted_distinct strict_sorted_iff)
  then show ?thesis by (simp add: all_paths_def o_def)
qed

lemma entry_at_Nil [simp]: "entry_at [] p = None"
  by (simp add: entry_at_def)

lemma entry_at_Cons: "entry_at (e # es) p = (if e_path e = p then Some e else entry_at es p)"
  by (simp add: entry_at_def)

lemma entry_at_None: "entry_at es p = None \<longleftrightarrow> p \<notin> e_path ` set es"
  by (auto simp: entry_at_def find_None_iff)

lemma entry_at_below:
  "increasing (e # es) \<Longrightarrow> key_less p (e_path e) \<Longrightarrow> entry_at (e # es) p = None"
proof -
  assume inc: "increasing (e # es)" and p: "key_less p (e_path e)"
  have "key_less p (e_path x)" if "x \<in> set (e # es)" for x
    using that inc p by (auto intro: canon.cmp_trans)
  then have "p \<notin> e_path ` set (e # es)" by (metis canon.irrefl imageE)
  then show ?thesis by (simp add: entry_at_None)
qed

lemma event_at_cong:
  "entry_at base p = entry_at base' p \<Longrightarrow> entry_at live p = entry_at live' p \<Longrightarrow>
   event_at base live p = event_at base' live' p"
  by (simp add: event_at_def)

lemma entry_at_tail: "increasing (e # es) \<Longrightarrow> key_less (e_path e) p \<Longrightarrow> entry_at (e # es) p = entry_at es p"
  by (auto simp: entry_at_Cons canon.irrefl)

lemma merge_events_eq:
  "increasing base \<Longrightarrow> increasing live \<Longrightarrow>
   merge_events base live = map (event_at base live) (merge_paths base live)"
proof (induction base live rule: merge_events.induct)
  case (1 live)
  have "event_at [] live (e_path e) = (False, Some (added_change e))"
    if "increasing live" "e \<in> set live" for live e
    using that
  proof (induction live)
    case (Cons x live)
    then show ?case by (auto simp: event_at_def entry_at_Cons canon.irrefl)
  qed simp
  with 1 show ?case by simp
next
  case (2 b base)
  have "map (event_at base []) (merge_paths base []) = map (event_at (b # base) []) (merge_paths base [])"
    by (rule map_cong [OF refl], rule event_at_cong)
      (use 2 in \<open>auto simp: set_merge_paths entry_at_tail\<close>)
  with 2 show ?case by (simp add: event_at_def entry_at_Cons)
next
  case (3 b base l live)
  consider (less) "key_less (e_path b) (e_path l)" | (eq) "e_path b = e_path l"
    | (gt) "\<not> key_less (e_path b) (e_path l)" "e_path b \<noteq> e_path l" "key_less (e_path l) (e_path b)"
    using canon.not_less_iff [of "e_path b" "e_path l"] by fastforce
  then show ?case
  proof cases
    case less
    have lb: "\<forall>x\<in>set live. key_less (e_path b) (e_path x)"
      using 3 less by (auto intro: canon.cmp_trans [OF less])
    have "map (event_at base (l # live)) (merge_paths base (l # live))
        = map (event_at (b # base) (l # live)) (merge_paths base (l # live))"
      by (rule map_cong [OF refl], rule event_at_cong)
        (use 3 less lb in \<open>auto simp: set_merge_paths entry_at_tail\<close>)
    moreover have "event_at (b # base) (l # live) (e_path b) = (False, Some (removed_change b))"
      using 3 less entry_at_below by (simp add: event_at_def entry_at_Cons [of b])
    ultimately show ?thesis using 3 less by simp
  next
    case eq
    have "map (event_at base live) (merge_paths base live)
        = map (event_at (b # base) (l # live)) (merge_paths base live)"
      by (rule map_cong [OF refl], rule event_at_cong)
        (use 3 eq in \<open>auto simp: set_merge_paths entry_at_tail\<close>)
    moreover have "event_at (b # base) (l # live) (e_path b) = both_event b l"
      using eq by (simp add: event_at_def entry_at_Cons)
    ultimately show ?thesis using 3 eq by (simp add: canon.irrefl)
  next
    case gt
    have lb: "\<forall>x\<in>set base. key_less (e_path l) (e_path x)"
      using 3 by (auto intro: canon.cmp_trans [OF gt(3)])
    have "map (event_at (b # base) live) (merge_paths (b # base) live)
        = map (event_at (b # base) (l # live)) (merge_paths (b # base) live)"
      by (rule map_cong [OF refl], rule event_at_cong)
        (use 3 gt lb in \<open>auto simp: set_merge_paths entry_at_tail\<close>)
    moreover have "event_at (b # base) (l # live) (e_path l) = (False, Some (added_change l))"
      using 3 gt entry_at_below by (simp add: event_at_def entry_at_Cons [of l])
    ultimately show ?thesis using 3 gt by simp
  qed
qed


section \<open>The joiner computes the specification\<close>

text \<open>
  What a joiner shows to the outside, the callback's state and the counters, and what one
  change and one path do to it when the callback does not fail.
\<close>

definition shown :: "join_options \<Rightarrow> change \<Rightarrow> bool" where
  "shown opts c \<longleftrightarrow> \<not> ignore_match (jo_ignore opts) (c_op c) (c_path c) \<and>
     (case jo_show opts of None \<Rightarrow> True | Some ops \<Rightarrow> c_op c \<in> ops)"

definition summed :: "join_options \<Rightarrow> change \<Rightarrow> change" where
  "summed opts c =
     (case jo_summarize opts of
        None \<Rightarrow> c
      | Some f \<Rightarrow> if c_op c = OpAddedDir then c\<lparr>c_summary := f (c_path c)\<rparr> else c)"

definition core_change ::
    "join_options \<Rightarrow> ('w \<Rightarrow> change \<Rightarrow> 'w \<times> 'x option) \<Rightarrow> 'w \<times> stats \<Rightarrow> change \<Rightarrow> 'w \<times> stats" where
  "core_change opts emit cs c =
     (if ignore_match (jo_ignore opts) (c_op c) (c_path c)
        then (fst cs, (snd cs)\<lparr>st_ignored := st_ignored (snd cs) + 1\<rparr>)
      else if \<not> shown opts c then (fst cs, (snd cs)\<lparr>st_hidden := st_hidden (snd cs) + 1\<rparr>)
      else (fst (emit (fst cs) (summed opts c)),
            (snd cs)\<lparr>st_counts := (st_counts (snd cs))(c_op c := st_counts (snd cs) (c_op c) + 1)\<rparr>))"

definition core_event ::
    "join_options \<Rightarrow> ('w \<Rightarrow> change \<Rightarrow> 'w \<times> 'x option) \<Rightarrow> 'w \<times> stats \<Rightarrow> event \<Rightarrow> 'w \<times> stats" where
  "core_event opts emit cs ev =
     (let cs = (if fst ev then (fst cs, (snd cs)\<lparr>st_compared := st_compared (snd cs) + 1\<rparr>) else cs)
      in case snd ev of None \<Rightarrow> cs | Some c \<Rightarrow> core_change opts emit cs c)"

definition core :: "('s, 'w) joiner \<Rightarrow> 'w \<times> stats" where
  "core j = (j_out j, j_stats j)"

definition with_core :: "('s, 'w) joiner \<Rightarrow> 'w \<times> stats \<Rightarrow> ('s, 'w) joiner" where
  "with_core j cs = j\<lparr>j_out := fst cs, j_stats := snd cs\<rparr>"

lemma with_core_sel [simp]:
  "core (with_core j cs) = cs" "j_base (with_core j cs) = j_base j" "j_old (with_core j cs) = j_old j"
  "j_last_live (with_core j cs) = j_last_live j" "j_started (with_core j cs) = j_started j"
  "j_done (with_core j cs) = j_done j" "j_stats (with_core j cs) = snd cs"
  by (simp_all add: with_core_def core_def)

text \<open>A callback that does not fail as long as its state satisfies \<open>I\<close>, which it keeps.\<close>

definition succeeds_on :: "('w \<Rightarrow> bool) \<Rightarrow> ('w \<Rightarrow> change \<Rightarrow> 'w \<times> 'x option) \<Rightarrow> bool" where
  "succeeds_on I emit \<longleftrightarrow> (\<forall>w c. I w \<longrightarrow> snd (emit w c) = None \<and> I (fst (emit w c)))"

lemma core_change_keeps: "succeeds_on I emit \<Longrightarrow> I (fst cs) \<Longrightarrow> I (fst (core_change opts emit cs c))"
  by (simp add: core_change_def succeeds_on_def)

lemma core_event_keeps:
  assumes "succeeds_on I emit" and "I (fst cs)"
  shows "I (fst (core_event opts emit cs ev))"
proof -
  let ?cs = "if fst ev then (fst cs, (snd cs)\<lparr>st_compared := st_compared (snd cs) + 1\<rparr>) else cs"
  have "I (fst ?cs)" using assms(2) by simp
  from core_change_keeps [OF assms(1) this, of opts] this show ?thesis
    by (cases "snd ev") (simp_all only: core_event_def Let_def option.case)
qed

lemma core_events_keep: "succeeds_on I emit \<Longrightarrow> I (fst cs) \<Longrightarrow> I (fst (foldl (core_event opts emit) cs evs))"
proof (induction evs arbitrary: cs)
  case (Cons ev evs)
  from Cons.IH [OF Cons.prems(1) core_event_keeps [OF Cons.prems]] show ?case by simp
qed simp

lemma report_core:
  assumes "succeeds_on I emit" and "I (fst (core j))"
  shows "report opts emit j c = (with_core j (core_change opts emit (core j) c), None)"
proof -
  have "snd (emit (j_out j) (summed opts c)) = None"
    using assms by (simp add: succeeds_on_def core_def)
  then obtain w where e: "emit (j_out j) (summed opts c) = (w, None)" by (metis prod.collapse)
  have s: "c_op (summed opts c) = c_op c" by (simp add: summed_def split: option.split)
  show ?thesis
    unfolding report_def core_change_def Let_def summed_def [symmetric]
    by (auto simp: e with_core_def core_def shown_def s split: option.split)
qed

context source
begin

text \<open>\<open>stands j B\<close>: the joiner has the fingerprint entries \<open>B\<close> before it.\<close>

definition stands :: "('s, 'w) joiner \<Rightarrow> entry list \<Rightarrow> bool" where
  "stands j B \<longleftrightarrow>
     (case B of
        [] \<Rightarrow> j_old j = None
      | b # bs \<Rightarrow> j_old j = Some b \<and> clean (j_base j) \<and> items (j_base j) = bs)"

lemma stands_with_core [simp]: "stands (with_core j cs) B \<longleftrightarrow> stands j B"
  by (simp add: stands_def split: list.split)

lemma advance_stands:
  assumes "clean (j_base j)" and "items (j_base j) = B"
  shows "\<exists>j'. advance nxt j = (j', None) \<and> stands j' B \<and> core j' = core j \<and>
    j_last_live j' = j_last_live j \<and> j_started j' = j_started j \<and> j_done j' = j_done j"
proof (cases B)
  case Nil
  with nxt_nil assms obtain s where "nxt (j_base j) = (End, s)" by (metis prod.collapse)
  with Nil show ?thesis by (simp add: advance_def stands_def core_def)
next
  case (Cons b bs)
  with nxt_cons assms obtain s where "nxt (j_base j) = (Got b, s)" "clean s" "items s = bs" by blast
  with Cons show ?thesis by (simp add: advance_def stands_def core_def)
qed

lemma remove_loop_stands:
  fixes emit :: "'w \<Rightarrow> change \<Rightarrow> 'w \<times> 'x option"
  assumes ok: "succeeds_on I emit"
  shows "stands j B \<Longrightarrow> I (fst (core j)) \<Longrightarrow>
    \<exists>j'. remove_loop nxt opts emit lim j = Some (j', None) \<and>
      stands j' (dropWhile (\<lambda>b. case lim of None \<Rightarrow> True | Some p \<Rightarrow> key_less (e_path b) p) B) \<and>
      core j' = foldl (core_event opts emit) (core j) (map (\<lambda>b. (False, Some (removed_change b)))
        (takeWhile (\<lambda>b. case lim of None \<Rightarrow> True | Some p \<Rightarrow> key_less (e_path b) p) B)) \<and>
      j_last_live j' = j_last_live j \<and> j_started j' = j_started j \<and> j_done j' = j_done j"
proof (induction B arbitrary: j)
  case Nil
  then show ?case by (simp add: remove_loop.simps stands_def)
next
  case (Cons b B)
  have old: "j_old j = Some b" and src: "clean (j_base j)" "items (j_base j) = B"
    using Cons.prems by (simp_all add: stands_def)
  show ?case
  proof (cases "case lim of None \<Rightarrow> True | Some p \<Rightarrow> key_less (e_path b) p")
    case False
    with old Cons.prems show ?thesis by (simp add: remove_loop.simps)
  next
    case True
    let ?j = "with_core j (core_change opts emit (core j) (removed_change b))"
    have "clean (j_base ?j)" "items (j_base ?j) = B" using src by simp_all
    from advance_stands [OF this] obtain j1 where j1:
      "advance nxt ?j = (j1, None :: 'x join_error option)" "stands j1 B"
      "core j1 = core_change opts emit (core j) (removed_change b)"
      "j_last_live j1 = j_last_live j" "j_started j1 = j_started j" "j_done j1 = j_done j" by auto
    have "report_removed nxt opts emit b j = (j1, None)"
      by (simp add: report_removed_def report_core [OF ok Cons.prems(2)] j1(1))
    with old True have "remove_loop nxt opts emit lim j = remove_loop nxt opts emit lim j1"
      by (subst remove_loop.simps) simp
    moreover have "I (fst (core j1))" using core_change_keeps [OF ok Cons.prems(2)] j1(3) by simp
    ultimately show ?thesis using Cons.IH [OF j1(2)] True j1 by (simp add: core_event_def)
  qed
qed

lemma feed_entry_stands:
  fixes emit :: "'w \<Rightarrow> change \<Rightarrow> 'w \<times> 'x option"
  assumes ok: "succeeds_on I emit" and j: "stands j B" and i: "I (fst (core j))"
  shows "\<exists>j'. feed_entry nxt opts emit l j = (j', None) \<and>
    stands j' (case B of [] \<Rightarrow> [] | b # bs \<Rightarrow> if e_path b = e_path l then bs else B) \<and>
    core j' = core_event opts emit (core j)
      (case B of [] \<Rightarrow> (False, Some (added_change l))
       | b # bs \<Rightarrow> if e_path b = e_path l then both_event b l else (False, Some (added_change l))) \<and>
    j_last_live j' = j_last_live j \<and> j_started j' = j_started j \<and> j_done j' = j_done j"
proof (cases "\<exists>b bs. B = b # bs \<and> e_path b = e_path l")
  case False
  have "feed_entry nxt opts emit l j = report opts emit j (added_change l)"
    using False j by (auto simp: feed_entry_def stands_def split: list.splits)
  with False j show ?thesis
    by (cases B) (auto simp: report_core [OF ok i] core_event_def)
next
  case True
  then obtain b bs where B: "B = b # bs" and eq: "e_path b = e_path l" by blast
  have old: "j_old j = Some b" and src: "clean (j_base j)" "items (j_base j) = bs"
    using j B by (simp_all add: stands_def)
  define cs where "cs = core_event opts emit (core j) (both_event b l)"
  let ?j1 = "j\<lparr>j_stats := (j_stats j)\<lparr>st_compared := st_compared (j_stats j) + 1\<rparr>\<rparr>"
  obtain o' d where cl: "classify b l = (o', d)" by (cases "classify b l")
  have w: "with_core ?j1 cs = with_core j cs" "core ?j1 = (j_out j, (j_stats j)\<lparr>st_compared := st_compared (j_stats j) + 1\<rparr>)"
    by (simp_all add: with_core_def core_def)
  have fe: "feed_entry nxt opts emit l j = advance nxt (with_core j cs)"
  proof (cases "o' = OpNone")
    case True
    then have "?j1 = with_core j cs"
      by (simp add: cs_def core_event_def both_event_def cl with_core_def core_def)
    with True old eq cl show ?thesis by (simp add: feed_entry_def Let_def)
  next
    case False
    have "I (j_out j)" using i by (simp add: core_def)
    with False show ?thesis
      using old eq cl w(1)
      by (simp add: feed_entry_def Let_def report_core [OF ok] w(2) cs_def core_event_def both_event_def core_def)
  qed
  from src have "clean (j_base (with_core j cs))" "items (j_base (with_core j cs)) = bs" by simp_all
  from advance_stands [OF this] obtain j' where
    "advance nxt (with_core j cs) = (j', None :: 'x join_error option)" "stands j' bs" "core j' = cs"
    "j_last_live j' = j_last_live j" "j_started j' = j_started j" "j_done j' = j_done j" by auto
  with fe B eq show ?thesis by (simp add: cs_def)
qed

text \<open>Feeding everything and finishing is the merge.\<close>

lemma merge_events_drop:
  "merge_events B (l # live) =
     map (\<lambda>b. (False, Some (removed_change b))) (takeWhile (\<lambda>b. key_less (e_path b) (e_path l)) B) @
     (case dropWhile (\<lambda>b. key_less (e_path b) (e_path l)) B of
        [] \<Rightarrow> (False, Some (added_change l)) # merge_events [] live
      | b # bs \<Rightarrow> if e_path b = e_path l then both_event b l # merge_events bs live
                  else (False, Some (added_change l)) # merge_events (b # bs) live)"
  by (induction B) (auto simp: canon.irrefl)

lemma merge_events_Nil: "merge_events B [] = map (\<lambda>b. (False, Some (removed_change b))) B"
  by (induction B) auto

lemma feed_stands:
  fixes emit :: "'w \<Rightarrow> change \<Rightarrow> 'w \<times> 'x option"
  assumes ok: "succeeds_on I emit" and j: "stands j B" and i: "I (fst (core j))"
    and ord: "j_started j \<longrightarrow> key_less (j_last_live j) (e_path l)"
  shows "\<exists>j' B'. feed nxt opts emit l j = Some (j', None) \<and> stands j' B' \<and>
    (\<forall>live. foldl (core_event opts emit) (core j) (merge_events B (l # live))
        = foldl (core_event opts emit) (core j') (merge_events B' live)) \<and>
    j_last_live j' = e_path l \<and> j_started j' \<and> j_done j' = j_done j \<and> I (fst (core j'))"
proof -
  let ?j = "j\<lparr>j_last_live := e_path l, j_started := True\<rparr>"
  let ?P = "\<lambda>b. key_less (e_path b) (e_path l)"
  have "stands ?j B" using j by (simp add: stands_def split: list.splits)
  moreover have "I (fst (core ?j))" using i by (simp add: core_def)
  note rl = remove_loop_stands [OF ok _ this, of B opts "Some (e_path l)"]
  ultimately obtain j1 where
    j1: "remove_loop nxt opts emit (Some (e_path l)) ?j = Some (j1, None)" "stands j1 (dropWhile ?P B)"
      "core j1 = foldl (core_event opts emit) (core j)
        (map (\<lambda>b. (False, Some (removed_change b))) (takeWhile ?P B))"
      "j_last_live j1 = e_path l" "j_started j1" "j_done j1 = j_done j"
    using rl by (auto simp: core_def)
  have "I (fst (core j1))" using core_events_keep [OF ok i] j1(3) by simp
  note i2 = core_event_keeps [OF ok this]
  from feed_entry_stands [OF ok j1(2) \<open>I (fst (core j1))\<close>, of opts l] obtain j2 where
    j2: "feed_entry nxt opts emit l j1 = (j2, None)"
      "stands j2 (case dropWhile ?P B of [] \<Rightarrow> [] | b # bs \<Rightarrow> if e_path b = e_path l then bs else dropWhile ?P B)"
      "core j2 = core_event opts emit (core j1)
        (case dropWhile ?P B of [] \<Rightarrow> (False, Some (added_change l))
         | b # bs \<Rightarrow> if e_path b = e_path l then both_event b l else (False, Some (added_change l)))"
      "j_last_live j2 = e_path l" "j_started j2" "j_done j2 = j_done j"
    using j1(4-6) by auto
  have "\<not> (j_started j \<and> 0 \<le> compare_key (j_last_live j) (e_path l))" using ord by auto
  then have "feed nxt opts emit l j = Some (j2, None)"
    unfolding feed_def Let_def using j1(1) j2(1) by simp
  moreover have "foldl (core_event opts emit) (core j) (merge_events B (l # live))
      = foldl (core_event opts emit) (core j2)
        (merge_events (case dropWhile ?P B of [] \<Rightarrow> [] | b # bs \<Rightarrow> if e_path b = e_path l then bs
          else dropWhile ?P B) live)" for live
  proof (cases "dropWhile ?P B")
    case Nil
    then show ?thesis
      unfolding merge_events_drop j2(3) Nil list.case by (simp add: j1(3))
  next
    case (Cons b bs)
    then show ?thesis
      unfolding merge_events_drop j2(3) Cons list.case by (simp add: j1(3))
  qed
  moreover have "I (fst (core j2))" unfolding j2(3) by (rule i2)
  ultimately show ?thesis using j2 by blast
qed

lemma feed_all_stands:
  fixes emit :: "'w \<Rightarrow> change \<Rightarrow> 'w \<times> 'x option"
  assumes ok: "succeeds_on I emit"
  shows "stands j B \<Longrightarrow> I (fst (core j)) \<Longrightarrow> increasing live \<Longrightarrow>
    (live \<noteq> [] \<longrightarrow> j_started j \<longrightarrow> key_less (j_last_live j) (e_path (hd live))) \<Longrightarrow> \<not> j_done j \<Longrightarrow>
    \<exists>j' B'. feed_all nxt opts emit live j = Some (j', None) \<and> stands j' B' \<and> \<not> j_done j' \<and> I (fst (core j')) \<and>
      foldl (core_event opts emit) (core j) (merge_events B live)
        = foldl (core_event opts emit) (core j') (merge_events B' [])"
proof (induction live arbitrary: j B)
  case Nil
  then show ?case by auto
next
  case (Cons l live)
  have "j_started j \<longrightarrow> key_less (j_last_live j) (e_path l)" using Cons.prems(4) by simp
  from feed_stands [OF ok Cons.prems(1,2) this, of opts] obtain j1 B1 where
    j1: "feed nxt opts emit l j = Some (j1, None)" "stands j1 B1"
      "\<And>live. foldl (core_event opts emit) (core j) (merge_events B (l # live))
        = foldl (core_event opts emit) (core j1) (merge_events B1 live)"
      "j_last_live j1 = e_path l" "j_done j1 = j_done j" "I (fst (core j1))" by blast
  have "live \<noteq> [] \<longrightarrow> j_started j1 \<longrightarrow> key_less (j_last_live j1) (e_path (hd live))"
    using Cons.prems(3) j1(4) by (cases live) auto
  with Cons.IH [OF j1(2,6)] Cons.prems j1 show ?case by simp
qed

lemma join_streams_core:
  fixes emit :: "'w \<Rightarrow> change \<Rightarrow> 'w \<times> 'x option"
  assumes ok: "succeeds_on I emit" and i: "I w" and s: "clean s" and live: "increasing live"
  shows "\<exists>j. join_streams nxt opts emit s live w = Some (j, None) \<and>
    core j = foldl (core_event opts emit) (w, zero_stats) (merge_events (items s) live)"
proof -
  let ?j0 = "\<lparr>j_base = s, j_old = None, j_out = w, j_stats = zero_stats, j_last_live = [],
       j_started = False, j_done = False\<rparr>"
  have "clean (j_base ?j0)" "items (j_base ?j0) = items s" using s by simp_all
  from advance_stands [OF this] obtain j1 where
    j1: "new_joiner nxt s w = (j1, None :: 'x join_error option)" "stands j1 (items s)"
      "core j1 = (w, zero_stats)" "\<not> j_started j1" "\<not> j_done j1"
    by (auto simp: new_joiner_def core_def)
  have i1: "I (fst (core j1))" using i j1(3) by simp
  from feed_all_stands [OF ok j1(2) i1 live _ j1(5), of opts] j1(4) obtain j2 B where
    j2: "feed_all nxt opts emit live j1 = Some (j2, None)" "stands j2 B" "\<not> j_done j2" "I (fst (core j2))"
      "foldl (core_event opts emit) (core j1) (merge_events (items s) live)
        = foldl (core_event opts emit) (core j2) (merge_events B [])" by auto
  have "stands (j2\<lparr>j_done := True\<rparr>) B" using j2(2) by (simp add: stands_def split: list.splits)
  moreover have "I (fst (core (j2\<lparr>j_done := True\<rparr>)))" using j2(4) by (simp add: core_def)
  ultimately have rl: "\<exists>j'. remove_loop nxt opts emit None (j2\<lparr>j_done := True\<rparr>) = Some (j', None) \<and>
      core j' = foldl (core_event opts emit) (core j2) (map (\<lambda>b. (False, Some (removed_change b))) (takeWhile (\<lambda>b. True) B))"
    using remove_loop_stands [OF ok, of "j2\<lparr>j_done := True\<rparr>" B opts None] by (auto simp: core_def)
  obtain j3 where
    j3: "remove_loop nxt opts emit None (j2\<lparr>j_done := True\<rparr>) = Some (j3, None)"
      "core j3 = foldl (core_event opts emit) (core j2) (map (\<lambda>b. (False, Some (removed_change b))) B)"
  proof -
    have "takeWhile (\<lambda>b. True) B = B" by (simp add: takeWhile_eq_all_conv)
    with rl that show ?thesis by (auto simp: core_def)
  qed
  from j1(1) j2(1,3) j3(1) have "join_streams nxt opts emit s live w = Some (j3, None)"
    by (simp add: join_streams_def finish_def)
  with j3(2) j2(5) j1(3) show ?thesis by (simp add: merge_events_Nil)
qed

end

end
