(* ===== verification/Diff_Result.thy ===== *)
theory Diff_Result
  imports Diff_Join Store_Session
begin

text \<open>
  What a join reports: the specification's changes through the two filters, in order, with
  counters that account for every one of them. The properties are stated for the cursor of
  \<open>internal/store\<close>, the source that \<open>compare\<close> uses, through its interpretation of the
  locale \<open>source\<close>.
\<close>

text \<open>The callback that keeps what it is given.\<close>

definition collect :: "change list \<Rightarrow> change \<Rightarrow> change list \<times> unit option" where
  "collect w c = (w @ [c], None)"

definition ignored_by :: "join_options \<Rightarrow> change \<Rightarrow> bool" where
  "ignored_by opts c \<longleftrightarrow> ignore_match (jo_ignore opts) (c_op c) (c_path c)"

lemma core_change_collect:
  "core_change opts collect (w, st) c =
     (w @ map (summed opts) (filter (shown opts) [c]),
      st\<lparr>st_counts := (\<lambda>o'. st_counts st o' + (if shown opts c \<and> c_op c = o' then 1 else 0)),
         st_ignored := st_ignored st + (if ignored_by opts c then 1 else 0),
         st_hidden := st_hidden st + (if \<not> ignored_by opts c \<and> \<not> shown opts c then 1 else 0)\<rparr>)"
  by (auto simp: core_change_def collect_def ignored_by_def shown_def fun_eq_iff split: option.splits)

lemma core_events_collect:
  "foldl (core_event opts collect) (w, st) evs =
     (w @ map (summed opts) (filter (shown opts) (List.map_filter snd evs)),
      \<lparr>st_counts = (\<lambda>o'. st_counts st o' +
         length (filter (\<lambda>c. shown opts c \<and> c_op c = o') (List.map_filter snd evs))),
       st_ignored = st_ignored st + length (filter (ignored_by opts) (List.map_filter snd evs)),
       st_hidden = st_hidden st +
         length (filter (\<lambda>c. \<not> ignored_by opts c \<and> \<not> shown opts c) (List.map_filter snd evs)),
       st_compared = st_compared st + length (filter fst evs)\<rparr>)"
proof (induction evs arbitrary: w st)
  case Nil
  then show ?case by (simp add: List.map_filter_def)
next
  case (Cons ev evs)
  obtain b c where ev: "ev = (b, c)" by (cases ev)
  show ?case
  proof (cases c)
    case None
    with ev Cons show ?thesis
      by (simp add: core_event_def List.map_filter_def)
  next
    case (Some c')
    with ev Cons show ?thesis
      by (simp add: core_event_def core_change_collect List.map_filter_def fun_eq_iff)
  qed
qed

lemma map_filter_changes:
  assumes "increasing base" and "increasing live"
  shows "List.map_filter snd (merge_events base live) = changes_of base live"
  by (simp add: merge_events_eq [OF assms] changes_of_def all_paths_eq [OF assms]
      List.map_filter_def filter_map o_def)

text \<open>The join over a fingerprint cursor, with any callback that succeeds.\<close>

lemma cursor_join_core:
  assumes "succeeds_on I emit" and "I w" and "drain dec r c = (base, End)" and "increasing live"
  shows "\<exists>j. join_streams (cursor_next dec r) opts emit c live w = Some (j, None) \<and>
    core j = foldl (core_event opts emit) (w, zero_stats) (merge_events base live)"
proof -
  have "cursor_clean dec r c" "cursor_items dec r c = base"
    using assms(3) by (simp_all add: cursor_clean_def cursor_items_def)
  with cur.join_streams_core [OF assms(1,2) _ assms(4)] show ?thesis by blast
qed

lemma collect_succeeds: "succeeds_on (\<lambda>_. True) collect"
  by (simp add: succeeds_on_def collect_def)

lemma cursor_join:
  assumes "drain dec r c = (base, End)" and "increasing base" and "increasing live"
  shows "\<exists>j. join_streams (cursor_next dec r) opts collect c live [] = Some (j, None) \<and>
    core j = foldl (core_event opts collect) ([], zero_stats) (merge_events base live)"
  by (rule cursor_join_core [OF collect_succeeds TrueI assms(1,3)])

text \<open>
  C7. The join is correct: over a fingerprint cursor that delivers \<open>base\<close> and a scan that
  delivers \<open>live\<close>, both in canonical order, feeding every entry and finishing returns without
  an error, and the callback has received exactly the changes of the specification that pass
  the ignore rules and \<open>--show\<close>, in canonical order: one for every path on one side only and
  one for every path whose two entries the classifier tells apart.
\<close>

theorem join_correct:
  assumes "drain dec r c = (base, End)" and "increasing base" and "increasing live"
  shows "\<exists>j. join_streams (cursor_next dec r) opts collect c live [] = Some (j, None) \<and>
    j_out j = map (summed opts) (filter (shown opts) (changes_of base live))"
proof -
  obtain j where j: "join_streams (cursor_next dec r) opts collect c live [] = Some (j, None)"
    "core j = foldl (core_event opts collect) ([], zero_stats) (merge_events base live)"
    using cursor_join [OF assms] by blast
  then have "j_out j = map (summed opts) (filter (shown opts) (changes_of base live))"
    by (simp add: core_def core_events_collect map_filter_changes [OF assms(2,3)])
  with j(1) show ?thesis by blast
qed

lemma length_filter_three:
  "(\<And>x. P x \<Longrightarrow> \<not> Q x) \<Longrightarrow>
   length xs = length (filter P xs) + length (filter Q xs) + length (filter (\<lambda>x. \<not> Q x \<and> \<not> P x) xs)"
  by (induction xs) auto

lemma count_common:
  assumes "increasing base" and "increasing live"
  shows "length (filter fst (merge_events base live))
    = card (e_path ` set base \<inter> e_path ` set live)"
proof -
  let ?ps = "merge_paths base live"
  have fst_ev: "fst (event_at base live p) \<longleftrightarrow> p \<in> e_path ` set base \<inter> e_path ` set live" for p
    using entry_at_None [of base p] entry_at_None [of live p]
    by (auto simp: event_at_def both_event_def split: option.splits prod.splits)
  have "length (filter fst (merge_events base live))
      = length (filter (\<lambda>p. p \<in> e_path ` set base \<inter> e_path ` set live) ?ps)"
    by (simp add: merge_events_eq [OF assms] filter_map o_def fst_ev)
  also have "\<dots> = card (set (filter (\<lambda>p. p \<in> e_path ` set base \<inter> e_path ` set live) ?ps))"
    by (rule distinct_card [symmetric])
      (use canon.increasing_distinct [OF increasing_merge_paths [OF assms]] in simp)
  also have "set (filter (\<lambda>p. p \<in> e_path ` set base \<inter> e_path ` set live) ?ps)
      = e_path ` set base \<inter> e_path ` set live"
    by (auto simp: set_merge_paths)
  finally show ?thesis .
qed

text \<open>
  C13. The summary accounts for everything: the counter of each category is the number of its
  changes in the report, and reported, ignored and hidden add up to all the changes there
  are, so a filter never makes a difference disappear uncounted; \<open>Compared\<close> is the number of
  paths that both sides have.
\<close>

theorem join_stats_account:
  assumes "drain dec r c = (base, End)" and "increasing base" and "increasing live"
  shows "\<exists>j. join_streams (cursor_next dec r) opts collect c live [] = Some (j, None) \<and>
    (\<forall>o'. st_counts (j_stats j) o' = length (filter (\<lambda>x. c_op x = o') (j_out j))) \<and>
    st_ignored (j_stats j) = length (filter (ignored_by opts) (changes_of base live)) \<and>
    length (changes_of base live)
      = length (j_out j) + st_ignored (j_stats j) + st_hidden (j_stats j) \<and>
    st_compared (j_stats j) = card (e_path ` set base \<inter> e_path ` set live)"
proof -
  let ?cs = "changes_of base live"
  obtain j where j: "join_streams (cursor_next dec r) opts collect c live [] = Some (j, None)"
    "core j = foldl (core_event opts collect) ([], zero_stats) (merge_events base live)"
    using cursor_join [OF assms] by blast
  then have out: "j_out j = map (summed opts) (filter (shown opts) ?cs)"
    and st: "st_counts (j_stats j) = (\<lambda>o'. length (filter (\<lambda>c. shown opts c \<and> c_op c = o') ?cs))"
      "st_ignored (j_stats j) = length (filter (ignored_by opts) ?cs)"
      "st_hidden (j_stats j) = length (filter (\<lambda>c. \<not> ignored_by opts c \<and> \<not> shown opts c) ?cs)"
      "st_compared (j_stats j) = length (filter fst (merge_events base live))"
    by (simp_all add: core_def core_events_collect map_filter_changes [OF assms(2,3)] zero_stats_def)
  have op: "c_op (summed opts x) = c_op x" for x by (simp add: summed_def split: option.split)
  have "length (filter (\<lambda>c. shown opts c \<and> c_op c = o') ?cs)
      = length (filter (\<lambda>x. c_op x = o') (j_out j))" for o'
    by (simp add: out filter_map o_def op conj_commute)
  moreover have "length ?cs = length (j_out j) + st_ignored (j_stats j) + st_hidden (j_stats j)"
    unfolding out st length_map
    by (rule length_filter_three) (simp add: shown_def ignored_by_def)
  ultimately show ?thesis using j(1) st count_common [OF assms(2,3)] by auto
qed


section \<open>What the changes are\<close>




text \<open>
  A system that has not changed gives an empty report, as long as everything could be read:
  the join of a stream with itself has no change at all.
\<close>

theorem join_with_itself:
  assumes "increasing es" and "\<forall>e\<in>set es. e_err e = []"
  shows "changes_of es es = []"
proof -
  have "snd (event_at es es p) = None" for p
  proof (cases "entry_at es p")
    case None
    then show ?thesis by (simp add: event_at_def)
  next
    case (Some e)
    then have "e \<in> set es" by (auto simp: entry_at_def find_Some_iff)
    then have "fst (classify e e) = OpNone" using assms(2) by (simp add: fst_classify)
    with Some show ?thesis
      by (cases "classify e e") (simp add: event_at_def both_event_def)
  qed
  then show ?thesis by (simp add: changes_of_def List.map_filter_def)
qed

section \<open>Errors of the join\<close>

text \<open>
  A scan that leaves canonical order is stopped before anything is reported for the
  offending entry: \<open>Feed\<close> returns the error that names the two paths, and neither the
  callback nor a counter nor the fingerprint cursor has moved.
\<close>

theorem feed_out_of_order:
  assumes "j_started j" and "\<not> key_less (j_last_live j) (e_path e)"
  shows "feed nxt opts emit e j = Some (j, Some (JoinOrder (e_path e) (j_last_live j)))"
  using assms by (simp add: feed_def)

text \<open>
  A failure of the callback is never swallowed: when it fails on a change that passes the
  filters, the report of that change returns its error, with whatever state the callback
  left, and the fingerprint cursor stays where it is.
\<close>

theorem report_error_stops:
  assumes "shown opts c" and "emit (j_out j) (summed opts c) = (w, Some x)"
  shows "\<exists>j'. report opts emit j c = (j', Some (JoinEmit x)) \<and> j_out j' = w \<and> j_base j' = j_base j"
proof -
  have "\<not> ignore_match (jo_ignore opts) (c_op c) (c_path c)"
    "\<not> (case jo_show opts of None \<Rightarrow> False | Some ops \<Rightarrow> c_op c \<notin> ops)"
    using assms(1) by (auto simp: shown_def split: option.splits)
  with assms(2) show ?thesis
    by (simp add: report_def Let_def summed_def)
qed

section \<open>Concrete joins\<close>

definition sample_reader :: reader where
  "sample_reader = image_reader (\<lambda>p. p) [] sample_meta [[sample_entry]]"

lemma sample_drain: "drain Some sample_reader (reader_cursor sample_reader) = ([sample_entry], End)"
proof -
  obtain dev' where w: "write_fingerprint (\<lambda>p. p) (\<lambda>m. Some []) empty_device sample_meta [sample_entry]
      = Inr dev'" using sample_written by blast
  have "dev_data empty_device = []" "\<forall>e\<in>set [sample_entry]. entry_wf e \<and> entry_fits e"
    using sample_stored by (simp_all add: empty_device_def stored_def)
  from write_fingerprint_image [OF w this] have "blocks_ok (chunks [] [sample_entry])" by blast
  from image_delivers(1) [OF zstd_ok_stored sample_stored this sample_sizes, of sample_meta]
  show ?thesis by (simp only: sample_reader_def sample_chunks)
qed

definition new_file :: entry where
  "new_file = zero_entry\<lparr>e_path := ''/usr/x'', e_type := type_file\<rparr>"

definition plain_options :: join_options where
  "plain_options = \<lparr>jo_show = None, jo_ignore = None, jo_summarize = None\<rparr>"

lemma sample_changes:
  "changes_of [sample_entry] [new_file] = [removed_change sample_entry, added_change new_file]"
proof -
  have "increasing [sample_entry]" "increasing [new_file]" by simp_all
  from map_filter_changes [OF this] show ?thesis
    by (simp add: sample_entry_def new_file_def List.map_filter_def)
qed

theorem join_correct_witness:
  "\<exists>j. join_streams (cursor_next Some sample_reader) plain_options collect
       (reader_cursor sample_reader) [new_file] [] = Some (j, None) \<and>
     j_out j = [removed_change sample_entry, added_change new_file]"
  using join_correct [OF sample_drain, of "[new_file]" plain_options]
  by (simp add: sample_changes shown_def summed_def plain_options_def ignore_match_def)

theorem join_stats_account_witness:
  "\<exists>j. join_streams (cursor_next Some sample_reader) plain_options collect
       (reader_cursor sample_reader) [new_file] [] = Some (j, None) \<and>
     length (j_out j) + st_ignored (j_stats j) + st_hidden (j_stats j) = 2"
  using join_stats_account [OF sample_drain, of "[new_file]" plain_options]
  by (auto simp: sample_changes)


theorem join_with_itself_witness: "changes_of [sample_entry] [sample_entry] = []"
  by (rule join_with_itself) (simp_all add: sample_entry_def)

definition sample_joiner :: "(unit, change list) joiner" where
  "sample_joiner = \<lparr>j_base = (), j_old = None, j_out = [], j_stats = zero_stats,
     j_last_live = ''/usr'', j_started = True, j_done = False\<rparr>"

theorem feed_out_of_order_witness:
  "feed (\<lambda>s. (End, s)) plain_options collect sample_entry sample_joiner
     = Some (sample_joiner, Some (JoinOrder ''/etc'' ''/usr''))"
  using feed_out_of_order [of sample_joiner sample_entry "\<lambda>s. (End, s)" plain_options collect]
  by (simp add: sample_joiner_def sample_entry_def)

theorem report_error_stops_witness:
  "\<exists>j'. report plain_options (\<lambda>w c. (w, Some ''disk full'')) sample_joiner (added_change new_file)
     = (j', Some (JoinEmit ''disk full''))"
  using report_error_stops [of plain_options "added_change new_file" "\<lambda>w c. (w, Some ''disk full'')"
      sample_joiner "[]" "''disk full''"]
  by (auto simp: shown_def plain_options_def ignore_match_def sample_joiner_def)

end
