(* ===== verification/Go_Text.thy ===== *)
theory Go_Text
  imports Go_Strings
begin

text \<open>
  The functions of \<open>strings\<close> that the parsers of text files use: substrings, fields, trimming
  of a set of bytes and the two that depend on letter case.
\<close>

section \<open>Substrings\<close>

fun contains :: "string \<Rightarrow> string \<Rightarrow> bool" where
  "contains [] p \<longleftrightarrow> p = []"
| "contains (c # s) p \<longleftrightarrow> has_prefix (c # s) p \<or> contains s p"

text \<open>\<open>strings.Cut\<close> at a separator of several bytes: the first occurrence.\<close>

fun cut_at :: "string \<Rightarrow> string \<Rightarrow> (string \<times> string) option" where
  "cut_at sep [] = (if sep = [] then Some ([], []) else None)"
| "cut_at sep (c # s) =
     (if has_prefix (c # s) sep then Some ([], drop (length sep) (c # s))
      else case cut_at sep s of None \<Rightarrow> None | Some (a, b) \<Rightarrow> Some (c # a, b))"

text \<open>\<open>strings.Trim(s, cutset)\<close> for a cutset of ASCII bytes.\<close>

definition trim_bytes :: "string \<Rightarrow> string \<Rightarrow> string" where
  "trim_bytes s cutset =
     rev (dropWhile (\<lambda>c. c \<in> set cutset) (rev (dropWhile (\<lambda>c. c \<in> set cutset) s)))"

lemma trim_bytes_set: "c \<in> set (trim_bytes s cutset) \<Longrightarrow> c \<in> set s"
  by (auto simp: trim_bytes_def dest!: set_dropWhileD)

lemma length_trim_bytes: "length (trim_bytes s cutset) \<le> length s"
proof -
  have "length (trim_bytes s cutset) \<le> length (dropWhile (\<lambda>c. c \<in> set cutset) s)"
    using length_dropWhile_le [of _ "rev (dropWhile (\<lambda>c. c \<in> set cutset) s)"]
    by (simp add: trim_bytes_def)
  also have "\<dots> \<le> length s" by (rule length_dropWhile_le)
  finally show ?thesis .
qed

lemma trim_bytes_last: "trim_bytes s cutset \<noteq> [] \<Longrightarrow> last (trim_bytes s cutset) \<notin> set cutset"
  using hd_dropWhile [of "\<lambda>c. c \<in> set cutset" "rev (dropWhile (\<lambda>c. c \<in> set cutset) s)"]
  by (simp add: trim_bytes_def last_rev del: dropWhile_eq_Nil_conv)

lemma trim_bytes_hd:
  assumes "trim_bytes s cutset \<noteq> []"
  shows "hd (trim_bytes s cutset) \<notin> set cutset"
proof -
  let ?P = "\<lambda>c. c \<in> set cutset"
  define a where "a = dropWhile ?P s"
  have b: "trim_bytes s cutset = rev (dropWhile ?P (rev a))" by (simp add: trim_bytes_def a_def)
  have "rev a = takeWhile ?P (rev a) @ dropWhile ?P (rev a)" by simp
  then have e: "a = trim_bytes s cutset @ rev (takeWhile ?P (rev a))" unfolding b by (metis rev_append rev_rev_ident)
  then have "hd a = hd (trim_bytes s cutset)" using assms by (metis hd_append2)
  moreover have "a \<noteq> []" using e assms by auto
  then have "hd a \<notin> set cutset" unfolding a_def by (rule hd_dropWhile)
  ultimately show ?thesis by simp
qed

lemma trim_bytes_fix:
  assumes "s \<noteq> [] \<Longrightarrow> hd s \<notin> set cutset \<and> last s \<notin> set cutset"
  shows "trim_bytes s cutset = s"
proof (cases "s = []")
  case False
  then have "dropWhile (\<lambda>c. c \<in> set cutset) s = s" using assms by (cases s) auto
  moreover have "dropWhile (\<lambda>c. c \<in> set cutset) (rev s) = rev s"
    using assms False by (cases "rev s") (auto simp: hd_rev [symmetric])
  ultimately show ?thesis by (simp add: trim_bytes_def)
qed (simp add: trim_bytes_def)

section \<open>Fields\<close>

text \<open>
  \<open>strings.Fields\<close>: the runs between white space. A white-space rune starts with a byte that
  never continues another rune, so it can be looked for byte by byte; \<open>skip\<close> counts the
  bytes of the rune that is being passed over.
\<close>

fun fields_from :: "nat \<Rightarrow> string \<Rightarrow> string \<Rightarrow> string list" where
  "fields_from skip cur [] = (if cur = [] then [] else [cur])"
| "fields_from (Suc skip) cur (c # s) = fields_from skip cur s"
| "fields_from 0 cur (c # s) =
     (case find (has_prefix (c # s)) spaces of
        None \<Rightarrow> fields_from 0 (cur @ [c]) s
      | Some q \<Rightarrow> (if cur = [] then [] else [cur]) @ fields_from (length q - 1) [] s)"

definition str_fields :: "string \<Rightarrow> string list" where
  "str_fields s = fields_from 0 [] s"

lemma fields_from_plain: "plain c \<Longrightarrow> fields_from 0 cur (c # s) = fields_from 0 (cur @ [c]) s"
proof -
  assume "plain c"
  with spaces_not_plain have "find (has_prefix (c # s)) spaces = None"
    by (force simp: find_None_iff has_prefix_iff Cons_eq_append_conv)
  then show ?thesis by simp
qed

lemma fields_from_blank:
  "fields_from 0 cur (CHR '' '' # s) = (if cur = [] then [] else [cur]) @ fields_from 0 [] s"
proof -
  have blank: "CHR '' '' = char_of n \<longleftrightarrow> take_bit 8 n = 32" for n :: nat
    using char_of_eq_iff [of n "CHR '' ''"] by (simp add: eq_commute [of "CHR '' ''"])
  have "find (has_prefix (CHR '' '' # s)) spaces = Some '' ''"
    by (simp add: spaces_def has_prefix_def blank char_of_eq_iff)
  then show ?thesis by simp
qed

declare fields_from.simps(3) [simp del]

lemma fields_from_nonempty: "f \<in> set (fields_from skip cur s) \<Longrightarrow> f \<noteq> []"
  by (induction skip cur s rule: fields_from.induct) (auto simp: fields_from.simps(3) split: option.splits if_splits)

lemma fields_nonempty: "f \<in> set (str_fields s) \<Longrightarrow> f \<noteq> []"
  using fields_from_nonempty by (auto simp: str_fields_def)

section \<open>Letter case\<close>

definition ascii :: "char \<Rightarrow> bool" where
  "ascii c \<longleftrightarrow> (of_char c :: nat) < 128"

definition is_upper :: "char \<Rightarrow> bool" where
  "is_upper c \<longleftrightarrow> 65 \<le> (of_char c :: nat) \<and> (of_char c :: nat) \<le> 90"

definition is_lower :: "char \<Rightarrow> bool" where
  "is_lower c \<longleftrightarrow> 97 \<le> (of_char c :: nat) \<and> (of_char c :: nat) \<le> 122"

definition is_digit :: "char \<Rightarrow> bool" where
  "is_digit c \<longleftrightarrow> 48 \<le> (of_char c :: nat) \<and> (of_char c :: nat) \<le> 57"

definition lower_char :: "char \<Rightarrow> char" where
  "lower_char c = (if is_upper c then char_of ((of_char c :: nat) + 32) else c)"

text \<open>
  \<open>strings.ToLower\<close>: the library maps an ASCII string byte by byte and any other string by
  the Unicode tables, which are the argument \<open>unicode\<close>.
\<close>

definition to_lower :: "(string \<Rightarrow> string) \<Rightarrow> string \<Rightarrow> string" where
  "to_lower unicode s = (if list_all ascii s then map lower_char s else unicode s)"

text \<open>
  \<open>strings.EqualFold\<close> against an ASCII string. Two code points outside ASCII fold to an
  ASCII letter, U+017F to s and U+212A to k; no other rune folds to an ASCII one.
\<close>

fun fold_ascii :: "string \<Rightarrow> string" where
  "fold_ascii [] = []"
| "fold_ascii (c # s) =
     (if has_prefix (c # s) [CHR 0xC5, CHR 0xBF] then CHR ''s'' # fold_ascii (drop 1 s)
      else if has_prefix (c # s) [CHR 0xE2, CHR 0x84, CHR 0xAA] then CHR ''k'' # fold_ascii (drop 2 s)
      else lower_char c # fold_ascii s)"

definition equal_fold_ascii :: "string \<Rightarrow> string \<Rightarrow> bool" where
  "equal_fold_ascii s t \<longleftrightarrow> fold_ascii s = fold_ascii t"

lemma lower_char_lower: "is_upper c \<Longrightarrow> is_lower (lower_char c)"
  by (auto simp: lower_char_def is_upper_def is_lower_def)

lemma lower_char_other: "\<not> is_upper c \<Longrightarrow> lower_char c = c"
  by (simp add: lower_char_def)

end
