(* ===== verification/Fs_Type.thy ===== *)
theory Fs_Type
  imports Go_Text
begin

text \<open>
  \<open>internal/scan/fstype.go\<close> and its per-system halves, \<open>vfs.go\<close> and \<open>internal/cstr\<close>: what
  the scan makes of the filesystem it meets at a mount point. The system call is a parameter:
  \<open>None\<close> when it fails, otherwise the number or the character array it fills in.
\<close>

section \<open>fstype.go\<close>

datatype fs_kind = FSLocal | FSPseudo | FSNetwork | FSUnknown

definition fs_kind_string :: "fs_kind \<Rightarrow> string" where
  "fs_kind_string k =
     (case k of
        FSPseudo \<Rightarrow> ''pseudo filesystem''
      | FSNetwork \<Rightarrow> ''network filesystem''
      | FSUnknown \<Rightarrow> ''unidentified filesystem''
      | FSLocal \<Rightarrow> ''local filesystem'')"

definition pseudo_filesystems :: "string list" where
  "pseudo_filesystems =
     [''proc'', ''procfs'', ''linprocfs'', ''sysfs'', ''linsysfs'', ''devfs'', ''devtmpfs'',
      ''devpts'', ''ptyfs'', ''ptsfs'', ''kernfs'', ''fdescfs'', ''fdesc'', ''debugfs'', ''tracefs'',
      ''securityfs'', ''selinuxfs'', ''configfs'', ''binfmt_misc'', ''bpf'', ''pstore'', ''efivarfs'',
      ''mqueue'', ''hugetlbfs'', ''cgroup'', ''cgroup2'', ''fusectl'', ''objfs'', ''ctfs'', ''sharefs'',
      ''mntfs'', ''dev'', ''fd'', ''bootfs'', ''tmpfs'', ''ramfs'', ''mfs'', ''autofs'', ''ahafs'']"

definition network_filesystems :: "string list" where
  "network_filesystems =
     [''nfs'', ''nfs3'', ''nfs4'', ''nfsv4'', ''cifs'', ''smbfs'', ''smb2'', ''smb3'', ''afs'', ''9p'',
      ''ceph'', ''glusterfs'', ''sshfs'', ''lofs'', ''namefs'']"

text \<open>
  \<open>classifyFS\<close> on the answer of \<open>fsTypeName\<close>; the network table is an argument because AIX
  adds to it at run time.
\<close>

definition classify_fs :: "string list \<Rightarrow> string \<times> bool \<Rightarrow> string \<times> fs_kind" where
  "classify_fs network ans =
     (case ans of (name, ok) \<Rightarrow>
        if \<not> ok then (name, FSUnknown)
        else if name \<in> set pseudo_filesystems then (name, FSPseudo)
        else if name \<in> set network then (name, FSNetwork)
        else (name, FSLocal))"

section \<open>The per-system halves\<close>

definition linux_magics :: "(u32 \<times> string) list" where
  "linux_magics =
     [(0x9fa0, ''proc''), (0x62656572, ''sysfs''), (0x1cd1, ''devpts''), (0x1373, ''devfs''),
      (0x01021994, ''tmpfs''), (0x858458f6, ''ramfs''), (0x0027e0eb, ''cgroup''),
      (0x63677270, ''cgroup2''), (0x64626720, ''debugfs''), (0x74726163, ''tracefs''),
      (0x73636673, ''securityfs''), (0xf97cff8c, ''selinuxfs''), (0x6165676c, ''pstore''),
      (0xde5e81e4, ''efivarfs''), (0xcafe4a11, ''bpf''), (0x42494e4d, ''binfmt_misc''),
      (0x62656570, ''configfs''), (0x19800202, ''mqueue''), (0x958458f6, ''hugetlbfs''),
      (0x6969, ''nfs''), (0xff534d42, ''cifs''), (0x517b, ''smbfs''), (0x0187, ''autofs''),
      (0x65735543, ''fusectl'')]"

text \<open>Linux, where \<open>Statfs_t.Type\<close> is an \<open>int64\<close>: the table is keyed by its low half.\<close>

definition fs_name_linux :: "i64 option \<Rightarrow> string \<times> bool" where
  "fs_name_linux st =
     (case st of
        None \<Rightarrow> ([], False)
      | Some ty \<Rightarrow> (case map_of linux_magics (ucast ty) of None \<Rightarrow> ([], True) | Some n \<Rightarrow> (n, True)))"

text \<open>\<open>cstr.String\<close>: up to the first NUL, or the whole array.\<close>

definition cstr :: "byte list \<Rightarrow> string" where
  "cstr cs = string_of (takeWhile (\<lambda>c. c \<noteq> 0) cs)"

definition fs_name_bsd :: "byte list option \<Rightarrow> string \<times> bool" where
  "fs_name_bsd st = (case st of None \<Rightarrow> ([], False) | Some name \<Rightarrow> (cstr name, True))"

definition fs_name_other :: "string \<Rightarrow> string \<times> bool" where
  "fs_name_other path = ([], False)"

section \<open>vfs.go\<close>

definition builtin_vfs :: "(int \<times> string) list" where
  "builtin_vfs =
     [(0, ''jfs2''), (1, ''namefs''), (2, ''nfs''), (3, ''jfs''), (5, ''cdrfs''), (6, ''procfs''),
      (18, ''nfs3''), (19, ''autofs''), (35, ''nfs4''), (37, ''cifs''), (39, ''ahafs'')]"

text \<open>
  \<open>bufio.Scanner\<close> with its default split: lines without their newline and a carriage
  return before it, and no empty line after a final newline. \<open>strconv.ParseInt(s, 10, 32)\<close>.
\<close>

definition drop_cr :: "string \<Rightarrow> string" where
  "drop_cr l = (if l \<noteq> [] \<and> last l = CHR 13 then butlast l else l)"

definition scan_lines :: "string \<Rightarrow> string list" where
  "scan_lines s =
     (let ls = split_at CHR 10 s
      in map drop_cr (if last ls = [] then butlast ls else ls))"

definition parse_int32 :: "string \<Rightarrow> int option" where
  "parse_int32 s =
     (let neg = (s \<noteq> [] \<and> hd s = CHR ''-'');
          ds = (if s \<noteq> [] \<and> (hd s = CHR ''-'' \<or> hd s = CHR ''+'') then tl s else s);
          v = int (base_value 10 0 ds)
      in if ds = [] \<or> \<not> list_all is_digit ds then None
         else if neg then (if v \<le> 2 ^ 31 then Some (- v) else None)
         else if v < 2 ^ 31 then Some v else None)"

text \<open>One line of \<open>/etc/vfs\<close>: nothing, or the number, the name and whether it is remote.\<close>

definition vfs_line :: "string \<Rightarrow> (int \<times> string \<times> bool) option" where
  "vfs_line raw =
     (let line = trim_space raw in
      if line = [] \<or> hd line = CHR ''#'' \<or> hd line = CHR ''%'' then None
      else case str_fields line of
             name # num # rest \<Rightarrow>
               (case parse_int32 num of
                  None \<Rightarrow> None
                | Some n \<Rightarrow> Some (n, name, ''remote'' \<in> set rest))
           | _ \<Rightarrow> None)"

definition parse_vfs_table :: "string \<Rightarrow> (int \<rightharpoonup> string) \<times> string list" where
  "parse_vfs_table content =
     foldl (\<lambda>(names, remote) l.
         case vfs_line l of
           None \<Rightarrow> (names, remote)
         | Some (n, name, rem) \<Rightarrow>
             (names(n \<mapsto> name), if rem then remote @ [name] else remote))
       (Map.empty, []) (scan_lines content)"

text \<open>\<open>loadVFS\<close>: the names over the built-in ones, and the network table with the remote ones.\<close>

definition load_vfs :: "string option \<Rightarrow> (int \<rightharpoonup> string) \<times> string list" where
  "load_vfs content =
     (case content of
        None \<Rightarrow> (map_of builtin_vfs, network_filesystems)
      | Some s \<Rightarrow>
          (case parse_vfs_table s of (names, remote) \<Rightarrow>
             (map_of builtin_vfs ++ names,
              network_filesystems @ filter (\<lambda>n. n \<notin> set pseudo_filesystems) remote)))"

definition fs_name_aix :: "(int \<rightharpoonup> string) \<Rightarrow> int option \<Rightarrow> string \<times> bool" where
  "fs_name_aix names st =
     (case st of
        None \<Rightarrow> ([], False)
      | Some n \<Rightarrow> (case names n of Some name \<Rightarrow> (name, True) | None \<Rightarrow> (''vfs '' @ int_dec n, False)))"

section \<open>Properties\<close>

text \<open>The two tables are disjoint, so the order of the two tests does not matter.\<close>

lemma tables_disjoint: "set pseudo_filesystems \<inter> set network_filesystems = {}"
  by (simp add: pseudo_filesystems_def network_filesystems_def)

text \<open>
  A filesystem whose type the system could not tell is never taken for a local one, and on
  Linux every magic number of the table is, whatever the upper half of the field holds, a
  kernel or a network filesystem: an unnamed type is the only way to \<open>FSLocal\<close>.
\<close>

theorem linux_local_is_unnamed:
  "snd (classify_fs network_filesystems (fs_name_linux st)) = FSLocal
     \<longleftrightarrow> (\<exists>ty. st = Some ty \<and> map_of linux_magics (ucast ty) = None)"
proof -
  have "n \<in> set pseudo_filesystems \<or> n \<in> set network_filesystems" if "(m, n) \<in> set linux_magics" for m n
    using that by (auto simp: linux_magics_def pseudo_filesystems_def network_filesystems_def)
  then have t: "map_of linux_magics m = Some n \<Longrightarrow> n \<in> set pseudo_filesystems \<or> n \<in> set network_filesystems" for m n
    by (blast dest: map_of_SomeD)
  have e: "[] \<notin> set pseudo_filesystems" "[] \<notin> set network_filesystems"
    by (simp_all add: pseudo_filesystems_def network_filesystems_def)
  show ?thesis
    using t e by (auto simp: fs_name_linux_def classify_fs_def split: option.splits)
qed

text \<open>
  On AIX a type that \<open>/etc/vfs\<close> flags remote is a network filesystem, whether or not the
  built-in table knows it, unless it is a pseudo filesystem; so the scan stops there under
  the default policy.
\<close>

theorem aix_remote_is_network:
  assumes "vfs_line l = Some (n, name, True)" and "name \<notin> set pseudo_filesystems"
    and "load_vfs (Some s) = (names, network)" and "l \<in> set (scan_lines s)"
  shows "snd (classify_fs network (name, True)) = FSNetwork"
proof -
  let ?step = "\<lambda>(names, remote) l. case vfs_line l of
        None \<Rightarrow> (names, remote)
      | Some (n, name, rem) \<Rightarrow> (names(n \<mapsto> name), if rem then remote @ [name] else remote)"
  have keep: "name \<in> set (snd acc) \<Longrightarrow> name \<in> set (snd (foldl ?step acc ls))" for acc ls
    by (induction ls arbitrary: acc) (auto split: option.splits)
  have "l \<in> set ls \<Longrightarrow> name \<in> set (snd (foldl ?step acc ls))" for acc ls
  proof (induction ls arbitrary: acc)
    case (Cons x ls)
    show ?case
    proof (cases "x = l")
      case True
      have "name \<in> set (snd (?step acc x))" using assms(1) True by (cases acc) simp
      then show ?thesis using keep by simp
    next
      case False
      with Cons show ?thesis by simp
    qed
  qed simp
  with assms(4) have "name \<in> set (snd (parse_vfs_table s))" by (simp add: parse_vfs_table_def)
  with assms(2,3) have "name \<in> set network" by (auto simp: load_vfs_def split: prod.splits)
  with assms(2) show ?thesis by (simp add: classify_fs_def)
qed

theorem aix_remote_is_network_witness:
  "snd (classify_fs (snd (load_vfs (Some ''gpfs 50 none none remote''))) (''gpfs'', True)) = FSNetwork"
proof -
  let ?s = "''gpfs 50 none none remote''"
  have line: "scan_lines ?s = [?s]" by (simp add: scan_lines_def drop_cr_def)
  have trim: "trim_space ?s = ?s"
    by (rule trim_space_plain) (simp_all add: plain_def)
  have "str_fields ?s = [''gpfs'', ''50'', ''none'', ''none'', ''remote'']"
    by (simp add: str_fields_def fields_from_plain fields_from_blank plain_def)
  then have "vfs_line ?s = Some (50, ''gpfs'', True)"
    by (simp add: vfs_line_def trim parse_int32_def is_digit_def)
  then show ?thesis
    using aix_remote_is_network [of ?s 50 "''gpfs''" ?s "fst (load_vfs (Some ?s))" "snd (load_vfs (Some ?s))"]
    by (simp add: line pseudo_filesystems_def)
qed

end
