(* ===== verification/Os_Detect.thy ===== *)
theory Os_Detect
  imports Go_Text Store_Format Fs_Type
begin

text \<open>
  \<open>internal/osdetect\<close>: the identification of the system and the key derived from it. The
  record \<open>env\<close> is the program's own seam to the system, \<open>type env struct\<close>: the answers of
  \<open>os.ReadFile\<close>, \<open>uname(2)\<close>, \<open>os.Hostname\<close> and of the helper binaries, \<open>None\<close> for an error.
  The result is the record \<open>os_info\<close> of \<open>Store_Format\<close>, which the fingerprint header holds.
\<close>

section \<open>osdetect.go\<close>

record utsname =
  un_sysname :: string
  un_nodename :: string
  un_release :: string
  un_version :: string
  un_machine :: string

text \<open>The tokens of \<open>encoding/xml\<close> up to the first error; other tokens are ignored.\<close>

datatype xml_token = StartElement string | CharData string | EndElement string | OtherToken

text \<open>
  Two library functions that depend on large tables are part of the environment as well: the
  lower case of a string outside ASCII, and the token stream of a lenient XML decoder.
\<close>

record env =
  ev_goos :: string
  ev_goarch :: string
  ev_read_file :: "string \<Rightarrow> string option"
  ev_uname :: "utsname option"
  ev_hostname :: "string option"
  ev_run :: "string \<Rightarrow> string list \<Rightarrow> string option"
  ev_unicode_lower :: "string \<Rightarrow> string"
  ev_xml_tokens :: "string \<Rightarrow> xml_token list"

definition max_component :: nat where
  "max_component = 32"

text \<open>
  The loop of \<open>normalizeComponent\<close>: the buffer written so far and the pending separator. The
  length is tested at the end of an iteration, which may write two bytes.
\<close>

definition keep_char :: "char \<Rightarrow> char option" where
  "keep_char c =
     (if is_upper c then Some (lower_char c)
      else if is_lower c \<or> is_digit c \<or> c = CHR ''.'' then Some c else None)"

definition component_step :: "char \<Rightarrow> string \<times> bool \<Rightarrow> string \<times> bool" where
  "component_step c st =
     (case st of (b, dash) \<Rightarrow>
        case keep_char c of
          Some k \<Rightarrow> ((if dash \<and> b \<noteq> [] then b @ ''-'' else b) @ [k], False)
        | None \<Rightarrow> (b, b \<noteq> []))"

fun component_loop :: "string \<Rightarrow> string \<times> bool \<Rightarrow> string" where
  "component_loop [] st = fst st"
| "component_loop (c # s) st =
     (let st' = component_step c st
      in if max_component \<le> length (fst st') then fst st' else component_loop s st')"

definition normalize_component :: "string \<Rightarrow> string" where
  "normalize_component s = trim_bytes (component_loop s ([], False)) ''.-''"

definition non_empty :: "string list \<Rightarrow> string list" where
  "non_empty = filter (\<lambda>c. c \<noteq> [])"

definition key_parts :: "os_info \<Rightarrow> string list" where
  "key_parts i =
     non_empty (map normalize_component
       ([oi_os i] @ (if equal_fold_ascii (oi_distro i) (oi_os i) then [] else [oi_distro i])
        @ [oi_version i, oi_arch i]))"

definition info_key :: "os_info \<Rightarrow> string" where
  "info_key i = (if key_parts i = [] then ''unknown'' else join ''-'' (key_parts i))"

definition info_string :: "os_info \<Rightarrow> string" where
  "info_string i =
     (if oi_pretty i \<noteq> [] then oi_pretty i @ '' ('' @ info_key i @ '')'' else info_key i)"

datatype detect_error = EmptyKey string | UnsupportedOS string

definition normalize_key :: "string \<Rightarrow> detect_error + string" where
  "normalize_key s =
     (let out = non_empty (map normalize_component (split_at CHR ''-'' s))
      in if out = [] then Inl (EmptyKey s) else Inr (join ''-'' out))"

definition first_line :: "string \<Rightarrow> string" where
  "first_line b =
     (case find (\<lambda>l. l \<noteq> []) (map trim_space (split_at (CHR 10) b)) of None \<Rightarrow> [] | Some l \<Rightarrow> l)"

definition is_numeric_version :: "string \<Rightarrow> bool" where
  "is_numeric_version s \<longleftrightarrow>
     list_all (\<lambda>c. is_digit c \<or> c = CHR ''.'') s \<and> list_ex is_digit s"

text \<open>\<open>runCommand\<close> on what \<open>exec\<close> gives back within its five seconds.\<close>

definition run_command :: "string option \<Rightarrow> string option" where
  "run_command out = map_option trim_space out"

text \<open>\<open>sysUname\<close> on the arrays of \<open>uname(2)\<close>.\<close>

definition sys_uname ::
  "(byte list \<times> byte list \<times> byte list \<times> byte list \<times> byte list) option \<Rightarrow> utsname option" where
  "sys_uname u =
     (case u of
        None \<Rightarrow> None
      | Some (sysname, nodename, release, version, machine) \<Rightarrow>
          Some \<lparr>un_sysname = cstr sysname, un_nodename = cstr nodename, un_release = cstr release,
                un_version = cstr version, un_machine = cstr machine\<rparr>)"

section \<open>osrelease.go\<close>

text \<open>
  A \<open>map[string]string\<close> is the list of its assignments, the latest first; a missing key
  reads as the empty string.
\<close>

type_synonym settings = "(string \<times> string) list"

definition setting :: "settings \<Rightarrow> string \<Rightarrow> string" where
  "setting kv k = (case map_of kv k of None \<Rightarrow> [] | Some v \<Rightarrow> v)"

fun unescape :: "string \<Rightarrow> string" where
  "unescape (c # d # s) = (if c = CHR 92 then d # unescape s else c # unescape (d # s))"
| "unescape s = s"

definition unquote :: "string \<Rightarrow> string" where
  "unquote s =
     (if length s < 2 then s
      else if hd s = CHR 39 \<and> last s = CHR 39 then butlast (tl s)
      else if hd s = CHR 34 \<and> last s = CHR 34 then
        (let t = butlast (tl s) in if CHR 92 \<notin> set t then t else unescape t)
      else s)"

definition os_release_line :: "string \<Rightarrow> (string \<times> string) option" where
  "os_release_line raw =
     (let line = trim_space raw in
      if line = [] \<or> has_prefix line ''#'' then None
      else case cut (CHR ''='') line of
             None \<Rightarrow> None
           | Some (key, value) \<Rightarrow>
               (if trim_space key = [] then None
                else Some (trim_space key, unquote (trim_space value))))"

definition parse_os_release :: "string \<Rightarrow> settings" where
  "parse_os_release b = rev (List.map_filter os_release_line (split_at (CHR 10) b))"

definition os_release_paths :: "string list" where
  "os_release_paths = [''/etc/os-release'', ''/usr/lib/os-release'']"

fun first_os_release :: "env \<Rightarrow> string list \<Rightarrow> (settings \<times> string) option" where
  "first_os_release e [] = None"
| "first_os_release e (p # ps) =
     (case ev_read_file e p of
        None \<Rightarrow> first_os_release e ps
      | Some b \<Rightarrow>
          (if parse_os_release b \<noteq> [] then Some (parse_os_release b, p) else first_os_release e ps))"

definition read_os_release :: "env \<Rightarrow> (settings \<times> string) option" where
  "read_os_release e = first_os_release e os_release_paths"

section \<open>linux.go\<close>

definition pretty_name :: "settings \<Rightarrow> string" where
  "pretty_name kv =
     (if setting kv ''PRETTY_NAME'' \<noteq> [] then setting kv ''PRETTY_NAME''
      else trim_space (setting kv ''NAME'' @ '' '' @ setting kv ''VERSION''))"

definition red_hat_needles :: "(string \<times> string) list" where
  "red_hat_needles =
     [(''red hat enterprise'', ''rhel''), (''centos'', ''centos''), (''rocky'', ''rocky''),
      (''almalinux'', ''almalinux''), (''oracle'', ''ol''), (''scientific'', ''scientific''),
      (''fedora'', ''fedora'')]"

definition red_hat_family :: "env \<Rightarrow> string \<Rightarrow> string" where
  "red_hat_family e name =
     (let low = to_lower (ev_unicode_lower e) name in
      case find (\<lambda>(needle, ident). contains low needle) red_hat_needles of
        Some (needle, ident) \<Rightarrow> ident
      | None \<Rightarrow> (case str_fields low of [] \<Rightarrow> [] | f # fs \<Rightarrow> f))"

definition parse_red_hat_release :: "env \<Rightarrow> string \<Rightarrow> os_info \<Rightarrow> os_info" where
  "parse_red_hat_release e line i =
     (let (name, rest) = (case cut_at '' release '' line of None \<Rightarrow> (line, []) | Some nr \<Rightarrow> nr);
          i = i\<lparr>oi_pretty := line, oi_distro := red_hat_family e name\<rparr>
      in case str_fields rest of
           [] \<Rightarrow> i
         | f # fs \<Rightarrow> if is_numeric_version f then i\<lparr>oi_version := f\<rparr> else i)"

definition parse_debian_version :: "env \<Rightarrow> string \<Rightarrow> os_info \<Rightarrow> os_info" where
  "parse_debian_version e line i =
     i\<lparr>oi_distro := ''debian'', oi_version := line, oi_pretty := ''Debian GNU/Linux '' @ line\<rparr>"

definition parse_alpine_release :: "env \<Rightarrow> string \<Rightarrow> os_info \<Rightarrow> os_info" where
  "parse_alpine_release e line i =
     i\<lparr>oi_distro := ''alpine'', oi_version := line, oi_pretty := ''Alpine Linux v'' @ line\<rparr>"

text \<open>The loop of \<open>kernelSeries\<close> on what is left, with what was read and the dots in it.\<close>

fun kernel_series_from :: "string \<Rightarrow> nat \<Rightarrow> string \<Rightarrow> string" where
  "kernel_series_from seen dots [] = seen"
| "kernel_series_from seen dots (c # s) =
     (if is_digit c then kernel_series_from (seen @ [c]) dots s
      else if c = CHR ''.'' then
        (if Suc dots = 2 then seen else kernel_series_from (seen @ [c]) (Suc dots) s)
      else if seen = [] then [] else trim_suffix seen ''.'')"

definition kernel_series :: "string \<Rightarrow> string" where
  "kernel_series release = kernel_series_from [] 0 release"

fun legacy_release ::
  "env \<Rightarrow> (string \<times> (env \<Rightarrow> string \<Rightarrow> os_info \<Rightarrow> os_info)) list \<Rightarrow> os_info \<Rightarrow> os_info option" where
  "legacy_release e [] i = None"
| "legacy_release e ((path, parse) # fs) i =
     (case ev_read_file e path of
        None \<Rightarrow> legacy_release e fs i
      | Some b \<Rightarrow>
          (if first_line b = [] then legacy_release e fs i
           else Some ((parse e (first_line b) i)\<lparr>oi_source := path\<rparr>)))"

definition legacy_files :: "(string \<times> (env \<Rightarrow> string \<Rightarrow> os_info \<Rightarrow> os_info)) list" where
  "legacy_files =
     [(''/etc/redhat-release'', parse_red_hat_release),
      (''/etc/debian_version'', parse_debian_version),
      (''/etc/alpine-release'', parse_alpine_release)]"

definition detect_linux :: "env \<Rightarrow> os_info \<Rightarrow> os_info" where
  "detect_linux e i =
     (let i = (case read_os_release e of
                 None \<Rightarrow> i
               | Some (kv, path) \<Rightarrow>
                   i\<lparr>oi_distro := setting kv ''ID'', oi_version := setting kv ''VERSION_ID'',
                     oi_pretty := pretty_name kv, oi_source := path\<rparr>)
      in if read_os_release e \<noteq> None \<and> oi_distro i \<noteq> [] then i
         else case legacy_release e legacy_files i of
                Some i' \<Rightarrow> i'
              | None \<Rightarrow>
                  (if kernel_series (oi_kernel i) \<noteq> []
                   then i\<lparr>oi_version := kernel_series (oi_kernel i), oi_source := ''uname(2)''\<rparr>
                   else i))"

section \<open>bsd.go\<close>

definition release_base :: "string \<Rightarrow> string" where
  "release_base release = (case cut (CHR ''-'') release of None \<Rightarrow> release | Some (b, r) \<Rightarrow> b)"

definition bsd_version_from_line :: "string \<Rightarrow> string" where
  "bsd_version_from_line line =
     (case find is_numeric_version (map release_base (str_fields line)) of None \<Rightarrow> [] | Some v \<Rightarrow> v)"

fun bsd_helper :: "env \<Rightarrow> (string \<times> string list) list \<Rightarrow> os_info \<Rightarrow> os_info" where
  "bsd_helper e [] i = i"
| "bsd_helper e ((name, args) # cs) i =
     (case ev_run e name args of
        None \<Rightarrow> bsd_helper e cs i
      | Some out \<Rightarrow>
          (if out = [] then bsd_helper e cs i
           else let line = first_line out;
                    i = i\<lparr>oi_pretty := line, oi_source := trim_space (name @ '' '' @ join '' '' args)\<rparr>;
                    v = bsd_version_from_line line
                in if v \<noteq> [] then i\<lparr>oi_version := v\<rparr> else i))"

text \<open>The second half of \<open>detectBSD\<close>, reached when \<open>uname\<close> gave no release.\<close>

definition detect_bsd_files :: "env \<Rightarrow> os_info \<Rightarrow> os_info" where
  "detect_bsd_files e i =
     (case read_os_release e of
        Some (kv, path) \<Rightarrow>
          (if setting kv ''VERSION_ID'' \<noteq> []
           then i\<lparr>oi_version := setting kv ''VERSION_ID'', oi_pretty := pretty_name kv, oi_source := path\<rparr>
           else bsd_helper e [(''freebsd-version'', []), (''sysctl'', [''-n'', ''kern.version''])] i)
      | None \<Rightarrow> bsd_helper e [(''freebsd-version'', []), (''sysctl'', [''-n'', ''kern.version''])] i)"

definition detect_bsd :: "env \<Rightarrow> os_info \<Rightarrow> os_info" where
  "detect_bsd e i =
     (case ev_uname e of
        Some u \<Rightarrow>
          (if un_release u \<noteq> []
           then i\<lparr>oi_version := release_base (un_release u),
                  oi_pretty := trim_space (un_sysname u @ '' '' @ un_release u),
                  oi_source := ''uname(2)''\<rparr>
           else detect_bsd_files e i)
      | None \<Rightarrow> detect_bsd_files e i)"

section \<open>solaris.go\<close>

definition find_field :: "string list \<Rightarrow> (string \<Rightarrow> bool) \<Rightarrow> string" where
  "find_field fs ok = (case find ok fs of None \<Rightarrow> [] | Some f \<Rightarrow> f)"

definition is_omnios_revision :: "string \<Rightarrow> bool" where
  "is_omnios_revision s \<longleftrightarrow> 2 \<le> length s \<and> hd s = CHR ''r'' \<and> list_all is_digit (tl s)"

definition is_smartos_build :: "string \<Rightarrow> bool" where
  "is_smartos_build s \<longleftrightarrow>
     length s = 16 \<and> s ! 8 = CHR ''T'' \<and> s ! 15 = CHR ''Z'' \<and>
     list_all (\<lambda>i. is_digit (s ! i)) [0, 1, 2, 3, 4, 5, 6, 7, 9, 10, 11, 12, 13, 14]"

definition parse_solaris_release :: "env \<Rightarrow> string \<Rightarrow> string \<times> string" where
  "parse_solaris_release e line =
     (let fs = str_fields line; low = to_lower (ev_unicode_lower e) line in
      if contains low ''omnios'' then (''omnios'', find_field fs is_omnios_revision)
      else if contains low ''smartos'' then (''smartos'', find_field fs is_smartos_build)
      else if contains low ''openindiana'' then (''openindiana'', find_field fs is_numeric_version)
      else if contains low ''solaris'' then (''solaris'', find_field fs is_numeric_version)
      else if fs = [] then ([], [])
      else (to_lower (ev_unicode_lower e) (hd fs), find_field fs is_numeric_version))"

text \<open>The three attempts of \<open>detectSolaris\<close>; each leaves when it has found a version.\<close>

definition solaris_banner :: "env \<Rightarrow> os_info \<Rightarrow> os_info \<times> bool" where
  "solaris_banner e i =
     (case ev_read_file e ''/etc/release'' of
        None \<Rightarrow> (i, False)
      | Some b \<Rightarrow>
          (let line = first_line b in
           if line = [] then (i, False)
           else case parse_solaris_release e line of (distro, version) \<Rightarrow>
                  (i\<lparr>oi_pretty := line, oi_source := ''/etc/release'', oi_distro := distro,
                     oi_version := version\<rparr>, version \<noteq> [])))"

definition solaris_os_release :: "env \<Rightarrow> os_info \<Rightarrow> os_info \<times> bool" where
  "solaris_os_release e i =
     (case read_os_release e of
        None \<Rightarrow> (i, False)
      | Some (kv, path) \<Rightarrow>
          (let i = (if setting kv ''ID'' \<noteq> [] then i\<lparr>oi_distro := setting kv ''ID''\<rparr> else i);
               i = (if setting kv ''VERSION_ID'' \<noteq> [] then i\<lparr>oi_version := setting kv ''VERSION_ID''\<rparr> else i);
               i = (if oi_pretty i = [] then i\<lparr>oi_pretty := pretty_name kv\<rparr> else i)
           in (i\<lparr>oi_source := path\<rparr>, oi_version i \<noteq> [])))"

definition detect_solaris :: "env \<Rightarrow> os_info \<Rightarrow> os_info" where
  "detect_solaris e i =
     (case solaris_banner e i of (i, done) \<Rightarrow>
        if done then i
        else case solaris_os_release e i of (i, done) \<Rightarrow>
          if done then i
          else case ev_run e ''uname'' [''-v''] of
                 None \<Rightarrow> i
               | Some out \<Rightarrow>
                   if out = [] then i else i\<lparr>oi_version := out, oi_source := ''uname -v''\<rparr>)"

section \<open>darwin.go\<close>

text \<open>
  One token in the loop of \<open>parsePlistDict\<close>: the open element, the last key, the character
  data so far and the map.
\<close>

type_synonym plist_state = "string \<times> string \<times> string \<times> settings"

definition plist_token :: "xml_token \<Rightarrow> plist_state \<Rightarrow> plist_state" where
  "plist_token tok st =
     (case st of (elem, key, value, kv) \<Rightarrow>
        case tok of
          StartElement n \<Rightarrow> (n, key, [], kv)
        | CharData d \<Rightarrow>
            (elem, key, if elem = ''key'' \<or> elem = ''string'' then value @ d else value, kv)
        | EndElement n \<Rightarrow>
            (if n = ''key'' then ([], trim_space value, [], kv)
             else if n = ''string'' \<and> key \<noteq> [] then ([], [], [], (key, trim_space value) # kv)
             else ([], key, [], kv))
        | OtherToken \<Rightarrow> st)"

definition parse_plist_dict :: "env \<Rightarrow> string \<Rightarrow> settings" where
  "parse_plist_dict e b =
     (case fold plist_token (ev_xml_tokens e b) ([], [], [], []) of (elem, key, value, kv) \<Rightarrow> kv)"

definition system_version_plist :: string where
  "system_version_plist = ''/System/Library/CoreServices/SystemVersion.plist''"

definition sw_vers :: "env \<Rightarrow> os_info \<Rightarrow> os_info" where
  "sw_vers e i =
     (case ev_run e ''sw_vers'' [''-productVersion''] of
        None \<Rightarrow> i
      | Some out \<Rightarrow>
          (if out = [] then i
           else i\<lparr>oi_distro := ''macos'', oi_version := out, oi_pretty := ''macOS '' @ out,
                  oi_source := ''sw_vers -productVersion''\<rparr>))"

definition detect_darwin :: "env \<Rightarrow> os_info \<Rightarrow> os_info" where
  "detect_darwin e i =
     (case ev_read_file e system_version_plist of
        None \<Rightarrow> sw_vers e i
      | Some b \<Rightarrow>
          (let kv = parse_plist_dict e b; v = setting kv ''ProductVersion'';
               build = setting kv ''ProductBuildVersion'' in
           if v = [] then sw_vers e i
           else i\<lparr>oi_distro := setting kv ''ProductName'', oi_version := v,
                  oi_pretty := trim_space (setting kv ''ProductName'' @ '' '' @ v)
                    @ (if build \<noteq> [] then '' ('' @ build @ '')'' else []),
                  oi_source := system_version_plist\<rparr>))"

section \<open>aix.go\<close>

definition oslevel_version :: "string \<Rightarrow> string" where
  "oslevel_version s = (if length s < 2 then [] else take 1 s @ ''.'' @ take 1 (drop 1 s))"

definition aix_uname :: "env \<Rightarrow> os_info \<Rightarrow> os_info" where
  "aix_uname e i =
     (case ev_uname e of
        None \<Rightarrow> i
      | Some u \<Rightarrow>
          (if un_version u \<noteq> [] \<and> un_release u \<noteq> []
           then let v = un_version u @ ''.'' @ un_release u
                in i\<lparr>oi_version := v, oi_kernel := v, oi_pretty := ''AIX '' @ v, oi_source := ''uname(2)''\<rparr>
           else i))"

definition detect_aix :: "env \<Rightarrow> os_info \<Rightarrow> os_info" where
  "detect_aix e i =
     (let i = aix_uname e i in
      case ev_run e ''oslevel'' [''-s''] of
        None \<Rightarrow> i
      | Some out \<Rightarrow>
          (if out = [] then i
           else let fs = split_at CHR ''-'' out;
                    i = i\<lparr>oi_kernel := out, oi_source := trim_space (oi_source i @ '' + oslevel -s'')\<rparr>;
                    i = (if oi_version i = [] then i\<lparr>oi_version := oslevel_version (hd fs)\<rparr> else i);
                    i = (if 1 < length fs \<and> fs ! 1 \<noteq> []
                         then i\<lparr>oi_version := oi_version i @ ''-tl'' @ fs ! 1\<rparr> else i)
                in i\<lparr>oi_pretty := ''AIX '' @ out\<rparr>))"

section \<open>The detector\<close>

definition start_info :: "env \<Rightarrow> os_info" where
  "start_info e =
     (let i = \<lparr>oi_os = ev_goos e, oi_distro = [], oi_version = [], oi_arch = ev_goarch e, oi_kernel = [],
               oi_pretty = [], oi_hostname = [], oi_source = []\<rparr>;
          i = (case ev_hostname e of None \<Rightarrow> i | Some h \<Rightarrow> i\<lparr>oi_hostname := h\<rparr>)
      in case ev_uname e of
           None \<Rightarrow> i
         | Some u \<Rightarrow>
             (let i = i\<lparr>oi_kernel := un_release u\<rparr>
              in if oi_arch i = [] then i\<lparr>oi_arch := un_machine u\<rparr> else i))"

text \<open>\<open>detect\<close> returns an \<open>Info\<close> beside its error, so both are given.\<close>

definition detect :: "env \<Rightarrow> os_info \<times> detect_error option" where
  "detect e =
     (let i = start_info e; os = ev_goos e in
      if os = ''linux'' then (detect_linux e i, None)
      else if os \<in> {''freebsd'', ''openbsd'', ''netbsd'', ''dragonfly''} then (detect_bsd e i, None)
      else if os = ''solaris'' \<or> os = ''illumos'' then (detect_solaris e i, None)
      else if os = ''darwin'' then (detect_darwin e i, None)
      else if os = ''aix'' then (detect_aix e i, None)
      else (i, Some (UnsupportedOS os)))"

end
