(* ===== verification/Os_Key.thy ===== *)
theory Os_Key
  imports Os_Detect
begin

text \<open>
  The properties of the detection: what a key looks like, when \<open>NormalizeKey\<close> leaves a
  detected key as it is, and what a written \<open>os-release\<close> file is read back as.
\<close>

section \<open>The shape of a key\<close>

definition word_char :: "char \<Rightarrow> bool" where
  "word_char c \<longleftrightarrow> is_lower c \<or> is_digit c \<or> c = CHR ''.''"

definition key_char :: "char \<Rightarrow> bool" where
  "key_char c \<longleftrightarrow> word_char c \<or> c = CHR ''-''"

definition edge :: "char \<Rightarrow> bool" where
  "edge c \<longleftrightarrow> is_lower c \<or> is_digit c"

lemma key_char_cases: "key_char c \<Longrightarrow> c \<notin> set ''.-'' \<Longrightarrow> edge c"
  by (auto simp: key_char_def word_char_def edge_def)

lemma word_not_dash [simp]: "\<not> word_char CHR ''-''"
  by (simp add: word_char_def is_lower_def is_digit_def)

lemma keep_word: "keep_char c = Some k \<Longrightarrow> word_char k"
  by (auto simp: keep_char_def word_char_def lower_char_lower split: if_splits)

lemma word_keep: "word_char c \<Longrightarrow> keep_char c = Some c"
  by (auto simp: keep_char_def word_char_def is_upper_def is_lower_def is_digit_def)

text \<open>
  What the loop keeps of its buffer: word characters with single dashes between them, and
  below the cap until the last step.
\<close>

fun words :: "string \<Rightarrow> bool" where
  "words [] \<longleftrightarrow> True"
| "words [c] \<longleftrightarrow> key_char c"
| "words (c # d # s) \<longleftrightarrow> key_char c \<and> (word_char c \<or> word_char d) \<and> words (d # s)"

lemma words_chars: "words b \<Longrightarrow> c \<in> set b \<Longrightarrow> key_char c"
  by (induction b rule: words.induct) (auto simp: key_char_def)

lemma words_snoc: "words b \<Longrightarrow> word_char k \<Longrightarrow> words (b @ [k])"
  by (induction b rule: words.induct) (auto simp: key_char_def)

lemma words_dash: "words b \<Longrightarrow> b \<noteq> [] \<Longrightarrow> word_char (last b) \<Longrightarrow> word_char k \<Longrightarrow> words (b @ [CHR ''-'', k])"
  by (induction b rule: words.induct) (auto simp: key_char_def)

lemma words_append: "words (a @ b) \<Longrightarrow> words a \<and> words b"
proof (induction a rule: words.induct)
  case (2 c)
  then show ?case by (cases b) auto
qed auto

lemma step_words:
  "words (fst st) \<Longrightarrow> fst st \<noteq> [] \<longrightarrow> word_char (last (fst st)) \<Longrightarrow>
   words (fst (component_step c st)) \<and>
   (fst (component_step c st) \<noteq> [] \<longrightarrow> word_char (last (fst (component_step c st))))"
  by (cases st) (auto simp: component_step_def words_snoc words_dash key_char_def dest: keep_word split: option.split)

lemma step_length: "length (fst (component_step c st)) \<le> length (fst st) + 2"
  by (cases st) (auto simp: component_step_def split: option.split)

lemma loop_words:
  "words (fst st) \<Longrightarrow> fst st \<noteq> [] \<longrightarrow> word_char (last (fst st)) \<Longrightarrow> words (component_loop s st)"
proof (induction s arbitrary: st)
  case (Cons c s)
  then show ?case using step_words [OF Cons.prems, of c] by (simp add: Let_def)
qed simp

lemma loop_length: "length (fst st) < max_component \<Longrightarrow> length (component_loop s st) \<le> Suc max_component"
proof (induction s arbitrary: st)
  case (Cons c s)
  then show ?case using step_length [of c st] by (auto simp: Let_def)
qed simp

definition component_ok :: "string \<Rightarrow> bool" where
  "component_ok p \<longleftrightarrow> p \<noteq> [] \<and> list_all key_char p \<and> edge (hd p) \<and> edge (last p) \<and> length p \<le> 33"

lemma normalize_component_ok: "normalize_component s \<noteq> [] \<Longrightarrow> component_ok (normalize_component s)"
proof -
  assume ne: "normalize_component s \<noteq> []"
  let ?l = "component_loop s ([], False)"
  have k: "c \<in> set (normalize_component s) \<Longrightarrow> key_char c" for c
    using loop_words [of "([], False)" s] by (auto simp: normalize_component_def dest: trim_bytes_set words_chars)
  have "length (normalize_component s) \<le> length ?l"
    unfolding normalize_component_def by (rule length_trim_bytes)
  also have "\<dots> \<le> 33" using loop_length [of "([], False)" s] by (simp add: max_component_def)
  finally have len: "length (normalize_component s) \<le> 33" .
  from ne have "edge (hd (normalize_component s))"
    by (intro key_char_cases k) (simp_all add: normalize_component_def trim_bytes_hd del: set_simps)
  moreover from ne have "edge (last (normalize_component s))"
    by (intro key_char_cases k) (simp_all add: normalize_component_def trim_bytes_last del: set_simps)
  ultimately show ?thesis using k ne len by (auto simp: component_ok_def list_all_iff)
qed

lemma key_parts_ok: "p \<in> set (key_parts i) \<Longrightarrow> component_ok p"
  by (auto simp: key_parts_def non_empty_def normalize_component_ok split: if_splits)

lemma length_key_parts: "length (key_parts i) \<le> 4"
proof -
  have "length (key_parts i) \<le> length (map normalize_component
       ([oi_os i] @ (if equal_fold_ascii (oi_distro i) (oi_os i) then [] else [oi_distro i])
        @ [oi_version i, oi_arch i]))"
    unfolding key_parts_def non_empty_def by (rule length_filter_le)
  then show ?thesis by (simp split: if_splits)
qed

lemma join_parts:
  assumes "ps \<noteq> []" and "\<forall>p\<in>set ps. component_ok p"
  shows "join ''-'' ps \<noteq> [] \<and> list_all key_char (join ''-'' ps) \<and> edge (hd (join ''-'' ps))
    \<and> edge (last (join ''-'' ps)) \<and> length (join ''-'' ps) < 34 * length ps"
  using assms
proof (induction ps rule: induct_list012)
  case (3 x y zs)
  then have x: "component_ok x" and IH: "join ''-'' (y # zs) \<noteq> []" "list_all key_char (join ''-'' (y # zs))"
    "edge (last (join ''-'' (y # zs)))" "length (join ''-'' (y # zs)) < 34 * length (y # zs)" by simp_all
  moreover have "join ''-'' (x # y # zs) = x @ CHR ''-'' # join ''-'' (y # zs)" by simp
  moreover have "key_char CHR ''-''" by (simp add: key_char_def)
  ultimately show ?case by (auto simp: component_ok_def)
qed (auto simp: component_ok_def)

lemma key_shape:
  "info_key i \<noteq> [] \<and> length (info_key i) \<le> 135 \<and> list_all key_char (info_key i) \<and>
   edge (hd (info_key i)) \<and> edge (last (info_key i))"
proof (cases "key_parts i = []")
  case True
  then have "info_key i = ''unknown''" by (simp add: info_key_def)
  then show ?thesis by (simp add: key_char_def word_char_def edge_def is_lower_def)
next
  case False
  with join_parts [OF this] key_parts_ok length_key_parts [of i]
  show ?thesis by (auto simp: info_key_def)
qed

text \<open>
  C31. A key is always a usable file name: it is never empty, it has at most 135 bytes, all of
  them lower-case letters, digits, dots and dashes, and it starts and ends with a letter or a
  digit, so it is neither hidden nor a path. The cap of a component is 33 bytes and not the
  32 of \<open>maxComponent\<close>: the length is tested after a step that may write a dash and a
  character.
\<close>

theorem key_is_file_name:
  "info_key i \<noteq> [] \<and> length (info_key i) \<le> 135 \<and> list_all key_char (info_key i) \<and>
   edge (hd (info_key i)) \<and> edge (last (info_key i)) \<and> length (normalize_component s) \<le> 33 \<and>
   length (normalize_component (replicate 31 CHR ''a'' @ '' b'')) = 33"
proof -
  have long: "length (normalize_component (replicate 31 CHR ''a'' @ '' b'')) = 33" by code_simp
  have cap: "length (normalize_component s) \<le> 33"
    using normalize_component_ok [of s] by (cases "normalize_component s = []") (auto simp: component_ok_def)
  show ?thesis using long cap key_shape [of i] by simp
qed

section \<open>Keys that NormalizeKey leaves alone\<close>

lemma loop_33:
  "length (fst st) < 32 \<Longrightarrow> length (component_loop s st) = 33 \<Longrightarrow> CHR ''-'' \<in> set (component_loop s st)"
proof (induction s arbitrary: st)
  case (Cons c s)
  let ?st = "component_step c st"
  show ?case
  proof (cases "32 \<le> length (fst ?st)")
    case True
    with Cons.prems have "length (fst ?st) = 33" by (simp add: Let_def max_component_def)
    with Cons.prems(1) have "CHR ''-'' \<in> set (fst ?st)"
      by (cases st) (auto simp: component_step_def split: option.splits if_splits)
    with True show ?thesis by (simp add: Let_def max_component_def)
  next
    case False
    with Cons show ?thesis by (simp add: Let_def max_component_def)
  qed
qed simp

lemma dropWhile_full: "length (dropWhile P x) = length x \<Longrightarrow> dropWhile P x = x"
proof (cases x)
  case (Cons a y)
  assume "length (dropWhile P x) = length x"
  with Cons length_dropWhile_le [of P y] show ?thesis by (auto split: if_splits)
qed simp

lemma trim_bytes_full: "length (trim_bytes s cs) = length s \<Longrightarrow> trim_bytes s cs = s"
proof -
  define a where "a = dropWhile (\<lambda>c. c \<in> set cs) s"
  define b where "b = dropWhile (\<lambda>c. c \<in> set cs) (rev a)"
  assume "length (trim_bytes s cs) = length s"
  then have "length b = length s" by (simp add: trim_bytes_def a_def b_def)
  moreover have "length b \<le> length (rev a)" unfolding b_def by (rule length_dropWhile_le)
  moreover have "length a \<le> length s" unfolding a_def by (rule length_dropWhile_le)
  ultimately have "length a = length s" "length b = length (rev a)" by simp_all
  then have "a = s" "b = rev a" by (simp_all add: a_def b_def dropWhile_full)
  moreover have "trim_bytes s cs = rev b" by (simp add: trim_bytes_def a_def b_def)
  ultimately show ?thesis by simp
qed

lemma component_without_dash:
  "CHR ''-'' \<notin> set (normalize_component s) \<Longrightarrow> length (normalize_component s) \<le> 32"
proof (rule ccontr)
  let ?l = "component_loop s ([], False)"
  assume nd: "CHR ''-'' \<notin> set (normalize_component s)" and "\<not> length (normalize_component s) \<le> 32"
  moreover have "length (normalize_component s) \<le> length ?l"
    unfolding normalize_component_def by (rule length_trim_bytes)
  moreover have "length ?l \<le> 33" using loop_length [of "([], False)" s] by (simp add: max_component_def)
  ultimately have "length ?l = 33" "length (trim_bytes ?l ''.-'') = length ?l"
    by (simp_all add: normalize_component_def)
  with loop_33 [of "([], False)" s] trim_bytes_full nd show False
    by (fastforce simp: normalize_component_def)
qed

text \<open>A piece of a key is normal by itself.\<close>

definition normal_piece :: "string \<Rightarrow> bool" where
  "normal_piece q \<longleftrightarrow> q \<noteq> [] \<and> list_all word_char q \<and> edge (hd q) \<and> edge (last q) \<and> length q \<le> 32"

lemma loop_word: "list_all word_char s \<Longrightarrow> length b + length s \<le> 32 \<Longrightarrow> component_loop s (b, False) = b @ s"
proof (induction s arbitrary: b)
  case (Cons c s)
  then have step: "component_step c (b, False) = (b @ [c], False)" by (simp add: component_step_def word_keep)
  show ?case
  proof (cases "32 \<le> length (b @ [c])")
    case True
    with Cons.prems(2) have "s = []" by (cases s) auto
    with True show ?thesis by (simp add: step Let_def max_component_def)
  next
    case False
    with Cons.IH [of "b @ [c]"] Cons.prems show ?thesis by (simp add: step Let_def max_component_def)
  qed
qed simp

lemma edge_not_trimmed: "edge c \<Longrightarrow> c \<notin> set ''.-''"
  by (auto simp: edge_def is_lower_def is_digit_def)

lemma normalize_piece:
  assumes "normal_piece q"
  shows "normalize_component q = q"
proof -
  have "component_loop q ([], False) = q"
    using loop_word [of q "[]"] assms by (simp add: normal_piece_def)
  moreover have "hd q \<notin> set ''.-'' \<and> last q \<notin> set ''.-''"
    using assms edge_not_trimmed unfolding normal_piece_def by blast
  then have "trim_bytes q ''.-'' = q" by (rule trim_bytes_fix)
  ultimately show ?thesis by (simp add: normalize_component_def)
qed

lemma normalize_key_pieces:
  assumes "\<forall>q\<in>set (split_at CHR ''-'' k). normal_piece q"
  shows "normalize_key k = Inr k"
proof -
  have "map normalize_component (split_at CHR ''-'' k) = split_at CHR ''-'' k"
    using assms normalize_piece by (simp add: map_idI)
  moreover have "non_empty (split_at CHR ''-'' k) = split_at CHR ''-'' k"
    using assms by (auto simp: non_empty_def normal_piece_def intro!: filter_True)
  ultimately show ?thesis by (simp add: normalize_key_def join_split)
qed

lemma contains_append: "contains (a @ p @ b) p"
proof (induction a)
  case Nil
  show ?case
  proof (cases "p @ b")
    case (Cons c s)
    with has_prefix_append [of p b] show ?thesis by simp
  qed simp
qed simp

lemma contains_later: "contains b p \<Longrightarrow> contains (a @ b) p"
  by (induction a) auto

lemma split_at_first: "sep \<notin> set q \<Longrightarrow> split_at sep (q @ sep # s) = q # split_at sep s"
  by (induction q) auto

lemma split_at_whole: "sep \<notin> set q \<Longrightarrow> split_at sep q = [q]"
  by (induction q) auto

lemma split_at_length: "q \<in> set (split_at sep s) \<Longrightarrow> sep \<in> set s \<Longrightarrow> length q < length s"
proof (induction "length s" arbitrary: s rule: less_induct)
  case less
  obtain a b where s: "s = a @ sep # b" "sep \<notin> set a" using split_list_first [OF less.prems(2)] by blast
  with less.prems(1) consider "q = a" | "q \<in> set (split_at sep b)" by (auto simp: split_at_first)
  then show ?case
  proof cases
    case 1
    with s show ?thesis by simp
  next
    case 2
    show ?thesis
    proof (cases "sep \<in> set b")
      case True
      with less.hyps [of b] 2 s show ?thesis by fastforce
    next
      case False
      with 2 s show ?thesis by (simp add: split_at_whole)
    qed
  qed
qed

lemma set_split_at: "q \<in> set (split_at sep s) \<Longrightarrow> c \<in> set q \<Longrightarrow> c \<in> set s"
proof -
  assume "q \<in> set (split_at sep s)" "c \<in> set q"
  moreover have "q \<in> set fs \<Longrightarrow> c \<in> set q \<Longrightarrow> c \<in> set (join [sep] fs)" for fs
    by (induction fs rule: induct_list012) auto
  ultimately show ?thesis by (metis join_split)
qed

lemma split_at_append:
  "split_at sep (a @ sep # b) = split_at sep a @ split_at sep b"
proof (induction a)
  case (Cons c a)
  then show ?case by (cases "split_at sep a") (auto split: list.split)
qed simp

lemma split_at_join_parts: "ps \<noteq> [] \<Longrightarrow> split_at sep (join [sep] ps) = concat (map (split_at sep) ps)"
  by (induction ps rule: induct_list012) (simp_all add: split_at_append)

text \<open>Dashes that stand between letters or digits cut a string at such characters.\<close>

lemma pieces_edges:
  assumes "words k" and "k \<noteq> []" and "edge (hd k)" and "edge (last k)"
    and "\<not> contains k ''.-''" and "\<not> contains k ''-.''" and "q \<in> set (split_at CHR ''-'' k)"
  shows "q \<noteq> [] \<and> edge (hd q) \<and> edge (last q)"
  using assms
proof (induction "length k" arbitrary: k rule: less_induct)
  case less
  show ?case
  proof (cases "CHR ''-'' \<in> set k")
    case False
    with less.prems show ?thesis by (simp add: split_at_whole)
  next
    case True
    then obtain a b where k: "k = a @ CHR ''-'' # b" "CHR ''-'' \<notin> set a"
      using split_list_first by metis
    have nd: "\<not> edge CHR ''-''" by (simp add: edge_def is_lower_def is_digit_def)
    have "a \<noteq> []" using less.prems(3) k nd by auto
    then have a': "a = butlast a @ [last a]" by simp
    have "b \<noteq> []" using less.prems(4) k nd by auto
    then have b': "b = hd b # tl b" by simp
    have "words ([last a] @ [CHR ''-'', hd b])"
      using less.prems(1) a' b' words_append [of "butlast a"] words_append [of "[last a, CHR ''-'', hd b]" "tl b"]
      unfolding k by (metis append.assoc append_Cons append_Nil)
    then have w: "word_char (last a)" "word_char (hd b)" by simp_all
    have "k = butlast a @ [last a, CHR ''-''] @ b" using a' k by (metis append.assoc append_Cons append_Nil)
    then have "last a \<noteq> CHR ''.''" using less.prems(5) contains_append by metis
    moreover have "k = a @ [CHR ''-'', hd b] @ tl b" using b' k by simp
    then have "hd b \<noteq> CHR ''.''" using less.prems(6) contains_append by metis
    ultimately have e: "edge (last a)" "edge (hd b)" using w by (auto simp: word_char_def edge_def)
    have "q = a \<or> q \<in> set (split_at CHR ''-'' b)" using less.prems(7) k by (simp add: split_at_first)
    then show ?thesis
    proof
      assume "q = a"
      with e \<open>a \<noteq> []\<close> less.prems(3) k show ?thesis by simp
    next
      assume q: "q \<in> set (split_at CHR ''-'' b)"
      have "words b" using words_append [of "a @ [CHR ''-'']" b] less.prems(1) k by simp
      moreover have "edge (last b)" using less.prems(4) k \<open>b \<noteq> []\<close> by simp
      moreover have "\<not> contains b ''.-''" "\<not> contains b ''-.''"
        using less.prems(5,6) contains_later [of b _ "a @ [CHR ''-'']"] k by auto
      ultimately show ?thesis using less.hyps [of b] k q e \<open>b \<noteq> []\<close> by simp
    qed
  qed
qed

lemma trim_bytes_infix: "\<exists>a b. s = a @ trim_bytes s cs @ b"
proof -
  define d where "d = dropWhile (\<lambda>c. c \<in> set cs) s"
  have "s = takeWhile (\<lambda>c. c \<in> set cs) s @ d" by (simp add: d_def)
  moreover have "rev d = takeWhile (\<lambda>c. c \<in> set cs) (rev d) @ dropWhile (\<lambda>c. c \<in> set cs) (rev d)" by simp
  then have "d = trim_bytes s cs @ rev (takeWhile (\<lambda>c. c \<in> set cs) (rev d))"
    unfolding trim_bytes_def d_def [symmetric] by (metis rev_append rev_rev_ident)
  ultimately show ?thesis by metis
qed

lemma words_component: "words (normalize_component s)"
proof -
  have "words (component_loop s ([], False))" by (rule loop_words) simp_all
  with trim_bytes_infix show ?thesis unfolding normalize_component_def by (metis words_append)
qed

lemma words_glue: "words x \<Longrightarrow> x \<noteq> [] \<Longrightarrow> edge (last x) \<Longrightarrow> words (d # s) \<Longrightarrow> edge d \<Longrightarrow> words (x @ CHR ''-'' # d # s)"
  by (induction x rule: words.induct) (auto simp: key_char_def edge_def word_char_def)

lemma words_join:
  assumes "\<forall>p\<in>set ps. component_ok p \<and> words p"
  shows "words (join ''-'' ps)"
  using assms
proof (induction ps rule: induct_list012)
  case (3 x y zs)
  obtain d s where d: "join ''-'' (y # zs) = d # s" "edge d"
    using join_parts [of "y # zs"] "3.prems" by (cases "join ''-'' (y # zs)") auto
  have "words (join ''-'' (y # zs))" using 3 by simp
  with d "3.prems" words_glue [of x d s] show ?case by (simp add: component_ok_def)
qed simp_all

text \<open>
  C32. A detected key given back through \<open>--os-id\<close> names the same fingerprint, as long as no
  dash of it stands next to a dot. With a dash next to a dot it does not: the key that
  \<open>Key\<close> gives for the version \<open>7. beta\<close> is changed by \<open>NormalizeKey\<close>.
\<close>

theorem detected_key_is_normal:
  assumes "\<not> contains (info_key i) ''.-''" and "\<not> contains (info_key i) ''-.''"
  shows "normalize_key (info_key i) = Inr (info_key i)"
proof (cases "key_parts i = []")
  case True
  then show ?thesis
    by (simp add: info_key_def normalize_key_pieces normal_piece_def word_char_def edge_def is_lower_def)
next
  case False
  let ?ps = "key_parts i"
  have k: "info_key i = join ''-'' ?ps" using False by (simp add: info_key_def)
  have ok: "\<forall>p\<in>set ?ps. component_ok p" using key_parts_ok by blast
  have "\<forall>p\<in>set ?ps. \<exists>s. p = normalize_component s"
    by (auto simp: key_parts_def non_empty_def split: if_splits)
  then have norm: "\<forall>p\<in>set ?ps. words p \<and> (CHR ''-'' \<notin> set p \<longrightarrow> length p \<le> 32)"
    using words_component component_without_dash by metis
  have w: "words (info_key i)" unfolding k
    by (rule words_join) (use ok norm in \<open>auto simp: component_ok_def\<close>)
  have "normal_piece q" if q: "q \<in> set (split_at CHR ''-'' (info_key i))" for q
  proof -
    have "q \<noteq> [] \<and> edge (hd q) \<and> edge (last q)"
      by (rule pieces_edges [OF w _ _ _ assms q]) (use key_shape [of i] in auto)
    moreover from q obtain p where p: "p \<in> set ?ps" "q \<in> set (split_at CHR ''-'' p)"
      using k split_at_join_parts [OF False, of "CHR ''-''"] by auto
    have "length q \<le> 32"
    proof (cases "CHR ''-'' \<in> set p")
      case True
      with split_at_length [OF p(2)] ok p(1) show ?thesis by (fastforce simp: component_ok_def)
    next
      case False
      with p norm show ?thesis by (simp add: split_at_whole)
    qed
    moreover have "list_all word_char q"
    proof -
      have "set q \<subseteq> set (info_key i)" using q set_split_at by blast
      moreover have "CHR ''-'' \<notin> set q" using split_at_no_sep [OF q] .
      ultimately show ?thesis using key_shape [of i] by (fastforce simp: list_all_iff key_char_def)
    qed
    ultimately show ?thesis by (simp add: normal_piece_def)
  qed
  then show ?thesis using normalize_key_pieces by blast
qed

definition beta_info :: "string \<Rightarrow> os_info" where
  "beta_info v = \<lparr>oi_os = ''linux'', oi_distro = ''X Linux'', oi_version = v, oi_arch = ''amd64'',
     oi_kernel = [], oi_pretty = [], oi_hostname = [], oi_source = []\<rparr>"

lemma detected_key_renormalized:
  "info_key (beta_info ''7. beta'') = ''linux-x-linux-7.-beta-amd64'' \<and>
   normalize_key (info_key (beta_info ''7. beta'')) = Inr ''linux-x-linux-7-beta-amd64''"
  by code_simp

theorem detected_key_is_normal_witness:
  "normalize_key ''linux-x-linux-7.1-amd64'' = Inr ''linux-x-linux-7.1-amd64''"
proof -
  have "info_key (beta_info ''7.1'') = ''linux-x-linux-7.1-amd64''" by code_simp
  with detected_key_is_normal [of "beta_info ''7.1''"] show ?thesis by (simp add: has_prefix_def)
qed

section \<open>os-release\<close>

text \<open>An \<open>os-release\<close> file as a distribution writes it, every value in double quotes.\<close>

fun escape :: "string \<Rightarrow> string" where
  "escape [] = []"
| "escape (c # s) = (if c = CHR 34 \<or> c = CHR 92 then CHR 92 # c # escape s else c # escape s)"

definition quoted_line :: "string \<times> string \<Rightarrow> string" where
  "quoted_line kv = fst kv @ CHR ''='' # CHR 34 # escape (snd kv) @ [CHR 34]"

definition os_release_text :: "(string \<times> string) list \<Rightarrow> string" where
  "os_release_text kvs = concat (map (\<lambda>kv. quoted_line kv @ [CHR 10]) kvs)"

definition assignment_ok :: "string \<times> string \<Rightarrow> bool" where
  "assignment_ok kv \<longleftrightarrow>
     fst kv \<noteq> [] \<and> list_all plain (fst kv) \<and> CHR ''='' \<notin> set (fst kv) \<and> hd (fst kv) \<noteq> CHR ''#'' \<and>
     CHR 10 \<notin> set (snd kv)"

lemma unescape_escape: "unescape (escape s) = s"
proof -
  have id: "escape s = s" if "CHR 34 \<notin> set s" "CHR 92 \<notin> set s" for s using that by (induction s) auto
  have other: "c \<noteq> CHR 92 \<Longrightarrow> unescape (c # s) = c # unescape s" for c s by (cases s) auto
  show ?thesis by (induction s) (auto simp: other)
qed

lemma escape_id: "CHR 92 \<notin> set (escape s) \<Longrightarrow> escape s = s"
  by (induction s) (auto split: if_splits)

lemma unquote_escape: "unquote (CHR 34 # escape v @ [CHR 34]) = v"
  by (auto simp: unquote_def Let_def unescape_escape escape_id)

lemma plain_quote: "plain CHR 34"
  by (simp add: plain_def)

lemma os_release_line_quoted:
  assumes "assignment_ok kv"
  shows "os_release_line (quoted_line kv) = Some kv"
proof -
  obtain k v where kv: "kv = (k, v)" by (cases kv)
  with assms have k: "k \<noteq> []" "list_all plain k" "CHR ''='' \<notin> set k" "hd k \<noteq> CHR ''#''"
    by (simp_all add: assignment_ok_def)
  let ?v = "CHR 34 # escape v @ [CHR 34]" and ?l = "quoted_line kv"
  have l: "?l = k @ CHR ''='' # ?v" by (simp add: quoted_line_def kv)
  have "plain (hd k)" "plain (last k)" using k(1,2) by (simp_all add: list_all_iff)
  with k(1) have t: "trim_space ?l = ?l" "trim_space k = k" "trim_space ?v = ?v"
    by (auto simp: l plain_quote intro!: trim_space_plain)
  have c: "cut CHR ''='' ?l = Some (k, ?v)" unfolding l using k(3) by (induction k) auto
  have "\<not> has_prefix ?l ''#''" using k(1,4) by (cases k) (auto simp: l has_prefix_def)
  moreover have "?l \<noteq> []" by (simp add: l)
  ultimately show ?thesis by (simp add: os_release_line_def t c k(1) unquote_escape) (simp add: kv)
qed

lemma quoted_line_no_newline: "assignment_ok kv \<Longrightarrow> CHR 10 \<notin> set (quoted_line kv)"
proof -
  have "set (escape s) \<subseteq> insert (CHR 92) (set s)" for s by (induction s) auto
  moreover have "\<not> plain (CHR 10)" by (simp add: plain_def)
  moreover assume "assignment_ok kv"
  ultimately show ?thesis by (fastforce simp: assignment_ok_def quoted_line_def list_all_iff)
qed

lemma trim_space_Nil: "trim_space [] = []"
proof -
  have "trim_left_of qs [] = []" for qs
    by (rule trim_left_of_fix) (auto simp: find_None_iff has_prefix_def)
  then show ?thesis by (simp add: trim_space_def)
qed

lemma parse_os_release_text:
  assumes "\<forall>kv\<in>set kvs. assignment_ok kv"
  shows "parse_os_release (os_release_text kvs) = rev kvs"
proof -
  have "split_at (CHR 10) (os_release_text kvs) = map quoted_line kvs @ [[]]"
    using assms by (induction kvs) (simp_all add: os_release_text_def split_at_first quoted_line_no_newline)
  moreover have "os_release_line [] = None" by (simp add: os_release_line_def trim_space_Nil)
  moreover have "List.map_filter os_release_line (map quoted_line kvs) = kvs"
    using assms by (induction kvs) (simp_all add: os_release_line_quoted List.map_filter_simps)
  ultimately show ?thesis by (simp add: parse_os_release_def List.map_filter_def)
qed

text \<open>
  C33. On Linux \<open>/etc/os-release\<close> decides: whatever values it assigns, written in double
  quotes with their escapes, the detection gives back exactly the last \<open>ID\<close> and
  \<open>VERSION_ID\<close>, names the file as the source and reports no error, and no other file, no
  helper and no kernel release has a say in it.
\<close>

theorem os_release_decides:
  assumes "ev_goos e = ''linux''" and "ev_read_file e ''/etc/os-release'' = Some (os_release_text kvs)"
    and "\<forall>kv\<in>set kvs. assignment_ok kv" and "setting (rev kvs) ''ID'' \<noteq> []"
  shows "\<exists>i. detect e = (i, None) \<and> oi_os i = ''linux'' \<and> oi_distro i = setting (rev kvs) ''ID'' \<and>
    oi_version i = setting (rev kvs) ''VERSION_ID'' \<and> oi_arch i = oi_arch (start_info e) \<and>
    oi_source i = ''/etc/os-release''"
proof -
  have "kvs \<noteq> []" using assms(4) by (auto simp: setting_def)
  then have "read_os_release e = Some (rev kvs, ''/etc/os-release'')"
    using parse_os_release_text [OF assms(3)] assms(2) by (simp add: read_os_release_def os_release_paths_def)
  moreover have "oi_os (start_info e) = ''linux''"
    using assms(1) by (simp add: start_info_def Let_def split: option.split)
  ultimately show ?thesis
    using assms(1,4) by (simp add: detect_def Let_def detect_linux_def)
qed

definition bare_env :: "string \<Rightarrow> env" where
  "bare_env os = \<lparr>ev_goos = os, ev_goarch = ''amd64'',
     ev_read_file = [''/etc/os-release'' \<mapsto> os_release_text [(''ID'', ''debian''), (''VERSION_ID'', ''12'')]],
     ev_uname = None, ev_hostname = None, ev_run = (\<lambda>_ _. None),
     ev_unicode_lower = (\<lambda>s. s), ev_xml_tokens = (\<lambda>_. [])\<rparr>"

theorem os_release_decides_witness:
  "info_key (fst (detect (bare_env ''linux''))) = ''linux-debian-12-amd64''"
proof -
  have "\<exists>i. detect (bare_env ''linux'') = (i, None) \<and> oi_os i = ''linux'' \<and> oi_distro i = ''debian'' \<and>
      oi_version i = ''12'' \<and> oi_arch i = ''amd64'' \<and> oi_source i = ''/etc/os-release''"
    using os_release_decides [of "bare_env ''linux''" "[(''ID'', ''debian''), (''VERSION_ID'', ''12'')]"]
    by (simp add: bare_env_def setting_def assignment_ok_def plain_def start_info_def)
  moreover have "info_key \<lparr>oi_os = ''linux'', oi_distro = ''debian'', oi_version = ''12'', oi_arch = ''amd64'',
      oi_kernel = k, oi_pretty = p, oi_hostname = h, oi_source = s\<rparr> = ''linux-debian-12-amd64''" for k p h s
    by code_simp
  ultimately show ?thesis by (metis (full_types) fst_conv os_info.surjective old.unit.exhaust)
qed

end
