(* ===== verification/Scan_Path.thy ===== *)
theory Scan_Path
  imports Exclude Canon
begin

text \<open>
  The paths of a walk: \<open>filepath.Join\<close> of a directory and a name, the shape of a cleaned
  absolute path, and the order of the paths below two siblings. What \<open>ReadDir\<close> promises of
  a name is \<open>valid_name\<close>.
\<close>

section \<open>Join\<close>

definition filepath_join :: "string \<Rightarrow> string \<Rightarrow> string" where
  "filepath_join a b =
     (if a \<noteq> [] then clean (a @ ''/'' @ b) else if b \<noteq> [] then clean b else [])"

definition valid_name :: "string \<Rightarrow> bool" where
  "valid_name n \<longleftrightarrow> n \<noteq> [] \<and> CHR ''/'' \<notin> set n \<and> n \<noteq> ''.'' \<and> n \<noteq> ''..''"

text \<open>The cleaned absolute path of a list of components.\<close>

definition abs_path :: "string list \<Rightarrow> string" where
  "abs_path cs = CHR ''/'' # join ''/'' cs"

definition clean_abs :: "string \<Rightarrow> bool" where
  "clean_abs p \<longleftrightarrow> (\<exists>cs. p = abs_path cs \<and> (\<forall>c\<in>set cs. valid_name c))"

lemma split_at_cons: "sep \<notin> set n \<Longrightarrow> split_at sep (n @ sep # s) = n # split_at sep s"
  by (induction n) auto

lemma split_at_none: "sep \<notin> set n \<Longrightarrow> split_at sep n = [n]"
  by (induction n) auto

lemma split_join_append:
  "\<forall>c\<in>set cs. CHR ''/'' \<notin> set c \<Longrightarrow> cs \<noteq> [] \<Longrightarrow>
   split_at CHR ''/'' (join ''/'' cs @ CHR ''/'' # s) = cs @ split_at CHR ''/'' s"
proof (induction cs)
  case (Cons c cs)
  then show ?case by (cases cs) (auto simp: split_at_cons)
qed simp

lemma split_at_join:
  "\<forall>c\<in>set cs. CHR ''/'' \<notin> set c \<Longrightarrow> cs \<noteq> [] \<Longrightarrow> split_at CHR ''/'' (join ''/'' cs) = cs"
proof (induction cs)
  case (Cons c cs)
  then show ?case by (cases cs) (auto simp: split_at_cons split_at_none)
qed simp

lemma clean_steps_valid:
  "\<forall>c\<in>set cs. valid_name c \<Longrightarrow> foldl (clean_step rooted) out cs = rev cs @ out"
  by (induction cs arbitrary: out) (auto simp: clean_step_def valid_name_def)

lemma clean_step_empty [simp]: "clean_step rooted out [] = out"
  by (simp add: clean_step_def)

lemma valid_no_slash: "\<forall>c\<in>set cs. valid_name c \<Longrightarrow> \<forall>c\<in>set cs. CHR ''/'' \<notin> set c"
  by (simp add: valid_name_def)

lemma has_prefix_slash: "has_prefix (CHR ''/'' # p) ''/''"
  by (simp add: has_prefix_def)

lemma clean_abs_path:
  assumes "\<forall>c\<in>set cs. valid_name c"
  shows "clean (abs_path cs) = abs_path cs"
proof -
  have "split_at CHR ''/'' (abs_path cs) = [] # (if cs = [] then [[]] else cs)"
    using split_at_join [OF valid_no_slash [OF assms]] by (simp add: abs_path_def)
  then show ?thesis
    using clean_steps_valid [OF assms, of True "[]"]
    by (auto simp: clean_def abs_path_def has_prefix_slash split: if_splits)
qed

lemma join_abs_path:
  assumes "\<forall>c\<in>set cs. valid_name c" and "valid_name n"
  shows "filepath_join (abs_path cs) n = abs_path (cs @ [n])"
proof -
  have n: "split_at CHR ''/'' n = [n]" using assms(2) by (simp add: split_at_none valid_name_def)
  have "split_at CHR ''/'' (abs_path cs @ CHR ''/'' # n) = [] # (if cs = [] then [[]] else cs) @ [n]"
    using split_join_append [OF valid_no_slash [OF assms(1)]] n by (simp add: abs_path_def)
  moreover have "foldl (clean_step True) [] ((if cs = [] then [[]] else cs) @ [n]) = rev (cs @ [n])"
    using clean_steps_valid [OF assms(1), of True "[]"] assms(2)
    by (auto simp: clean_step_def valid_name_def)
  ultimately show ?thesis
    by (simp add: filepath_join_def clean_def abs_path_def has_prefix_slash)
qed

text \<open>\<open>Clean\<close> of any absolute path has this shape: no \<open>..\<close> survives below the root.\<close>

lemma clean_steps_rooted:
  "\<forall>c\<in>set out. valid_name c \<Longrightarrow> \<forall>c\<in>set cs. CHR ''/'' \<notin> set c \<Longrightarrow>
   \<forall>c\<in>set (foldl (clean_step True) out cs). valid_name c"
proof (induction cs arbitrary: out)
  case (Cons c cs)
  have "\<forall>d\<in>set (clean_step True out c). valid_name d"
    using Cons.prems by (auto simp: clean_step_def valid_name_def split: list.splits)
  with Cons show ?case by simp
qed simp

lemma clean_absolute: "absolute p \<Longrightarrow> clean_abs (clean p)"
proof -
  assume "absolute p"
  then have r: "has_prefix p ''/''" by (simp add: absolute_def)
  let ?cs = "rev (foldl (clean_step True) [] (split_at CHR ''/'' p))"
  have "\<forall>c\<in>set ?cs. valid_name c"
    using clean_steps_rooted [of "[]" "split_at CHR ''/'' p"] split_at_no_sep [of _ "CHR ''/''" p] by simp
  moreover have "clean p = abs_path ?cs" using r by (simp add: clean_def abs_path_def)
  ultimately show ?thesis unfolding clean_abs_def by blast
qed

section \<open>Children\<close>

definition child_path :: "string \<Rightarrow> string \<Rightarrow> string" where
  "child_path p n = (if p = ''/'' then ''/'' @ n else p @ ''/'' @ n)"

lemma join_snoc: "cs \<noteq> [] \<Longrightarrow> join s (cs @ [n]) = join s cs @ s @ n"
  by (induction s cs rule: join.induct) auto

lemma abs_path_root: "\<forall>c\<in>set cs. valid_name c \<Longrightarrow> abs_path cs = ''/'' \<longleftrightarrow> cs = []"
  by (cases cs rule: remdups_adj.cases) (auto simp: abs_path_def valid_name_def)

lemma clean_abs_join:
  assumes "clean_abs p" and "valid_name n"
  shows "filepath_join p n = child_path p n" and "clean_abs (child_path p n)"
proof -
  obtain cs where cs: "p = abs_path cs" "\<forall>c\<in>set cs. valid_name c" using assms(1) by (auto simp: clean_abs_def)
  have c: "child_path p n = abs_path (cs @ [n])"
    using abs_path_root [OF cs(2)] cs(1) by (cases "cs = []") (auto simp: child_path_def abs_path_def join_snoc)
  with join_abs_path [OF cs(2) assms(2)] cs(1) show "filepath_join p n = child_path p n" by simp
  have "\<forall>c\<in>set (cs @ [n]). valid_name c" using cs(2) assms(2) by auto
  with c show "clean_abs (child_path p n)" unfolding clean_abs_def by blast
qed

lemma child_path_not_root: "valid_name n \<Longrightarrow> child_path p n \<noteq> ''/''"
  by (auto simp: child_path_def valid_name_def append_eq_Cons_conv)

lemma clean_abs_nonempty: "clean_abs p \<Longrightarrow> p \<noteq> []"
  by (auto simp: clean_abs_def abs_path_def)

text \<open>A child, and everything below it, follows its directory.\<close>

lemma child_path_after:
  assumes "valid_name n" and "is_under q (child_path p n)"
  shows "key_less p q"
proof -
  have "\<exists>r. q = p @ r \<and> r \<noteq> []"
    using assms child_path_not_root [OF assms(1), of p]
    by (auto simp: is_under_iff child_path_def valid_name_def split: if_splits)
  then show ?thesis using compare_key_prefix by auto
qed

text \<open>Everything below a child of smaller name comes before everything below a child of larger name.\<close>

lemma child_path_sorted:
  assumes "valid_name m" and "valid_name n" and "m < n"
    and "is_under p (child_path d m)" and "is_under q (child_path d n)"
  shows "key_less p q"
proof -
  obtain r where r: "p = child_path d m @ r" "boundary r"
    using assms(4) child_path_not_root [OF assms(1)] by (auto simp: is_under_iff boundary_def)
  obtain s where s: "q = child_path d n @ s" "boundary s"
    using assms(5) child_path_not_root [OF assms(2)] by (auto simp: is_under_iff boundary_def)
  have "key_less (m @ r) (n @ s)"
    using assms(1-3) r(2) s(2) by (intro compare_key_siblings) (auto simp: valid_name_def)
  then show ?thesis by (simp add: r(1) s(1) child_path_def)
qed

lemma child_path_under: "clean_abs p \<Longrightarrow> is_under (child_path p n) p"
  by (auto simp: child_path_def is_under_iff)

lemma under_child: "valid_name n \<Longrightarrow> is_under q (child_path p n) \<Longrightarrow> is_under q p"
  using child_path_not_root [of n p] by (auto simp: is_under_iff child_path_def split: if_splits)

end
