(* ===== verification/Scan_Walk.thy ===== *)
theory Scan_Walk
  imports Scan_Path Entry Fs_Type Go_Sha256
begin

text \<open>
  \<open>internal/scan/walk.go\<close> with \<open>hash.go\<close>, \<open>open_linux.go\<close> and \<open>stat_unix.go\<close>: the recursive
  walk of a subtree and the consumer of its entries.

  What the operating system answers along the walk is a \<open>tree\<close>: for each path the walk may
  reach, the result of \<open>Lstat\<close>, of \<open>Readlink\<close>, and of \<open>ReadDir\<close> with its error. A path is
  visited once at most, so a tree also describes a file system that changes under the walk.
  The remaining calls are the functions of \<open>system\<close>. \<open>sy_cancelled k\<close> is the answer of the
  context to the \<open>k\<close>-th time the walker asks it; a \<open>select\<close> between a free cell and a
  cancelled context may take either branch, and so may the oracle.

  The reorder buffer hands out its cells in turn: they are released in the order in which
  they were committed, which is the order in which they were acquired, so the \<open>k\<close>-th
  acquisition gets cell \<open>k mod n\<close> (theory \<open>Scan_Ring\<close> shows this of the channels). The walker
  keeps a pointer to the cell of a directory while it walks the children, and reads \<open>e.Dev\<close>
  through it after the cell was committed; \<open>ws_cells\<close> is the memory it reads.
\<close>

section \<open>Options\<close>

datatype mount_policy = MountLocal | MountSame | MountAll

definition parse_mount_policy :: "string \<Rightarrow> string + mount_policy" where
  "parse_mount_policy s =
     (if s = ''local'' \<or> s = [] then Inr MountLocal
      else if s = ''same'' then Inr MountSame
      else if s = ''all'' then Inr MountAll
      else Inl s)"

definition mount_policy_string :: "mount_policy \<Rightarrow> string" where
  "mount_policy_string p =
     (case p of MountSame \<Rightarrow> ''same'' | MountAll \<Rightarrow> ''all'' | MountLocal \<Rightarrow> ''local'')"

record skipped_mount =
  sk_path :: string
  sk_fs_type :: string
  sk_kind :: fs_kind

record walk_options =
  wo_root :: string
  wo_exclude :: "exclude_set option"
  wo_mounts :: mount_policy
  wo_max_depth :: int
  wo_jobs :: int
  wo_max_file_size :: i64
  wo_no_hash :: bool
  wo_descend :: "(entry \<Rightarrow> bool) option"

definition default_max_depth :: int where "default_max_depth = 64"

definition default_jobs :: "int \<Rightarrow> int" where
  "default_jobs num_cpu = (if num_cpu < 8 then num_cpu else 8)"

definition set_defaults :: "int \<Rightarrow> walk_options \<Rightarrow> walk_options" where
  "set_defaults num_cpu o' =
     (let o' = (if wo_root o' = [] then o'\<lparr>wo_root := ''/''\<rparr> else o');
          o' = (if wo_max_depth o' \<le> 0 then o'\<lparr>wo_max_depth := default_max_depth\<rparr> else o')
      in if wo_jobs o' \<le> 0 then o'\<lparr>wo_jobs := default_jobs num_cpu\<rparr> else o')"

section \<open>What the system answers\<close>

record sys_stat =
  ss_uid :: u32
  ss_gid :: u32
  ss_dev :: u64
  ss_ino :: u64
  ss_nlink :: u32

record file_info =
  fi_mode :: u32
  fi_size :: i64
  fi_mtime :: i64
  fi_sys :: "sys_stat option"

text \<open>
  A child of a listing whose \<open>Info\<close> fails has vanished since the directory was read.
\<close>

datatype tree = Tree file_info "string + string" listing "string option"
  and listing = NoMore | Gone string string listing | Child string tree listing

datatype open_result = Opened "string + byte list" | NotPermitted string | OpenFailed string

record system =
  sy_num_cpu :: int
  sy_classify :: "string \<Rightarrow> string \<times> fs_kind"
  sy_open_noatime :: "string \<Rightarrow> open_result"
  sy_open :: "string \<Rightarrow> string + (string + byte list)"
  sy_cancelled :: "nat \<Rightarrow> bool"

section \<open>Filling an entry\<close>

definition fill_stat :: "entry \<Rightarrow> file_info \<Rightarrow> entry" where
  "fill_stat e info =
     (case fi_sys info of
        None \<Rightarrow> e
      | Some st \<Rightarrow> e\<lparr>e_uid := ss_uid st, e_gid := ss_gid st, e_dev := ss_dev st,
                     e_ino := ss_ino st, e_nlink := ss_nlink st\<rparr>)"

definition fill_entry :: "string \<Rightarrow> file_info \<Rightarrow> string + string \<Rightarrow> entry" where
  "fill_entry path info link =
     (let e = fill_stat (zero_entry\<lparr>e_path := path, e_type := type_of (fi_mode info),
                e_mode := unix_mode (fi_mode info), e_size := fi_size info,
                e_mtime := fi_mtime info\<rparr>) info
      in if e_type e = type_symlink
         then (case link of Inr target \<Rightarrow> e\<lparr>e_link := target\<rparr> | Inl err \<Rightarrow> e\<lparr>e_err := err\<rparr>)
         else e)"

text \<open>
  \<open>openForHash\<close> on Linux: without touching the access time where that is permitted. The
  outer sum is the error of opening, the inner one the error of reading.
\<close>

definition open_for_hash :: "system \<Rightarrow> string \<Rightarrow> string + (string + byte list)" where
  "open_for_hash sy path =
     (case sy_open_noatime sy path of
        Opened r \<Rightarrow> Inr r
      | NotPermitted _ \<Rightarrow> sy_open sy path
      | OpenFailed err \<Rightarrow> Inl err)"

definition hash_entry :: "system \<Rightarrow> i64 \<Rightarrow> entry \<Rightarrow> entry" where
  "hash_entry sy max_size e =
     (if 0 <s max_size \<and> max_size <s e_size e then e\<lparr>e_partial := True\<rparr>
      else case open_for_hash sy (e_path e) of
             Inl err \<Rightarrow> e\<lparr>e_err := err\<rparr>
           | Inr (Inl err) \<Rightarrow> e\<lparr>e_err := err\<rparr>
           | Inr (Inr content) \<Rightarrow> e\<lparr>e_hash := sha256 content, e_hashed := True\<rparr>)"

section \<open>The walker\<close>

record walk_state =
  ws_cells :: "nat \<Rightarrow> entry"
  ws_acquired :: nat
  ws_polls :: nat
  ws_out :: "entry list"
  ws_pruned :: nat
  ws_skipped :: "skipped_mount list"

definition walk_start :: walk_state where
  "walk_start = \<lparr>ws_cells = (\<lambda>_. zero_entry), ws_acquired = 0, ws_polls = 0, ws_out = [],
     ws_pruned = 0, ws_skipped = []\<rparr>"

text \<open>The only error of a walk: \<open>ctx.Err()\<close>.\<close>

datatype ctx_error = ContextDone

definition poll :: "system \<Rightarrow> walk_state \<Rightarrow> walk_state \<times> ctx_error option" where
  "poll sy st =
     (st\<lparr>ws_polls := Suc (ws_polls st)\<rparr>,
      if sy_cancelled sy (ws_polls st) then Some ContextDone else None)"

definition ring_size :: "walk_options \<Rightarrow> nat" where
  "ring_size opts = nat (4 * wo_jobs opts)"

text \<open>\<open>acquire\<close>: the next cell of the ring, emptied.\<close>

definition acquire :: "walk_options \<Rightarrow> system \<Rightarrow> walk_state \<Rightarrow> walk_state \<times> (ctx_error + nat)" where
  "acquire opts sy st =
     (case poll sy st of
        (st, Some x) \<Rightarrow> (st, Inl x)
      | (st, None) \<Rightarrow>
          (let i = ws_acquired st mod ring_size opts
           in (st\<lparr>ws_acquired := Suc (ws_acquired st), ws_cells := (ws_cells st)(i := zero_entry)\<rparr>,
               Inr i)))"

definition set_cell :: "nat \<Rightarrow> entry \<Rightarrow> walk_state \<Rightarrow> walk_state" where
  "set_cell i e st = st\<lparr>ws_cells := (ws_cells st)(i := e)\<rparr>"

text \<open>\<open>commit\<close>: the entry as the consumer finds it, after the worker.\<close>

definition commit :: "entry \<Rightarrow> walk_state \<Rightarrow> walk_state" where
  "commit e st = st\<lparr>ws_out := ws_out st @ [e]\<rparr>"

definition note_mount :: "string \<Rightarrow> string \<Rightarrow> fs_kind \<Rightarrow> walk_state \<Rightarrow> walk_state" where
  "note_mount path fs_type kind st =
     (if length (ws_skipped st) < 20
      then st\<lparr>ws_skipped := ws_skipped st @ [\<lparr>sk_path = path, sk_fs_type = fs_type, sk_kind = kind\<rparr>]\<rparr>
      else st)"

definition cross_mount ::
    "walk_options \<Rightarrow> system \<Rightarrow> string \<Rightarrow> walk_state \<Rightarrow> walk_state \<times> bool" where
  "cross_mount opts sy path st =
     (if wo_mounts opts = MountAll then (st, True)
      else case sy_classify sy path of
             (name, kind) \<Rightarrow>
               if wo_mounts opts = MountLocal \<and> kind = FSLocal then (st, True)
               else (note_mount path name kind st, False))"

definition may_descend ::
    "walk_options \<Rightarrow> system \<Rightarrow> entry \<Rightarrow> nat \<Rightarrow> u64 \<Rightarrow> walk_state \<Rightarrow> walk_state \<times> bool" where
  "may_descend opts sy e depth parent_dev st =
     (if depth = 0 then (st, True)
      else
        let (st, crossed) = (if e_dev e \<noteq> parent_dev then cross_mount opts sy (e_path e) st else (st, True))
        in if \<not> crossed \<or> wo_max_depth opts \<le> int depth
              \<or> (case wo_descend opts of None \<Rightarrow> False | Some f \<Rightarrow> \<not> f e)
           then (st\<lparr>ws_pruned := Suc (ws_pruned st)\<rparr>, False)
           else (st, True))"

text \<open>\<open>emitError\<close>: a path that could not be stat'ed.\<close>

definition error_entry :: "string \<Rightarrow> string \<Rightarrow> entry" where
  "error_entry path err = zero_entry\<lparr>e_path := path, e_type := type_error, e_err := err\<rparr>"

definition emit_error ::
    "walk_options \<Rightarrow> system \<Rightarrow> string \<Rightarrow> string \<Rightarrow> walk_state \<Rightarrow> walk_state \<times> ctx_error option" where
  "emit_error opts sy path err st =
     (case acquire opts sy st of
        (st, Inl x) \<Rightarrow> (st, Some x)
      | (st, Inr i) \<Rightarrow> (commit (error_entry path err) (set_cell i (error_entry path err) st), None))"

text \<open>The entry as it leaves \<open>visit\<close>: with the error of the listing, and through the worker.\<close>

definition wants_hash :: "walk_options \<Rightarrow> entry \<Rightarrow> bool" where
  "wants_hash opts e \<longleftrightarrow> e_type e = type_file \<and> \<not> wo_no_hash opts"

definition with_list_error :: "bool \<Rightarrow> string option \<Rightarrow> entry \<Rightarrow> entry" where
  "with_list_error descend list_err e =
     (if descend then (case list_err of None \<Rightarrow> e | Some err \<Rightarrow> e\<lparr>e_err := err\<rparr>) else e)"

definition finished :: "walk_options \<Rightarrow> system \<Rightarrow> entry \<Rightarrow> entry" where
  "finished opts sy e =
     (if wants_hash opts e then hash_entry sy (wo_max_file_size opts) e else e)"

text \<open>
  \<open>visit\<close> up to and including \<open>commit\<close>. The result is an error, or the index of the cell and
  whether the children are walked. A failed \<open>ReadDir\<close> sets \<open>descend\<close> to false in the code,
  but the variable is not read again: the children it did return are walked.
\<close>

definition visit_entry ::
    "walk_options \<Rightarrow> system \<Rightarrow> string \<Rightarrow> file_info \<Rightarrow> string + string \<Rightarrow> string option \<Rightarrow> nat
       \<Rightarrow> u64 \<Rightarrow> walk_state \<Rightarrow> walk_state \<times> (ctx_error + nat \<times> bool)" where
  "visit_entry opts sy path info link list_err depth parent_dev st =
     (case poll sy st of
        (st, Some x) \<Rightarrow> (st, Inl x)
      | (st, None) \<Rightarrow>
          (case acquire opts sy st of
             (st, Inl x) \<Rightarrow> (st, Inl x)
           | (st, Inr i) \<Rightarrow>
               (let e = fill_entry path info link;
                    st = set_cell i e st;
                    (st, descend) = (if is_dir e then may_descend opts sy e depth parent_dev st
                                     else (st, False));
                    e = with_list_error descend list_err e;
                    st = set_cell i e st;
                    (st, sent) = (if wants_hash opts e then poll sy st else (st, None))
                in case sent of
                     Some x \<Rightarrow> (st, Inl x)
                   | None \<Rightarrow> (commit (finished opts sy e) st, Inr (i, descend)))))"

definition excluded :: "walk_options \<Rightarrow> string \<Rightarrow> bool" where
  "excluded opts path \<longleftrightarrow> (case wo_exclude opts of None \<Rightarrow> False | Some s \<Rightarrow> set_match s path)"

primrec
  visit :: "walk_options \<Rightarrow> system \<Rightarrow> string \<Rightarrow> tree \<Rightarrow> nat \<Rightarrow> u64 \<Rightarrow> walk_state
    \<Rightarrow> walk_state \<times> ctx_error option" and
  visit_children :: "walk_options \<Rightarrow> system \<Rightarrow> string \<Rightarrow> listing \<Rightarrow> nat \<Rightarrow> nat \<Rightarrow> walk_state
    \<Rightarrow> walk_state \<times> ctx_error option" where
  "visit opts sy path (Tree info link ls list_err) depth parent_dev st =
     (case visit_entry opts sy path info link list_err depth parent_dev st of
        (st, Inl x) \<Rightarrow> (st, Some x)
      | (st, Inr (i, descend)) \<Rightarrow>
          if descend then visit_children opts sy path ls depth i st else (st, None))"
| "visit_children opts sy path NoMore depth i st = (st, None)"
| "visit_children opts sy path (Gone n err ls) depth i st =
     (let child = filepath_join path n
      in if excluded opts child then visit_children opts sy path ls depth i st
         else case emit_error opts sy child err st of
                (st, Some x) \<Rightarrow> (st, Some x)
              | (st, None) \<Rightarrow> visit_children opts sy path ls depth i st)"
| "visit_children opts sy path (Child n t ls) depth i st =
     (let child = filepath_join path n
      in if excluded opts child then visit_children opts sy path ls depth i st
         else case visit opts sy child t (Suc depth) (e_dev (ws_cells st i)) st of
                (st, Some x) \<Rightarrow> (st, Some x)
              | (st, None) \<Rightarrow> visit_children opts sy path ls depth i st)"

section \<open>Walk\<close>

record scan_stats =
  sc_dirs :: nat
  sc_files :: nat
  sc_symlinks :: nat
  sc_others :: nat
  sc_errors :: nat
  sc_hashed :: nat
  sc_partial :: nat
  sc_pruned :: nat
  sc_skipped :: "skipped_mount list"
  sc_bytes :: i64

definition no_stats :: scan_stats where
  "no_stats = \<lparr>sc_dirs = 0, sc_files = 0, sc_symlinks = 0, sc_others = 0, sc_errors = 0,
     sc_hashed = 0, sc_partial = 0, sc_pruned = 0, sc_skipped = [], sc_bytes = 0\<rparr>"

definition scan_total :: "scan_stats \<Rightarrow> nat" where
  "scan_total s = sc_dirs s + sc_files s + sc_symlinks s + sc_others s"

definition count_entry :: "scan_stats \<Rightarrow> entry \<Rightarrow> scan_stats" where
  "count_entry s e =
     (let s = (if e_type e = type_dir then s\<lparr>sc_dirs := sc_dirs s + 1\<rparr>
               else if e_type e = type_file then s\<lparr>sc_files := sc_files s + 1\<rparr>
               else if e_type e = type_symlink then s\<lparr>sc_symlinks := sc_symlinks s + 1\<rparr>
               else s\<lparr>sc_others := sc_others s + 1\<rparr>);
          s = (if e_err e \<noteq> [] then s\<lparr>sc_errors := sc_errors s + 1\<rparr> else s);
          s = (if e_hashed e then s\<lparr>sc_hashed := sc_hashed s + 1, sc_bytes := sc_bytes s + e_size e\<rparr>
               else s)
      in if e_partial e then s\<lparr>sc_partial := sc_partial s + 1\<rparr> else s)"

datatype 'x walk_error = RootStat string | RootNotDir | WalkEmit 'x | WalkCancelled

text \<open>The consumer: every entry in order, until \<open>emit\<close> fails; the rest is drained unread.\<close>

fun consume ::
    "('w \<Rightarrow> entry \<Rightarrow> 'w \<times> 'x option) \<Rightarrow> entry list \<Rightarrow> scan_stats \<Rightarrow> 'w
       \<Rightarrow> scan_stats \<times> 'x option \<times> 'w" where
  "consume emit [] s w = (s, None, w)"
| "consume emit (e # es) s w =
     (let s = count_entry s e
      in case emit w e of
           (w, None) \<Rightarrow> consume emit es s w
         | (w, Some x) \<Rightarrow> (s, Some x, w))"

definition probe_dev :: "file_info \<Rightarrow> u64" where
  "probe_dev info = e_dev (fill_stat zero_entry info)"

definition info_is_dir :: "file_info \<Rightarrow> bool" where
  "info_is_dir info \<longleftrightarrow> fi_mode info AND mode_dir \<noteq> 0"

text \<open>
  \<open>Walk\<close>, given what \<open>Lstat\<close> says of the root: the walker, and the consumer on what it
  committed. That the consumer cancels the context when \<open>emit\<close> fails is in the oracle.
\<close>

definition walk_scan :: "walk_options \<Rightarrow> system \<Rightarrow> tree \<Rightarrow> walk_state \<times> ctx_error option" where
  "walk_scan opts sy t =
     (case t of Tree info link ls err \<Rightarrow>
        visit opts sy (clean (wo_root opts)) t 0 (probe_dev info) walk_start)"

definition walk ::
    "walk_options \<Rightarrow> system \<Rightarrow> string + tree \<Rightarrow> ('w \<Rightarrow> entry \<Rightarrow> 'w \<times> 'x option) \<Rightarrow> 'w
       \<Rightarrow> scan_stats \<times> 'x walk_error option \<times> 'w" where
  "walk opts sy root emit w =
     (let opts = set_defaults (sy_num_cpu sy) opts
      in case root of
           Inl err \<Rightarrow> (no_stats, Some (RootStat err), w)
         | Inr t \<Rightarrow>
             (case t of Tree info link ls list_err \<Rightarrow>
                if \<not> info_is_dir info then (no_stats, Some RootNotDir, w)
                else
                  let (st, walk_err) = walk_scan opts sy t;
                      (s, emit_err, w) = consume emit (ws_out st) no_stats w;
                      s = s\<lparr>sc_pruned := ws_pruned st, sc_skipped := ws_skipped st\<rparr>
                  in (s,
                      case emit_err of
                        Some x \<Rightarrow> Some (WalkEmit x)
                      | None \<Rightarrow> (case walk_err of Some _ \<Rightarrow> Some WalkCancelled | None \<Rightarrow> None),
                      w)))"

section \<open>Concrete trees\<close>

definition info_on :: "u64 \<Rightarrow> u32 \<Rightarrow> file_info" where
  "info_on dev mode = \<lparr>fi_mode = mode, fi_size = 1, fi_mtime = 0,
     fi_sys = Some \<lparr>ss_uid = 0, ss_gid = 0, ss_dev = dev, ss_ino = 7, ss_nlink = 1\<rparr>\<rparr>"

definition file_on :: "u64 \<Rightarrow> tree" where
  "file_on dev = Tree (info_on dev 0x1A4) (Inr []) NoMore None"

definition dir_on :: "u64 \<Rightarrow> listing \<Rightarrow> tree" where
  "dir_on dev ls = Tree (info_on dev (mode_dir OR 0x1ED)) (Inr []) ls None"

definition sample_walk :: "mount_policy \<Rightarrow> walk_options" where
  "sample_walk p = \<lparr>wo_root = ''/'', wo_exclude = None, wo_mounts = p, wo_max_depth = 64,
     wo_jobs = 1, wo_max_file_size = 0, wo_no_hash = True, wo_descend = None\<rparr>"

definition nfs_system :: system where
  "nfs_system = \<lparr>sy_num_cpu = 1, sy_classify = (\<lambda>_. (''nfs'', FSNetwork)),
     sy_open_noatime = (\<lambda>_. OpenFailed ''denied''), sy_open = (\<lambda>_. Inl ''denied''),
     sy_cancelled = (\<lambda>_. False)\<rparr>"

text \<open>Three files and a mount point before the directory \<open>n\<close>: the ring of four cells wraps.\<close>

definition wrapping_tree :: "u64 \<Rightarrow> tree" where
  "wrapping_tree dev =
     dir_on 1 (Child ''a'' (file_on 1) (Child ''b'' (file_on 1) (Child ''c'' (file_on 1)
       (Child ''m'' (dir_on 9 NoMore) (Child ''n'' (dir_on dev (Child ''f'' (file_on dev) NoMore)) NoMore)))))"

end
