(* ===== verification/Report.thy ===== *)
theory Report
  imports Diff_Result Scan_Walk Humanize Go_Path
begin

text \<open>
  \<open>internal/report/report.go\<close> and \<open>text.go\<close>: what a reporter is given and the text report.
  The writer is any state with one write operation that may fail; a reporter keeps the first
  error and writes nothing after it.
\<close>

section \<open>report.go\<close>

record report_header =
  rh_tool :: string
  rh_tool_version :: string
  rh_baseline_path :: string
  rh_baseline :: meta
  rh_system_key :: string
  rh_system_name :: string
  rh_scanned_at :: int
  rh_privileged :: bool
  rh_extra_exclusions :: "string list"
  rh_ignore_rules :: "string list"
  rh_new_dir_mode :: string

record report_summary =
  rs_diff :: stats
  rs_scan :: scan_stats
  rs_elapsed :: int
  rs_expected :: nat

record report_options =
  ro_color :: bool
  ro_volatile :: "(string \<Rightarrow> bool) option"

section \<open>text.go: rendering\<close>

abbreviation utf8 :: "nat list \<Rightarrow> string" where
  "utf8 \<equiv> map char_of"

definition middle_dot :: string where "middle_dot = '' '' @ utf8 [0xC2, 0xB7] @ '' ''"
definition bar :: string where "bar = '' '' @ utf8 [0xE2, 0x94, 0x82] @ '' ''"

definition count_nat :: "nat \<Rightarrow> string" where
  "count_nat n = count_string (of_nat n)"

definition plural_nat :: "nat \<Rightarrow> string \<Rightarrow> string \<Rightarrow> string" where
  "plural_nat n = plural (of_nat n)"

definition path_column :: nat where "path_column = 38"

text \<open>\<open>utf8.RuneCountInString\<close>, which the width of \<open>%-*s\<close> is measured in.\<close>

function rune_count :: "string \<Rightarrow> nat" where
  "rune_count s = (if s = [] then 0 else Suc (rune_count (drop (snd (decode_rune s)) s)))"
  by pat_completeness auto
termination
proof (relation "measure length")
  fix s :: string
  assume "s \<noteq> []"
  moreover obtain r n where "decode_rune s = (r, n)" by fastforce
  ultimately show "(drop (snd (decode_rune s)) s, s) \<in> measure length"
    using decode_rune_width by fastforce
qed simp

declare rune_count.simps [simp del]

definition pad_right :: "nat \<Rightarrow> string \<Rightarrow> string" where
  "pad_right w s = s @ replicate (w - rune_count s) CHR '' ''"

definition detail_of :: "change \<Rightarrow> string" where
  "detail_of c =
     (case c_summary c of
        Some s \<Rightarrow>
          ''('' @ count_string (ds_files s) @ '' '' @ plural (ds_files s) ''file'' ''files'' @ '', '' @
          count_string (ds_dirs s) @ '' '' @ plural (ds_dirs s) ''directory'' ''directories'' @ '', '' @
          bytes_string (ds_bytes s) @ '')''
      | None \<Rightarrow> c_detail c)"

definition ansi :: "string \<Rightarrow> string" where
  "ansi code = [CHR 27] @ ''['' @ code @ ''m''"

definition op_color :: "op \<Rightarrow> string" where
  "op_color o' =
     (if o' \<in> {OpAddedDir, OpAdded} then ansi ''32''
      else if o' \<in> {OpRemovedDir, OpRemoved} then ansi ''31''
      else if o' = OpUnreadable then ansi ''35'' else ansi ''33'')"

definition colorize :: "report_options \<Rightarrow> op \<Rightarrow> string" where
  "colorize opts o' =
     (if ro_color opts then op_color o' @ op_string o' @ ansi ''0'' else op_string o')"

definition upper_char :: "char \<Rightarrow> char" where
  "upper_char c =
     (if 97 \<le> (of_char c :: nat) \<and> (of_char c :: nat) \<le> 122 then char_of ((of_char c :: nat) - 32) else c)"

text \<open>The heading of a section: \<open>strings.ToUpper\<close> leaves the em dash of a description as it is.\<close>

definition section_title :: "op \<Rightarrow> string" where
  "section_title o' = map upper_char (description o')"

definition volatile_title :: string where
  "volatile_title = ''EXPECTED NOISE '' @ em_dash @ '' VOLATILE DIRECTORIES''"

definition newline :: string where "newline = [CHR 10]"

definition change_line :: "report_options \<Rightarrow> nat \<Rightarrow> change \<Rightarrow> string" where
  "change_line opts width c =
     (if detail_of c = [] then ''  '' @ colorize opts (c_op c) @ '' '' @ c_path c @ newline
      else ''  '' @ colorize opts (c_op c) @ '' '' @ pad_right width (c_path c) @ ''  '' @ detail_of c @ newline)"

definition path_width :: "change list \<Rightarrow> nat" where
  "path_width cs =
     foldl (\<lambda>w c. if w < length (c_path c) \<and> length (c_path c) \<le> 60 then length (c_path c) else w)
       path_column cs"

definition section_heading :: "string \<Rightarrow> change list \<Rightarrow> string" where
  "section_heading title cs = newline @ title @ '' ('' @ count_nat (length cs) @ '')'' @ newline"

text \<open>\<open>mountNotes\<close>: the kinds in the order they first occur, with the labels of each.\<close>

definition mount_label :: "skipped_mount \<Rightarrow> string" where
  "mount_label m = sk_path m @ (if sk_fs_type m \<noteq> [] then '' ('' @ sk_fs_type m @ '')'' else [])"

fun group_mounts ::
  "skipped_mount list \<Rightarrow> (fs_kind \<times> string list) list \<Rightarrow> (fs_kind \<times> string list) list" where
  "group_mounts [] g = g"
| "group_mounts (m # ms) g =
     group_mounts ms
       (if sk_kind m \<in> fst ` set g
        then map (\<lambda>(k, ls). if k = sk_kind m then (k, ls @ [mount_label m]) else (k, ls)) g
        else g @ [(sk_kind m, [mount_label m])])"

definition mount_notes :: "skipped_mount list \<Rightarrow> string list" where
  "mount_notes ms =
     map (\<lambda>(k, ls). count_nat (length ls) @ '' '' @ fs_kind_string k @ (if length ls \<noteq> 1 then ''s'' else [])
            @ '' not crossed: '' @ join '' '' ls)
       (group_mounts ms [])"

definition op_counts :: "stats \<Rightarrow> op list \<Rightarrow> string" where
  "op_counts s ops = join ''  '' (map (\<lambda>o'. op_string o' @ '' '' @ count_nat (st_counts s o')) ops)"

definition summary_notes :: "report_summary \<Rightarrow> string list" where
  "summary_notes s =
     (if 0 < rs_expected s then [count_nat (rs_expected s) @ '' of them expected noise''] else []) @
     (let n = st_ignored (rs_diff s) in
      if 0 < n then [count_nat n @ '' '' @ plural_nat n ''difference'' ''differences'' @ '' hidden by ignore rules'']
      else []) @
     (if 0 < st_hidden (rs_diff s) then [count_nat (st_hidden (rs_diff s)) @ '' hidden by --show''] else []) @
     [count_nat (scan_total (rs_scan s)) @ '' '' @ plural_nat (scan_total (rs_scan s)) ''entry'' ''entries''
        @ '' scanned'',
      ''elapsed '' @ duration_text (rs_elapsed s)]"

definition indent :: string where "indent = replicate 9 CHR '' ''"

definition summary_lines :: "report_summary \<Rightarrow> string list" where
  "summary_lines s =
     [newline @ ''SUMMARY  '' @ op_counts (rs_diff s) [OpAddedDir, OpRemovedDir, OpChangedDir] @ bar
        @ op_counts (rs_diff s) [OpAdded, OpRemoved, OpChangedFile, OpChangedMeta] @ bar
        @ op_counts (rs_diff s) [OpTypeChanged, OpRetargeted, OpUnreadable] @ newline,
      indent @ join ('' '' @ middle_dot @ '' '') (summary_notes s) @ newline]
     @ map (\<lambda>l. indent @ l @ newline) (mount_notes (sc_skipped (rs_scan s)))"

definition header_lines :: "report_header \<Rightarrow> string list" where
  "header_lines h =
     (let b = rh_baseline h; x = rh_extra_exclusions h; n = length x; k = length (rh_ignore_rules h) in
      [''osfp '' @ rh_tool_version h @ '' '' @ em_dash @ '' filesystem drift report'' @ newline,
       ''Baseline : '' @ rh_baseline_path h @ ''   (created '' @ utc_string (m_created_at b div second) @ '', ''
         @ count_string (m_entries b) @ '' '' @ plural (m_entries b) ''entry'' ''entries'' @ '')'' @ newline,
       ''System   : '' @ rh_system_key h @ (if rh_system_name h \<noteq> [] then ''  '' @ rh_system_name h else [])
         @ ''   (scanned '' @ utc_string (rh_scanned_at h div second) @ '')'' @ newline,
       ''Scope    : '' @ so_root (m_scan b) @ middle_dot @ decimal (length (m_exclusions b)) @ '' ''
         @ plural_nat (length (m_exclusions b)) ''exclusion'' ''exclusions''
         @ (if so_mounts (m_scan b) \<noteq> [] then middle_dot @ ''mounts='' @ so_mounts (m_scan b) else [])
         @ (if rh_new_dir_mode h \<noteq> [] then middle_dot @ ''new-dir-mode='' @ rh_new_dir_mode h else [])
         @ newline]
      @ (if rh_privileged h then []
         else [''Warning  : UNPRIVILEGED scan; parts of the filesystem could not be read'' @ newline])
      @ (if 0 < n
         then [''Warning  : '' @ decimal n @ '' '' @ plural_nat n ''exclusion was'' ''exclusions were''
                 @ '' added on the command line ('' @ join '' '' x @ ''); covered paths are reported as deleted''
                 @ newline]
         else [])
      @ (if 0 < k then [''Ignoring : '' @ decimal k @ '' '' @ plural_nat k ''rule'' ''rules'' @ newline] else []))"

section \<open>text.go: the reporter\<close>

record ('w, 'x) text_reporter =
  tr_w :: 'w
  tr_opts :: report_options
  tr_header :: "report_header option"
  tr_sections :: "op \<Rightarrow> change list"
  tr_volatile :: "change list"
  tr_err :: "'x option"

definition new_text_reporter :: "'w \<Rightarrow> report_options \<Rightarrow> ('w, 'x) text_reporter" where
  "new_text_reporter w opts =
     \<lparr>tr_w = w, tr_opts = opts, tr_header = None, tr_sections = (\<lambda>_. []), tr_volatile = [], tr_err = None\<rparr>"

definition printf :: "('w \<Rightarrow> string \<Rightarrow> 'w \<times> 'x option) \<Rightarrow> string
    \<Rightarrow> ('w, 'x) text_reporter \<Rightarrow> ('w, 'x) text_reporter" where
  "printf wr s t =
     (case tr_err t of
        Some x \<Rightarrow> t
      | None \<Rightarrow> (case wr (tr_w t) s of (w, e) \<Rightarrow> t\<lparr>tr_w := w, tr_err := e\<rparr>))"

definition print_all :: "('w \<Rightarrow> string \<Rightarrow> 'w \<times> 'x option) \<Rightarrow> string list
    \<Rightarrow> ('w, 'x) text_reporter \<Rightarrow> ('w, 'x) text_reporter" where
  "print_all wr ls t = fold (printf wr) ls t"

definition text_header :: "('w \<Rightarrow> string \<Rightarrow> 'w \<times> 'x option) \<Rightarrow> report_header
    \<Rightarrow> ('w, 'x) text_reporter \<Rightarrow> ('w, 'x) text_reporter \<times> 'x option" where
  "text_header wr h t =
     (let t = print_all wr (header_lines h) (t\<lparr>tr_header := Some h\<rparr>) in (t, tr_err t))"

definition is_volatile :: "report_options \<Rightarrow> string \<Rightarrow> bool" where
  "is_volatile opts path = (case ro_volatile opts of None \<Rightarrow> False | Some f \<Rightarrow> f path)"

definition text_change :: "change \<Rightarrow> ('w, 'x) text_reporter \<Rightarrow> ('w, 'x) text_reporter \<times> 'x option" where
  "text_change c t =
     (let t = (if is_volatile (tr_opts t) (c_path c) then t\<lparr>tr_volatile := tr_volatile t @ [c]\<rparr>
               else t\<lparr>tr_sections := (tr_sections t)(c_op c := tr_sections t (c_op c) @ [c])\<rparr>)
      in (t, tr_err t))"

definition text_section :: "('w \<Rightarrow> string \<Rightarrow> 'w \<times> 'x option) \<Rightarrow> string \<Rightarrow> change list
    \<Rightarrow> ('w, 'x) text_reporter \<Rightarrow> ('w, 'x) text_reporter" where
  "text_section wr title cs t =
     (if cs = [] then t
      else print_all wr (map (change_line (tr_opts t) (path_width cs)) cs)
             (printf wr (section_heading title cs) t))"

definition text_close :: "('w \<Rightarrow> string \<Rightarrow> 'w \<times> 'x option) \<Rightarrow> report_summary
    \<Rightarrow> ('w, 'x) text_reporter \<Rightarrow> ('w, 'x) text_reporter \<times> 'x option" where
  "text_close wr s t =
     (let t = fold (\<lambda>o' t. text_section wr (section_title o') (tr_sections t o') t) all_ops t;
          t = text_section wr volatile_title (tr_volatile t) t;
          t = print_all wr (summary_lines s) t
      in (t, tr_err t))"

end
