(* ===== verification/Report_Json.thy ===== *)
theory Report_Json
  imports Report
begin

text \<open>
  \<open>internal/report/json.go\<close>: the records of the JSON Lines report and the reporter that
  writes them. The encoder of \<open>encoding/json\<close> on the report's writer is a parameter: it takes
  one record and the state of the writer and gives back the state and the error, if any. An
  instant is the text that \<open>time\<close> gives it.
\<close>

section \<open>Records\<close>

record baseline_record =
  br_path :: string
  br_created :: int
  br_entries :: i64
  br_os_key :: string
  br_privileged :: bool
  br_tool :: string

record system_record =
  sr_os_key :: string
  sr_name :: string
  sr_scanned :: int
  sr_privileged :: bool

record scope_record =
  sc_root :: string
  sc_mounts :: string
  sc_new_dir_mode :: string
  sc_exclusions :: "string list"
  sc_extra_exclusions :: "string list"
  sc_ignore_rules :: "string list"

record header_record =
  hr_record :: string
  hr_tool :: string
  hr_version :: string
  hr_baseline :: baseline_record
  hr_system :: system_record
  hr_scope :: scope_record

record entry_record =
  er_type :: string
  er_mode :: string
  er_uid :: u32
  er_gid :: u32
  er_size :: i64
  er_mtime :: string
  er_sha256 :: string
  er_link :: string
  er_partial :: bool
  er_error :: string
  er_dev :: u64
  er_ino :: u64
  er_nlink :: u32

record summary_record =
  mr_files :: i64
  mr_dirs :: i64
  mr_bytes :: i64

record change_record =
  cr_record :: string
  cr_op :: string
  cr_path :: string
  cr_detail :: string
  cr_old :: "entry_record option"
  cr_new :: "entry_record option"
  cr_summary :: "summary_record option"

record mount_record =
  mt_path :: string
  mt_fs_type :: string
  mt_kind :: string

text \<open>\<open>Elapsed\<close> stays in nanoseconds; \<open>Seconds\<close> divides it in \<open>float64\<close> when it is printed.\<close>

record stats_record =
  sj_record :: string
  sj_counts :: "(string \<times> nat) list"
  sj_total :: nat
  sj_expected :: nat
  sj_ignored :: nat
  sj_hidden :: nat
  sj_compared :: nat
  sj_scanned :: nat
  sj_errors :: nat
  sj_mounts :: "mount_record list"
  sj_elapsed :: int

datatype json_value =
    JsonHeader header_record
  | JsonChange change_record
  | JsonStats stats_record

section \<open>From the program's data\<close>

definition hex_digits :: string where
  "hex_digits = ''0123456789abcdef''"

definition hex :: "byte list \<Rightarrow> string" where
  "hex bs = concat (map (\<lambda>c. [hex_digits ! unat (drop_bit 4 c), hex_digits ! unat (c AND 0x0f)]) bs)"

definition rfc3339 :: "int \<Rightarrow> string" where
  "rfc3339 secs = utc_string secs"

definition entry_of :: "entry \<Rightarrow> entry_record" where
  "entry_of e =
     \<lparr>er_type = type_string (e_type e), er_mode = mode_string (e_mode e), er_uid = e_uid e,
      er_gid = e_gid e, er_size = e_size e, er_mtime = rfc3339 (sint (e_mtime e)),
      er_sha256 = (if e_hashed e then hex (e_hash e) else []), er_link = e_link e,
      er_partial = e_partial e, er_error = e_err e, er_dev = e_dev e, er_ino = e_ino e,
      er_nlink = e_nlink e\<rparr>"

definition header_of :: "report_header \<Rightarrow> header_record" where
  "header_of h =
     (let b = rh_baseline h in
      \<lparr>hr_record = ''header'', hr_tool = rh_tool h, hr_version = rh_tool_version h,
       hr_baseline = \<lparr>br_path = rh_baseline_path h, br_created = m_created_at b, br_entries = m_entries b,
         br_os_key = m_key b, br_privileged = m_privileged b, br_tool = m_tool_version b\<rparr>,
       hr_system = \<lparr>sr_os_key = rh_system_key h, sr_name = rh_system_name h,
         sr_scanned = rh_scanned_at h, sr_privileged = rh_privileged h\<rparr>,
       hr_scope = \<lparr>sc_root = so_root (m_scan b), sc_mounts = so_mounts (m_scan b),
         sc_new_dir_mode = rh_new_dir_mode h, sc_exclusions = m_exclusions b,
         sc_extra_exclusions = rh_extra_exclusions h, sc_ignore_rules = rh_ignore_rules h\<rparr>\<rparr>)"

definition summary_of :: "dir_summary \<Rightarrow> summary_record" where
  "summary_of s = \<lparr>mr_files = ds_files s, mr_dirs = ds_dirs s, mr_bytes = ds_bytes s\<rparr>"

definition change_of :: "change \<Rightarrow> change_record" where
  "change_of c =
     \<lparr>cr_record = ''change'', cr_op = op_string (c_op c), cr_path = c_path c, cr_detail = c_detail c,
      cr_old = map_option entry_of (c_old c), cr_new = map_option entry_of (c_new c),
      cr_summary = map_option summary_of (c_summary c)\<rparr>"

definition mount_records :: "skipped_mount list \<Rightarrow> mount_record list" where
  "mount_records ms =
     map (\<lambda>m. \<lparr>mt_path = sk_path m, mt_fs_type = sk_fs_type m, mt_kind = fs_kind_string (sk_kind m)\<rparr>) ms"

definition stats_of :: "report_summary \<Rightarrow> stats_record" where
  "stats_of s =
     \<lparr>sj_record = ''summary'', sj_counts = map (\<lambda>o'. (op_string o', st_counts (rs_diff s) o')) all_ops,
      sj_total = stats_total (rs_diff s), sj_expected = rs_expected s, sj_ignored = st_ignored (rs_diff s),
      sj_hidden = st_hidden (rs_diff s), sj_compared = st_compared (rs_diff s),
      sj_scanned = scan_total (rs_scan s), sj_errors = sc_errors (rs_scan s),
      sj_mounts = mount_records (sc_skipped (rs_scan s)), sj_elapsed = rs_elapsed s\<rparr>"

section \<open>The reporter\<close>

record ('w, 'x) json_reporter =
  jr_enc :: 'w
  jr_err :: "'x option"

definition new_json_reporter :: "'w \<Rightarrow> ('w, 'x) json_reporter" where
  "new_json_reporter w = \<lparr>jr_enc = w, jr_err = None\<rparr>"

definition json_write :: "('w \<Rightarrow> json_value \<Rightarrow> 'w \<times> 'x option) \<Rightarrow> json_value
    \<Rightarrow> ('w, 'x) json_reporter \<Rightarrow> ('w, 'x) json_reporter" where
  "json_write enc v j =
     (case jr_err j of
        Some x \<Rightarrow> j
      | None \<Rightarrow> (case enc (jr_enc j) v of (w, e) \<Rightarrow> \<lparr>jr_enc = w, jr_err = e\<rparr>))"

definition json_header :: "('w \<Rightarrow> json_value \<Rightarrow> 'w \<times> 'x option) \<Rightarrow> report_header
    \<Rightarrow> ('w, 'x) json_reporter \<Rightarrow> ('w, 'x) json_reporter \<times> 'x option" where
  "json_header enc h j = (let j = json_write enc (JsonHeader (header_of h)) j in (j, jr_err j))"

definition json_change :: "('w \<Rightarrow> json_value \<Rightarrow> 'w \<times> 'x option) \<Rightarrow> change
    \<Rightarrow> ('w, 'x) json_reporter \<Rightarrow> ('w, 'x) json_reporter \<times> 'x option" where
  "json_change enc c j = (let j = json_write enc (JsonChange (change_of c)) j in (j, jr_err j))"

definition json_close :: "('w \<Rightarrow> json_value \<Rightarrow> 'w \<times> 'x option) \<Rightarrow> report_summary
    \<Rightarrow> ('w, 'x) json_reporter \<Rightarrow> ('w, 'x) json_reporter \<times> 'x option" where
  "json_close enc s j = (let j = json_write enc (JsonStats (stats_of s)) j in (j, jr_err j))"

section \<open>report.go: New and the interface\<close>

text \<open>The two implementations of \<open>Reporter\<close> on one writer.\<close>

datatype ('w, 'x) reporter = TextReporter "('w, 'x) text_reporter" | JsonReporter "('w, 'x) json_reporter"

record ('w, 'x) sink =
  wr_text :: "'w \<Rightarrow> string \<Rightarrow> 'w \<times> 'x option"
  wr_json :: "'w \<Rightarrow> json_value \<Rightarrow> 'w \<times> 'x option"

definition report_formats :: "string list" where
  "report_formats = [''text'', ''json'']"

definition new_reporter :: "string \<Rightarrow> 'w \<Rightarrow> report_options \<Rightarrow> string + ('w, 'x) reporter" where
  "new_reporter format w opts =
     (if format = ''text'' \<or> format = [] then Inr (TextReporter (new_text_reporter w opts))
      else if format = ''json'' \<or> format = ''jsonl'' then Inr (JsonReporter (new_json_reporter w))
      else Inl format)"

definition rep_header :: "('w, 'x) sink \<Rightarrow> report_header \<Rightarrow> ('w, 'x) reporter
    \<Rightarrow> ('w, 'x) reporter \<times> 'x option" where
  "rep_header wr h r =
     (case r of
        TextReporter t \<Rightarrow> apfst TextReporter (text_header (wr_text wr) h t)
      | JsonReporter j \<Rightarrow> apfst JsonReporter (json_header (wr_json wr) h j))"

definition rep_change :: "('w, 'x) sink \<Rightarrow> change \<Rightarrow> ('w, 'x) reporter
    \<Rightarrow> ('w, 'x) reporter \<times> 'x option" where
  "rep_change wr c r =
     (case r of
        TextReporter t \<Rightarrow> apfst TextReporter (text_change c t)
      | JsonReporter j \<Rightarrow> apfst JsonReporter (json_change (wr_json wr) c j))"

definition rep_close :: "('w, 'x) sink \<Rightarrow> report_summary \<Rightarrow> ('w, 'x) reporter
    \<Rightarrow> ('w, 'x) reporter \<times> 'x option" where
  "rep_close wr s r =
     (case r of
        TextReporter t \<Rightarrow> apfst TextReporter (text_close (wr_text wr) s t)
      | JsonReporter j \<Rightarrow> apfst JsonReporter (json_close (wr_json wr) s j))"

definition rep_writer :: "('w, 'x) reporter \<Rightarrow> 'w" where
  "rep_writer r = (case r of TextReporter t \<Rightarrow> tr_w t | JsonReporter j \<Rightarrow> jr_enc j)"

definition rep_err :: "('w, 'x) reporter \<Rightarrow> 'x option" where
  "rep_err r = (case r of TextReporter t \<Rightarrow> tr_err t | JsonReporter j \<Rightarrow> jr_err j)"

end
