(* ===== verification/Report_Result.thy ===== *)
theory Report_Result
  imports Report_Json "HOL-Library.Multiset"
begin

text \<open>
  The properties of the reports: a text report lists every change exactly once, a JSON record
  determines the change it stands for, and the first error of the writer is the one that
  every later call reports. The last is the contract of the interface \<open>Reporter\<close>, which
  both reporters are shown to keep.
\<close>

section \<open>The interface\<close>

text \<open>
  What a client of \<open>Reporter\<close> may rely on: a call reports the latched error, and once there
  is one nothing more is written.
\<close>

locale latching =
  fixes change :: "change \<Rightarrow> 'r \<Rightarrow> 'r \<times> 'x option"
    and close :: "report_summary \<Rightarrow> 'r \<Rightarrow> 'r \<times> 'x option"
    and err :: "'r \<Rightarrow> 'x option"
    and out :: "'r \<Rightarrow> 'w"
  assumes change_reports: "snd (change c r) = err (fst (change c r))"
    and change_latched: "err r = Some x \<Longrightarrow> err (fst (change c r)) = Some x \<and> out (fst (change c r)) = out r"
    and close_reports: "snd (close s r) = err (fst (close s r))"
    and close_latched: "err r = Some x \<Longrightarrow> err (fst (close s r)) = Some x \<and> out (fst (close s r)) = out r"
begin

definition send :: "change list \<Rightarrow> 'r \<Rightarrow> 'r" where
  "send cs r = fold (\<lambda>c r. fst (change c r)) cs r"

lemma send_simps [simp]: "send [] r = r" "send (c # cs) r = send cs (fst (change c r))"
  by (simp_all add: send_def)

lemma send_latched: "err r = Some x \<Longrightarrow> err (send cs r) = Some x \<and> out (send cs r) = out r"
proof (induction cs arbitrary: r)
  case (Cons c cs)
  with change_latched [OF Cons.prems, of c] show ?case by simp
qed simp

lemma failed_stays:
  assumes "snd (change c r) = Some x"
  shows "snd (close s (send cs (fst (change c r)))) = Some x \<and>
    out (fst (close s (send cs (fst (change c r))))) = out (fst (change c r))"
proof -
  have "err (fst (change c r)) = Some x" using assms change_reports [of c r] by simp
  from send_latched [OF this, of cs] close_latched [of "send cs (fst (change c r))" x s]
  show ?thesis by (simp add: close_reports)
qed

lemma close_ok: "snd (close s (send cs r)) = None \<Longrightarrow> err r = None"
  using send_latched [of r _ cs] close_latched close_reports by (metis not_None_eq)

end

text \<open>The text reporter.\<close>

lemma printf_err: "tr_err t = Some x \<Longrightarrow> printf wr s t = t"
  by (simp add: printf_def)

lemma print_all_err: "tr_err t = Some x \<Longrightarrow> print_all wr ls t = t"
  by (induction ls) (simp_all add: print_all_def printf_err)

lemma text_section_err: "tr_err t = Some x \<Longrightarrow> text_section wr title cs t = t"
  by (simp add: text_section_def printf_err print_all_err)

lemma text_close_err:
  assumes "tr_err t = Some x"
  shows "text_close wr s t = (t, Some x)"
proof -
  have "fold (\<lambda>o' t. text_section wr (section_title o') (tr_sections t o') t) ops t = t" for ops
    by (induction ops) (simp_all add: text_section_err [OF assms])
  with assms show ?thesis by (simp add: text_close_def Let_def text_section_err print_all_err)
qed

interpretation text_rep: latching text_change "text_close wr" tr_err tr_w
  by unfold_locales (auto simp: text_change_def Let_def text_close_err, simp add: text_close_def Let_def)

interpretation json_rep: latching "json_change enc" "json_close enc" jr_err jr_enc
  by unfold_locales (auto simp: json_change_def json_close_def json_write_def Let_def)

interpretation rep: latching "rep_change wr" "rep_close wr" rep_err rep_writer
proof unfold_locales
  fix c s and r :: "('a, 'b) reporter"
  show "snd (rep_change wr c r) = rep_err (fst (rep_change wr c r))"
    by (cases r) (simp_all add: rep_change_def rep_err_def text_rep.change_reports json_rep.change_reports)
  show "snd (rep_close wr s r) = rep_err (fst (rep_close wr s r))"
    by (cases r) (simp_all add: rep_close_def rep_err_def text_rep.close_reports json_rep.close_reports)
next
  fix c s x and r :: "('a, 'b) reporter"
  assume e: "rep_err r = Some x"
  then show "rep_err (fst (rep_change wr c r)) = Some x \<and> rep_writer (fst (rep_change wr c r)) = rep_writer r"
    by (cases r) (simp_all add: rep_change_def rep_err_def rep_writer_def text_rep.change_latched json_rep.change_latched)
  from e show "rep_err (fst (rep_close wr s r)) = Some x \<and> rep_writer (fst (rep_close wr s r)) = rep_writer r"
    by (cases r) (simp_all add: rep_close_def rep_err_def rep_writer_def text_rep.close_latched json_rep.close_latched)
qed

text \<open>
  C40. No write error of a report is lost: once a call of either reporter has reported one,
  whatever changes follow, \<open>Close\<close> reports the same error and the destination has got no
  further byte.
\<close>

theorem report_error_kept:
  assumes "rep_change wr c r = (r', Some x)"
  shows "\<exists>r''. rep_close wr s (fold (\<lambda>c r. fst (rep_change wr c r)) cs r') = (r'', Some x) \<and>
    rep_writer r'' = rep_writer r'"
  using rep.failed_stays [where c = c and r = r and wr = wr and x = x and s = s and cs = cs] assms
  by (auto simp: rep.send_def [of wr cs, symmetric] prod_eq_iff)

definition full_disk :: "(unit, string) sink" where
  "full_disk = \<lparr>wr_text = (\<lambda>w s. (w, Some ''full'')), wr_json = (\<lambda>w v. (w, Some ''full''))\<rparr>"

theorem report_error_kept_witness:
  "\<exists>r'. rep_change full_disk (added_change zero_entry) (JsonReporter (new_json_reporter ())) = (r', Some ''full'') \<and>
     (\<forall>s. \<exists>r''. rep_close full_disk s r' = (r'', Some ''full''))"
proof -
  obtain r' where r: "rep_change full_disk (added_change zero_entry) (JsonReporter (new_json_reporter ())) = (r', Some ''full'')"
    by (simp add: rep_change_def json_change_def json_write_def new_json_reporter_def full_disk_def)
  have "\<exists>r''. rep_close full_disk s r' = (r'', Some ''full'')" for s
    using report_error_kept [OF r, of s "[]"] by auto
  with r show ?thesis by blast
qed

section \<open>The text report lists every change once\<close>

definition append_line :: "string list \<Rightarrow> string \<Rightarrow> string list \<times> 'x option" where
  "append_line w s = (w @ [s], None)"

text \<open>The sections of a report, in their order, with the changes of each.\<close>

definition change_groups :: "report_options \<Rightarrow> change list \<Rightarrow> (string \<times> change list) list" where
  "change_groups opts cs =
     map (\<lambda>o'. (section_title o', filter (\<lambda>c. c_op c = o' \<and> \<not> is_volatile opts (c_path c)) cs)) all_ops
     @ [(volatile_title, filter (\<lambda>c. is_volatile opts (c_path c)) cs)]"

definition group_lines :: "report_options \<Rightarrow> string \<times> change list \<Rightarrow> string list" where
  "group_lines opts g =
     (if snd g = [] then []
      else section_heading (fst g) (snd g) # map (change_line opts (path_width (snd g))) (snd g))"

lemma text_send:
  "fold (\<lambda>c t. fst (text_change c t)) cs t =
     t\<lparr>tr_sections := (\<lambda>o'. tr_sections t o' @ filter (\<lambda>c. c_op c = o' \<and> \<not> is_volatile (tr_opts t) (c_path c)) cs),
       tr_volatile := tr_volatile t @ filter (\<lambda>c. is_volatile (tr_opts t) (c_path c)) cs\<rparr>"
proof (induction cs arbitrary: t)
  case (Cons c cs)
  have step: "fst (text_change c t) = (if is_volatile (tr_opts t) (c_path c)
      then t\<lparr>tr_volatile := tr_volatile t @ [c]\<rparr>
      else t\<lparr>tr_sections := (tr_sections t)(c_op c := tr_sections t (c_op c) @ [c])\<rparr>)"
    by (simp add: text_change_def Let_def)
  have "fold (\<lambda>c t. fst (text_change c t)) (c # cs) t =
      fold (\<lambda>c t. fst (text_change c t)) cs (fst (text_change c t))" by simp
  also note Cons.IH
  finally show ?case
    by (cases "is_volatile (tr_opts t) (c_path c)") (simp_all add: step fun_eq_iff)
qed simp

lemma mset_ops: "distinct ops \<Longrightarrow> \<forall>c\<in>set cs. c_op c \<in> set ops \<Longrightarrow>
  mset (concat (map (\<lambda>o'. filter (\<lambda>c. c_op c = o') cs) ops)) = mset cs"
proof (induction cs)
  case (Cons c cs)
  have one: "mset (concat (map (\<lambda>o'. filter (\<lambda>x. c_op x = o') (c # cs)) ops)) =
      (if c_op c \<in> set ops then {#c#} else {#}) + mset (concat (map (\<lambda>o'. filter (\<lambda>x. c_op x = o') cs) ops))"
    if "distinct ops" for ops using that by (induction ops) auto
  with Cons show ?case by simp
qed (induction ops; simp)

lemma mset_groups:
  assumes "\<forall>c\<in>set cs. c_op c \<noteq> OpNone"
  shows "mset (concat (map snd (change_groups opts cs))) = mset cs"
proof -
  let ?v = "\<lambda>c. is_volatile opts (c_path c)" and ?n = "filter (\<lambda>c. \<not> is_volatile opts (c_path c)) cs"
  have "distinct all_ops" by (simp add: all_ops_def)
  moreover have "\<forall>c\<in>set ?n. c_op c \<in> set all_ops" using assms by (simp add: all_ops_complete)
  ultimately have "mset (concat (map (\<lambda>o'. filter (\<lambda>c. c_op c = o') ?n) all_ops)) = mset ?n" by (rule mset_ops)
  then have "mset (concat (map snd (change_groups opts cs))) = mset ?n + mset (filter ?v cs)"
    by (simp add: change_groups_def comp_def filter_filter conj_commute)
  also have "\<dots> = mset cs" by (simp add: multiset_partition [of "mset cs" ?v, symmetric] add.commute)
  finally show ?thesis .
qed

text \<open>
  A destination that takes everything: what it holds after a list of writes is \<open>app\<close> of what it
  held before. On such a destination the text reporter is a function from changes to lines.
\<close>

locale taking =
  fixes wr :: "'w \<Rightarrow> 'a \<Rightarrow> 'w \<times> 'x option" and app :: "'w \<Rightarrow> 'a list \<Rightarrow> 'w"
  assumes takes: "wr w s = (app w [s], None)"
    and app_Nil: "app w [] = w"
    and app_app: "app (app w xs) ys = app w (xs @ ys)"

locale text_output = taking wr app for wr :: "'w \<Rightarrow> string \<Rightarrow> 'w \<times> 'x option" and app
begin

lemma printf_takes: "tr_err t = None \<Longrightarrow> printf wr l t = t\<lparr>tr_w := app (tr_w t) [l]\<rparr>"
  by (simp add: printf_def takes)

lemma print_all_takes: "tr_err t = None \<Longrightarrow> print_all wr ls t = t\<lparr>tr_w := app (tr_w t) ls\<rparr>"
proof (induction ls arbitrary: t)
  case (Cons l ls)
  then show ?case by (simp add: print_all_def printf_takes app_app)
qed (simp add: print_all_def app_Nil)

lemma text_section_takes:
  "tr_err t = None \<Longrightarrow>
   text_section wr title cs t = t\<lparr>tr_w := app (tr_w t) (group_lines (tr_opts t) (title, cs))\<rparr>"
  by (simp add: text_section_def group_lines_def printf_takes print_all_takes app_app app_Nil)

lemma sections_take:
  "tr_err t = None \<Longrightarrow>
   fold (\<lambda>o' t. text_section wr (section_title o') (tr_sections t o') t) ops t =
     t\<lparr>tr_w := app (tr_w t) (concat (map (\<lambda>o'. group_lines (tr_opts t) (section_title o', tr_sections t o')) ops))\<rparr>"
proof (induction ops arbitrary: t)
  case (Cons o' ops)
  then show ?case by (simp add: text_section_takes app_app)
qed (simp add: app_Nil)

lemma text_header_takes:
  "tr_err t = None \<Longrightarrow>
   text_header wr h t = (t\<lparr>tr_header := Some h, tr_w := app (tr_w t) (header_lines h)\<rparr>, None)"
  by (simp add: text_header_def print_all_takes)

text \<open>\<open>Close\<close> on a reporter that has had the changes \<open>cs\<close>.\<close>

lemma text_close_takes:
  assumes "tr_err t = None" and "tr_sections t = (\<lambda>_. [])" and "tr_volatile t = []"
  shows "\<exists>t'. text_close wr s (fold (\<lambda>c t. fst (text_change c t)) cs t) = (t', None) \<and>
    tr_w t' = app (tr_w t) (concat (map (group_lines (tr_opts t)) (change_groups (tr_opts t) cs)) @ summary_lines s)"
  using assms
  by (simp add: text_send text_close_def Let_def sections_take text_section_takes print_all_takes
      change_groups_def comp_def app_app)

end

interpretation output_lines: text_output append_line "(@)"
  by unfold_locales (simp_all add: append_line_def)

text \<open>
  The text report loses no change and repeats none: on a writer that takes every line,
  the report body is the sections of the ten categories and of the expected noise, each with
  a heading that counts its lines and one line per change, and together they hold exactly
  the changes that were reported.
\<close>

theorem text_report_complete:
  fixes w :: "string list" and e :: "'x option"
  assumes "\<forall>c\<in>set cs. c_op c \<noteq> OpNone"
    and "text_close append_line s (fold (\<lambda>c t. fst (text_change c t)) cs (new_text_reporter w opts)) = (t, e)"
  shows "e = None \<and>
    tr_w t = w @ concat (map (group_lines opts) (change_groups opts cs)) @ summary_lines s \<and>
    mset (concat (map snd (change_groups opts cs))) = mset cs"
proof -
  have "tr_err (new_text_reporter w opts :: (string list, 'x) text_reporter) = None" by (simp add: new_text_reporter_def)
  from output_lines.text_close_takes [OF this, of s cs] assms(2) mset_groups [OF assms(1)]
  show ?thesis by (auto simp: new_text_reporter_def)
qed

theorem text_report_complete_witness:
  "\<exists>t e. text_close append_line \<lparr>rs_diff = zero_stats, rs_scan = no_stats, rs_elapsed = 0, rs_expected = 0\<rparr>
     (fold (\<lambda>c t. fst (text_change c t)) [added_change zero_entry]
       (new_text_reporter [] \<lparr>ro_color = False, ro_volatile = None\<rparr>)) = (t, e :: string option) \<and> e = None \<and>
     concat (map snd (change_groups \<lparr>ro_color = False, ro_volatile = None\<rparr> [added_change zero_entry])) =
       [added_change zero_entry]"
proof -
  let ?o = "\<lparr>ro_color = False, ro_volatile = None\<rparr>" and ?c = "added_change zero_entry"
    and ?s = "\<lparr>rs_diff = zero_stats, rs_scan = no_stats, rs_elapsed = 0, rs_expected = 0\<rparr>"
  have op: "c_op ?c = OpUnreadable \<or> c_op ?c \<noteq> OpNone"
    by (simp add: added_change_def op_for_missing_def)
  obtain t and e :: "string option" where r: "text_close append_line ?s
      (fold (\<lambda>c t. fst (text_change c t)) [?c] (new_text_reporter [] ?o)) = (t, e)"
    by (cases "text_close append_line ?s
      (fold (\<lambda>c t. fst (text_change c t)) [?c] (new_text_reporter [] ?o)) :: (string list, string) text_reporter \<times> string option")
  have "\<forall>c\<in>set [?c]. c_op c \<noteq> OpNone" by (simp add: added_change_def op_for_missing_def)
  from text_report_complete [OF this r] have "e = None" "mset (concat (map snd (change_groups ?o [?c]))) = mset [?c]"
    by simp_all
  with r show ?thesis by auto
qed

section \<open>A JSON record determines its change\<close>

lemma hex_digit_inj: "i < 16 \<Longrightarrow> j < 16 \<Longrightarrow> hex_digits ! i = hex_digits ! j \<longleftrightarrow> i = j"
proof -
  assume "i < 16" "j < 16"
  moreover have "distinct hex_digits" "length hex_digits = 16" by (simp_all add: hex_digits_def)
  ultimately show ?thesis by (simp add: nth_eq_iff_index_eq)
qed

lemma nibbles: "unat (drop_bit 4 (c :: byte)) < 16 \<and> unat (c AND 0x0f) < 16 \<and>
  c = push_bit 4 (drop_bit 4 c) OR (c AND 0x0f)"
proof -
  have "unat (drop_bit 4 c) = unat c div 16" by (simp add: unat_drop_bit)
  moreover have "unat c < 256" using unsigned_less [of c] by simp
  moreover have "c AND 0x0f = take_bit 4 c" by (simp add: take_bit_eq_mask mask_eq_exp_minus_1)
  then have "unat (c AND 0x0f) = take_bit 4 (unat c)" by (simp add: unsigned_take_bit_eq del: take_bit_eq_mod)
  then have "unat (c AND 0x0f) < 16" using take_bit_nat_less_exp [of 4 "unat c"] by simp
  moreover have "c = push_bit 4 (drop_bit 4 c) OR (c AND 0x0f)"
    unfolding \<open>c AND 0x0f = take_bit 4 c\<close> by (rule bit_word_eqI) (auto simp: bit_simps)
  ultimately show ?thesis by auto
qed

lemma hex_inj: "hex a = hex b \<Longrightarrow> a = b"
proof (induction a arbitrary: b)
  case Nil
  then show ?case by (cases b) (simp_all add: hex_def)
next
  case (Cons c a)
  then obtain d b' where b: "b = d # b'" by (cases b) (simp_all add: hex_def)
  with Cons.prems have "hex_digits ! unat (drop_bit 4 c) = hex_digits ! unat (drop_bit 4 d)"
    "hex_digits ! unat (c AND 0x0f) = hex_digits ! unat (d AND 0x0f)" "hex a = hex b'"
    by (simp_all add: hex_def)
  then have "drop_bit 4 c = drop_bit 4 d" "c AND 0x0f = d AND 0x0f" "a = b'"
    using hex_digit_inj nibbles Cons.IH by (simp_all add: word_unat_eq_iff)
  with b show ?case using nibbles [of c] nibbles [of d] by metis
qed

lemma mode_string_inj: "mode_string m = mode_string n \<Longrightarrow> m = n"
  using nat_base_inj [of 8 "unat m" "unat n"] by (simp add: mode_string_def word_unat_eq_iff)

lemma op_string_inj: "op_string o' = op_string q \<Longrightarrow> o' = q"
  by (cases o'; cases q) (simp_all add: op_string_def)

text \<open>The content of an entry that the JSON report carries, times apart.\<close>

definition same_record :: "entry \<Rightarrow> entry \<Rightarrow> bool" where
  "same_record a b \<longleftrightarrow>
     type_string (e_type a) = type_string (e_type b) \<and> e_mode a = e_mode b \<and> e_uid a = e_uid b \<and>
     e_gid a = e_gid b \<and> e_size a = e_size b \<and> e_link a = e_link b \<and> e_partial a = e_partial b \<and>
     e_err a = e_err b \<and> e_dev a = e_dev b \<and> e_ino a = e_ino b \<and> e_nlink a = e_nlink b \<and>
     e_hashed a = e_hashed b \<and> (e_hashed a \<longrightarrow> e_hash a = e_hash b)"

lemma entry_of_faithful:
  assumes "entry_of a = entry_of b" and "length (e_hash a) = 32" and "length (e_hash b) = 32"
  shows "same_record a b"
proof -
  have "hex (e_hash a) \<noteq> []" "hex (e_hash b) \<noteq> []" using assms(2,3) by (cases "e_hash a"; cases "e_hash b"; simp add: hex_def)+
  with assms(1) show ?thesis
    by (auto simp: entry_of_def same_record_def dest: hex_inj mode_string_inj split: if_splits)
qed

definition same_side :: "entry option \<Rightarrow> entry option \<Rightarrow> bool" where
  "same_side a b =
     (case (a, b) of (None, None) \<Rightarrow> True | (Some x, Some y) \<Rightarrow> same_record x y | _ \<Rightarrow> False)"

text \<open>
  C39. The JSON record of a change determines it: two changes with the same record have the
  same category, path, detail and contents summary, and agree on both entries in everything
  but the text of the modification time, the whole SHA-256 digest and whether there is one
  included.
\<close>

theorem json_change_faithful:
  assumes "change_of c = change_of c'"
    and "\<forall>e \<in> set_option (c_old c) \<union> set_option (c_new c) \<union> set_option (c_old c') \<union> set_option (c_new c').
           length (e_hash e) = 32"
  shows "c_op c = c_op c' \<and> c_path c = c_path c' \<and> c_detail c = c_detail c' \<and> c_summary c = c_summary c' \<and>
    same_side (c_old c) (c_old c') \<and> same_side (c_new c) (c_new c')"
proof -
  have side: "same_side a b" if "map_option entry_of a = map_option entry_of b"
      "\<forall>e \<in> set_option a \<union> set_option b. length (e_hash e) = 32" for a b
    using that by (cases a; cases b) (auto simp: same_side_def entry_of_faithful)
  have sum: "a = b" if "map_option summary_of a = map_option summary_of b" for a b
    using that by (cases a; cases b) (auto simp: summary_of_def)
  from assms(1) have "c_op c = c_op c'" "c_path c = c_path c'" "c_detail c = c_detail c'"
    "map_option entry_of (c_old c) = map_option entry_of (c_old c')"
    "map_option entry_of (c_new c) = map_option entry_of (c_new c')"
    "map_option summary_of (c_summary c) = map_option summary_of (c_summary c')"
    by (auto simp: change_of_def dest: op_string_inj)
  moreover have "same_side (c_old c) (c_old c')" "same_side (c_new c) (c_new c')"
    using side [of "c_old c" "c_old c'"] side [of "c_new c" "c_new c'"] calculation(4,5) assms(2) by blast+
  ultimately show ?thesis using sum by blast
qed

theorem json_change_faithful_witness:
  "change_of (removed_change (zero_entry\<lparr>e_hashed := True, e_hash := replicate 31 0 @ [1]\<rparr>))
     \<noteq> change_of (removed_change (zero_entry\<lparr>e_hashed := True\<rparr>))"
proof
  assume "change_of (removed_change (zero_entry\<lparr>e_hashed := True, e_hash := replicate 31 0 @ [1]\<rparr>))
     = change_of (removed_change (zero_entry\<lparr>e_hashed := True\<rparr>))"
  from json_change_faithful [OF this] show False
    by (simp add: removed_change_def same_side_def same_record_def zero_hash_def numeral_eq_Suc)
qed

end
