(* ===== verification/Report_Output.thy ===== *)
theory Report_Output
  imports Report_Result
begin

text \<open>
  What a report looks like as a whole, when its destination takes everything: a header, the
  changes and the summary, as lines in sections or as one JSON record each.
\<close>

section \<open>Text\<close>

definition report_lines :: "report_options \<Rightarrow> report_header \<Rightarrow> change list \<Rightarrow> report_summary \<Rightarrow> string list" where
  "report_lines opts h cs s =
     header_lines h @ concat (map (group_lines opts) (change_groups opts cs)) @ summary_lines s"

definition append_text :: "string \<Rightarrow> string \<Rightarrow> string \<times> string option" where
  "append_text w s = (w @ s, None)"

interpretation memory: text_output append_text "\<lambda>w ls. w @ concat ls"
  by unfold_locales (simp_all add: append_text_def)

section \<open>JSON\<close>

definition report_records :: "report_header \<Rightarrow> change list \<Rightarrow> report_summary \<Rightarrow> json_value list" where
  "report_records h cs s =
     JsonHeader (header_of h) # map (\<lambda>c. JsonChange (change_of c)) cs @ [JsonStats (stats_of s)]"

definition append_json :: "(json_value \<Rightarrow> string) \<Rightarrow> string \<Rightarrow> json_value \<Rightarrow> string \<times> string option" where
  "append_json enc w v = (w @ enc v, None)"

locale json_output = taking wr app for wr :: "'w \<Rightarrow> json_value \<Rightarrow> 'w \<times> 'x option" and app
begin

lemma json_write_takes: "jr_err j = None \<Longrightarrow> json_write wr v j = j\<lparr>jr_enc := app (jr_enc j) [v]\<rparr>"
  by (cases j) (simp add: json_write_def takes)

lemma json_send_takes:
  "jr_err j = None \<Longrightarrow>
   fold (\<lambda>c j. fst (json_change wr c j)) cs j = j\<lparr>jr_enc := app (jr_enc j) (map (\<lambda>c. JsonChange (change_of c)) cs)\<rparr>"
proof (induction cs arbitrary: j)
  case (Cons c cs)
  then show ?case by (simp add: json_change_def Let_def json_write_takes app_app)
qed (simp add: app_Nil)

lemma json_run_takes:
  assumes "jr_err j = None"
  shows "\<exists>j1 j2. json_header wr h j = (j1, None) \<and>
    json_close wr s (fold (\<lambda>c j. fst (json_change wr c j)) cs j1) = (j2, None) \<and>
    jr_enc j2 = app (jr_enc j) (report_records h cs s)"
  using assms
  by (simp add: json_header_def json_close_def Let_def json_write_takes json_send_takes app_app report_records_def)

end

interpretation stream: json_output "append_json enc" "\<lambda>w vs. w @ concat (map enc vs)"
  by unfold_locales (simp_all add: append_json_def)

section \<open>Either format\<close>

definition report_text ::
  "(json_value \<Rightarrow> string) \<Rightarrow> string \<Rightarrow> report_options \<Rightarrow> report_header \<Rightarrow> change list \<Rightarrow> report_summary \<Rightarrow> string" where
  "report_text enc fmt opts h cs s =
     (if fmt = ''text'' \<or> fmt = [] then concat (report_lines opts h cs s)
      else concat (map enc (report_records h cs s)))"

definition takes_all :: "(string, string) sink \<Rightarrow> (json_value \<Rightarrow> string) \<Rightarrow> bool" where
  "takes_all wr enc \<longleftrightarrow> wr_text wr = append_text \<and> wr_json wr = append_json enc"

lemma send_text:
  "fold (\<lambda>c r. fst (rep_change wr c r)) cs (TextReporter t) = TextReporter (fold (\<lambda>c t. fst (text_change c t)) cs t)"
  by (induction cs arbitrary: t) (simp_all add: rep_change_def)

lemma send_json:
  "fold (\<lambda>c r. fst (rep_change wr c r)) cs (JsonReporter j) =
     JsonReporter (fold (\<lambda>c j. fst (json_change (wr_json wr) c j)) cs j)"
  by (induction cs arbitrary: j) (simp_all add: rep_change_def)

text \<open>From \<open>New\<close> to \<open>Close\<close>.\<close>

lemma report_run:
  assumes w: "takes_all wr enc" and n: "new_reporter fmt [] opts = Inr r" and h: "rep_header wr rh r = (r1, x)"
    and c: "rep_close wr s (fold (\<lambda>c r. fst (rep_change wr c r)) cs r1) = (r2, y)"
  shows "x = None \<and> y = None \<and> rep_writer r2 = report_text enc fmt opts rh cs s"
proof (cases "fmt = ''text'' \<or> fmt = []")
  case True
  let ?t0 = "new_text_reporter [] opts :: (string, string) text_reporter"
  let ?t1 = "?t0\<lparr>tr_header := Some rh, tr_w := concat (header_lines rh)\<rparr>"
  have r: "r = TextReporter ?t0" using n True by (auto simp: new_reporter_def)
  have t0: "text_header append_text rh ?t0 = (?t1, None)"
    using memory.text_header_takes [of ?t0 rh] by (simp add: new_text_reporter_def)
  have r1: "r1 = TextReporter ?t1" "x = None"
    using h w by (simp_all add: r rep_header_def takes_all_def t0)
  obtain t' where t': "text_close append_text s (fold (\<lambda>c t. fst (text_change c t)) cs ?t1) = (t', None)"
    "tr_w t' = concat (header_lines rh) @ concat (concat (map (group_lines opts) (change_groups opts cs)) @ summary_lines s)"
    using memory.text_close_takes [of ?t1 s cs] by (auto simp: new_text_reporter_def)
  have "r2 = TextReporter t'" "y = None" using c w by (simp_all add: r1(1) send_text rep_close_def takes_all_def t'(1))
  with True r1(2) t'(2) show ?thesis by (simp add: rep_writer_def report_text_def report_lines_def)
next
  case False
  let ?j0 = "new_json_reporter [] :: (string, string) json_reporter"
  have r: "r = JsonReporter ?j0" using n False by (auto simp: new_reporter_def split: if_splits)
  have "jr_err ?j0 = None" by (simp add: new_json_reporter_def)
  from stream.json_run_takes [OF this, of enc rh s cs] obtain j1 j2 where
    j: "json_header (append_json enc) rh ?j0 = (j1, None)"
      "json_close (append_json enc) s (fold (\<lambda>c j. fst (json_change (append_json enc) c j)) cs j1) = (j2, None)"
      "jr_enc j2 = jr_enc ?j0 @ concat (map enc (report_records rh cs s))" by blast
  have r1: "r1 = JsonReporter j1" "x = None" using h w by (simp_all add: r rep_header_def takes_all_def j(1))
  have "r2 = JsonReporter j2" "y = None" using c w by (simp_all add: r1(1) send_json rep_close_def takes_all_def j(2))
  with False r1(2) j(3) show ?thesis by (simp add: rep_writer_def report_text_def new_json_reporter_def)
qed

end
