(* ===== verification/Cmd_Atomic.thy ===== *)
theory Cmd_Atomic
  imports Go_Path
begin

text \<open>
  \<open>cmd/osfp/atomic.go\<close>: the file that is written beside its destination and renamed into
  place. A file system is what the processes see, a map of names to inodes with their
  content, and what has reached the disk, which is all that a crash leaves. The answers of
  the system calls are a parameter, \<open>None\<close> for success.

  The calls of one \<open>Commit\<close> are a function, and the life of the file is a step relation in
  which the kernel may write anything back at any time before the data is synced.
\<close>

section \<open>The file system\<close>

record file_system =
  fs_dir :: "string \<rightharpoonup> nat"
  fs_data :: "nat \<Rightarrow> byte list"
  fs_disk_dir :: "string \<rightharpoonup> nat"
  fs_disk_data :: "nat \<Rightarrow> byte list"
  fs_next :: nat

definition fs_read :: "file_system \<Rightarrow> string \<Rightarrow> byte list option" where
  "fs_read fs name = map_option (fs_data fs) (fs_dir fs name)"

definition fs_crash_read :: "file_system \<Rightarrow> string \<Rightarrow> byte list option" where
  "fs_crash_read fs name = map_option (fs_disk_data fs) (fs_disk_dir fs name)"

definition sys_open_trunc :: "string \<Rightarrow> file_system \<Rightarrow> nat \<times> file_system" where
  "sys_open_trunc name fs =
     (case fs_dir fs name of
        Some i \<Rightarrow> (i, fs\<lparr>fs_data := (fs_data fs)(i := [])\<rparr>)
      | None \<Rightarrow>
          (let i = fs_next fs
           in (i, fs\<lparr>fs_dir := (fs_dir fs)(name \<mapsto> i), fs_data := (fs_data fs)(i := []),
                     fs_next := Suc i\<rparr>)))"

definition sys_write :: "nat \<Rightarrow> byte list \<Rightarrow> file_system \<Rightarrow> file_system" where
  "sys_write i bs fs = fs\<lparr>fs_data := (fs_data fs)(i := fs_data fs i @ bs)\<rparr>"

definition sys_sync :: "nat \<Rightarrow> file_system \<Rightarrow> file_system" where
  "sys_sync i fs = fs\<lparr>fs_disk_data := (fs_disk_data fs)(i := fs_data fs i)\<rparr>"

definition sys_remove :: "string \<Rightarrow> file_system \<Rightarrow> file_system" where
  "sys_remove name fs = fs\<lparr>fs_dir := (fs_dir fs)(name := None)\<rparr>"

definition sys_rename :: "string \<Rightarrow> string \<Rightarrow> file_system \<Rightarrow> file_system" where
  "sys_rename a b fs = fs\<lparr>fs_dir := (fs_dir fs)(b := fs_dir fs a, a := None)\<rparr>"

definition sys_sync_dir :: "file_system \<Rightarrow> file_system" where
  "sys_sync_dir fs = fs\<lparr>fs_disk_dir := fs_dir fs\<rparr>"

section \<open>atomicFile\<close>

datatype io_call =
    IoGetwd | IoOpen | IoFlush | IoSync | IoClose | IoRename | IoRemove | IoOpenDir | IoSyncDir

text \<open>The answers, and how many bytes a failing flush has written.\<close>

record io =
  io_error :: "io_call \<Rightarrow> string option"
  io_cwd :: string
  io_flushed :: nat

record atomic_file =
  af_final :: string
  af_tmp :: string
  af_inode :: nat
  af_buf :: "byte list"
  af_done :: bool

definition abs_name :: "io \<Rightarrow> string \<Rightarrow> string + string" where
  "abs_name o' path =
     (if has_prefix path ''/'' then Inr (clean path)
      else case io_error o' IoGetwd of
             Some x \<Rightarrow> Inl x
           | None \<Rightarrow> Inr (clean (io_cwd o' @ ''/'' @ path)))"

definition create_atomic :: "io \<Rightarrow> string \<Rightarrow> file_system \<Rightarrow> string + atomic_file \<times> file_system" where
  "create_atomic o' path fs =
     (case abs_name o' path of
        Inl x \<Rightarrow> Inl x
      | Inr final \<Rightarrow>
          (let tmp = final @ ''.tmp'' in
           case io_error o' IoOpen of
             Some x \<Rightarrow> Inl x
           | None \<Rightarrow>
               (case sys_open_trunc tmp fs of (i, fs) \<Rightarrow>
                  Inr (\<lparr>af_final = final, af_tmp = tmp, af_inode = i, af_buf = [], af_done = False\<rparr>, fs))))"

definition af_paths :: "atomic_file \<Rightarrow> string list" where
  "af_paths a = [af_final a, af_tmp a]"

text \<open>
  The buffered writer: it takes the bytes and passes some of what it holds on to the file, as
  many as \<open>bufio\<close> decides.
\<close>

definition af_write :: "byte list \<Rightarrow> nat \<Rightarrow> atomic_file \<Rightarrow> file_system \<Rightarrow> atomic_file \<times> file_system" where
  "af_write bs k a fs =
     (let buf = af_buf a @ bs
      in (a\<lparr>af_buf := drop k buf\<rparr>, sys_write (af_inode a) (take k buf) fs))"

definition remove_tmp :: "io \<Rightarrow> atomic_file \<Rightarrow> file_system \<Rightarrow> file_system" where
  "remove_tmp o' a fs = (if io_error o' IoRemove = None then sys_remove (af_tmp a) fs else fs)"

definition sync_dir :: "io \<Rightarrow> file_system \<Rightarrow> file_system \<times> string option" where
  "sync_dir o' fs =
     (case io_error o' IoOpenDir of
        Some x \<Rightarrow> (fs, Some x)
      | None \<Rightarrow>
          (case io_error o' IoSyncDir of
             Some x \<Rightarrow> (fs, Some x)
           | None \<Rightarrow> (sys_sync_dir fs, None)))"

definition af_commit :: "io \<Rightarrow> atomic_file \<Rightarrow> file_system \<Rightarrow> atomic_file \<times> file_system \<times> string option" where
  "af_commit o' a fs =
     (if af_done a then (a, fs, None)
      else
        let a = a\<lparr>af_done := True\<rparr> in
        case io_error o' IoFlush of
          Some x \<Rightarrow> (a, remove_tmp o' a (sys_write (af_inode a) (take (io_flushed o') (af_buf a)) fs), Some x)
        | None \<Rightarrow>
            let fs = sys_write (af_inode a) (af_buf a) fs in
            case io_error o' IoSync of
              Some x \<Rightarrow> (a, remove_tmp o' a fs, Some x)
            | None \<Rightarrow>
                let fs = sys_sync (af_inode a) fs in
                case io_error o' IoClose of
                  Some x \<Rightarrow> (a, remove_tmp o' a fs, Some x)
                | None \<Rightarrow>
                    case io_error o' IoRename of
                      Some x \<Rightarrow> (a, remove_tmp o' a fs, Some x)
                    | None \<Rightarrow>
                        case sync_dir o' (sys_rename (af_tmp a) (af_final a) fs) of
                          (fs, e) \<Rightarrow> (a, fs, e))"

definition af_abort :: "io \<Rightarrow> atomic_file \<Rightarrow> file_system \<Rightarrow> atomic_file \<times> file_system" where
  "af_abort o' a fs = (if af_done a then (a, fs) else (a\<lparr>af_done := True\<rparr>, remove_tmp o' a fs))"

section \<open>The life of the file, step by step\<close>

datatype phase = Writing | Flushed | Synced | Closed | Renamed | Committed | Aborted

text \<open>
  One step of the program or of the kernel. The list is what has been written so far. Before
  the sync the kernel may put any bytes on the disk for the new inode, and any directory
  entry may reach the disk at any time on its own.
\<close>

inductive af_step ::
  "string \<Rightarrow> string \<Rightarrow> nat \<Rightarrow> phase \<times> byte list \<times> byte list \<times> file_system
     \<Rightarrow> phase \<times> byte list \<times> byte list \<times> file_system \<Rightarrow> bool"
  for final tmp i where
  append: "af_step final tmp i (Writing, log, buf, fs) (Writing, log @ bs, buf @ bs, fs)"
| spill: "af_step final tmp i (Writing, log, bs @ buf, fs) (Writing, log, buf, sys_write i bs fs)"
| flush: "af_step final tmp i (Writing, log, buf, fs) (Flushed, log, [], sys_write i buf fs)"
| sync: "af_step final tmp i (Flushed, log, buf, fs) (Synced, log, buf, sys_sync i fs)"
| close: "af_step final tmp i (Synced, log, buf, fs) (Closed, log, buf, fs)"
| rename: "af_step final tmp i (Closed, log, buf, fs) (Renamed, log, buf, sys_rename tmp final fs)"
| sync_dir: "af_step final tmp i (Renamed, log, buf, fs) (Committed, log, buf, sys_sync_dir fs)"
| give_up: "p \<in> {Writing, Flushed, Synced, Closed} \<Longrightarrow>
    af_step final tmp i (p, log, buf, fs) (Aborted, log, buf, fs)"
| remove: "af_step final tmp i (Aborted, log, buf, fs) (Aborted, log, buf, sys_remove tmp fs)"
| write_back: "p \<in> {Writing, Flushed, Aborted} \<Longrightarrow>
    af_step final tmp i (p, log, buf, fs) (p, log, buf, fs\<lparr>fs_disk_data := (fs_disk_data fs)(i := bs)\<rparr>)"
| dir_back: "af_step final tmp i (p, log, buf, fs)
    (p, log, buf, fs\<lparr>fs_disk_dir := (fs_disk_dir fs)(name := fs_dir fs name)\<rparr>)"

inductive_cases af_stepE: "af_step final tmp i s s'"

text \<open>What is true of a file at every moment, given what the final name held before.\<close>

definition af_inv ::
  "string \<Rightarrow> string \<Rightarrow> nat \<Rightarrow> nat option \<Rightarrow> (nat \<Rightarrow> byte list)
     \<Rightarrow> phase \<times> byte list \<times> byte list \<times> file_system \<Rightarrow> bool" where
  "af_inv final tmp i old content s =
     (case s of (p, log, buf, fs) \<Rightarrow>
        tmp \<noteq> final \<and> old \<noteq> Some i \<and>
        (\<forall>j. j \<noteq> i \<longrightarrow> fs_data fs j = content j \<and> fs_disk_data fs j = content j) \<and>
        (p \<noteq> Aborted \<longrightarrow> fs_data fs i @ buf = log) \<and> (p \<notin> {Writing, Aborted} \<longrightarrow> buf = []) \<and>
        (p \<in> {Synced, Closed, Renamed, Committed} \<longrightarrow> fs_disk_data fs i = log) \<and>
        (if p \<in> {Renamed, Committed} then fs_dir fs final = Some i
         else fs_dir fs final = old) \<and>
        (p \<in> {Writing, Flushed, Synced, Closed} \<longrightarrow> fs_dir fs tmp = Some i) \<and>
        (fs_disk_dir fs final = old \<or> p \<in> {Renamed, Committed} \<and> fs_disk_dir fs final = Some i) \<and>
        (p = Committed \<longrightarrow> fs_disk_dir fs final = Some i))"

lemma af_step_inv:
  assumes "af_step final tmp i s s'" and "af_inv final tmp i old content s"
  shows "af_inv final tmp i old content s'"
  using assms
proof (induction rule: af_step.induct)
  case (append log buf fs bs)
  then show ?case by (simp add: af_inv_def)
next
  case (spill log bs buf fs)
  then show ?case by (simp add: af_inv_def sys_write_def)
next
  case (flush log buf fs)
  then show ?case by (simp add: af_inv_def sys_write_def)
next
  case (sync log buf fs)
  then show ?case by (auto simp: af_inv_def sys_sync_def)
next
  case (close log buf fs)
  then show ?case by (auto simp: af_inv_def)
next
  case (rename log buf fs)
  then show ?case by (auto simp: af_inv_def sys_rename_def)
next
  case (sync_dir log buf fs)
  then show ?case by (auto simp: af_inv_def sys_sync_dir_def)
next
  case (give_up p log buf fs)
  then show ?case by (cases p) (simp_all add: af_inv_def)
next
  case (remove log buf fs)
  then show ?case by (auto simp: af_inv_def sys_remove_def)
next
  case (write_back p log buf fs bs)
  then show ?case by (cases p) (auto simp: af_inv_def)
next
  case (dir_back p log buf fs name)
  then show ?case by (cases p; cases "name = final") (simp_all add: af_inv_def)
qed

lemma af_run_inv:
  "(af_step final tmp i)\<^sup>*\<^sup>* s s' \<Longrightarrow> af_inv final tmp i old content s \<Longrightarrow> af_inv final tmp i old content s'"
  by (induction rule: rtranclp_induct) (auto intro: af_step_inv)

section \<open>The file is never half written\<close>

text \<open>A file system in which the old destination is on the disk and the new inode is not used.\<close>

definition af_ready :: "string \<Rightarrow> file_system \<Rightarrow> bool" where
  "af_ready final fs \<longleftrightarrow>
     fs_disk_dir fs final = fs_dir fs final \<and>
     (\<forall>j. fs_dir fs final = Some j \<longrightarrow> fs_dir fs (final @ ''.tmp'') \<noteq> Some j \<and> j \<noteq> fs_next fs) \<and>
     fs_disk_data fs = fs_data fs"

lemma create_inv:
  assumes "create_atomic o' path fs = Inr (a, fs')" and "af_ready (af_final a) fs"
  shows "af_inv (af_final a) (af_tmp a) (af_inode a) (fs_dir fs (af_final a)) (fs_data fs) (Writing, [], [], fs')"
proof -
  obtain final where f: "abs_name o' path = Inr final"
    using assms(1) by (auto simp: create_atomic_def split: sum.splits)
  with assms(1) have a: "af_final a = final" "af_tmp a = final @ ''.tmp''"
    "sys_open_trunc (final @ ''.tmp'') fs = (af_inode a, fs')"
    by (auto simp: create_atomic_def Let_def split: option.splits prod.splits)
  show ?thesis
  proof (cases "fs_dir fs (final @ ''.tmp'')")
    case None
    then show ?thesis using a assms(2) by (auto simp: af_inv_def af_ready_def sys_open_trunc_def Let_def)
  next
    case (Some j)
    then show ?thesis using a assms(2) by (auto simp: af_inv_def af_ready_def sys_open_trunc_def)
  qed
qed

text \<open>
  C34. A fingerprint that exists is whole. However the writes, the write-backs of the kernel
  and the failures are ordered, at every moment the destination reads as what it held before
  or as every byte written so far in the finished file, and a crash at that moment leaves one
  of the two as well; after the last step of \<open>Commit\<close> it is the new file, crash or not.
\<close>

theorem destination_whole:
  assumes "create_atomic o' path fs = Inr (a, fs0)" and "af_ready (af_final a) fs"
    and "(af_step (af_final a) (af_tmp a) (af_inode a))\<^sup>*\<^sup>* (Writing, [], [], fs0) (p, log, buf, fs')"
  shows "(fs_read fs' (af_final a) = fs_read fs (af_final a) \<or>
      p \<in> {Renamed, Committed} \<and> fs_read fs' (af_final a) = Some log) \<and>
    (fs_crash_read fs' (af_final a) = fs_read fs (af_final a) \<or>
      p \<in> {Renamed, Committed} \<and> fs_crash_read fs' (af_final a) = Some log) \<and>
    (p = Committed \<longrightarrow> fs_read fs' (af_final a) = Some log \<and> fs_crash_read fs' (af_final a) = Some log)"
proof -
  have inv: "af_inv (af_final a) (af_tmp a) (af_inode a) (fs_dir fs (af_final a)) (fs_data fs) (p, log, buf, fs')"
    using af_run_inv [OF assms(3) create_inv [OF assms(1,2)]] .
  let ?old = "fs_dir fs (af_final a)"
  have same: "map_option (fs_data fs') ?old = fs_read fs (af_final a)"
    "map_option (fs_disk_data fs') ?old = fs_read fs (af_final a)"
    using inv by (cases ?old; simp add: af_inv_def fs_read_def)+
  show ?thesis
  proof (cases "p \<in> {Renamed, Committed}")
    case True
    then have "fs_dir fs' (af_final a) = Some (af_inode a)" "fs_data fs' (af_inode a) = log"
      "fs_disk_data fs' (af_inode a) = log"
      "fs_disk_dir fs' (af_final a) = ?old \<or> fs_disk_dir fs' (af_final a) = Some (af_inode a)"
      "p = Committed \<longrightarrow> fs_disk_dir fs' (af_final a) = Some (af_inode a)"
      using inv by (cases p; simp add: af_inv_def)+
    with True same show ?thesis by (auto simp add: fs_read_def fs_crash_read_def)
  next
    case False
    then have "fs_dir fs' (af_final a) = ?old" "fs_disk_dir fs' (af_final a) = ?old"
      using inv by (cases p; simp add: af_inv_def)+
    with False same show ?thesis by (simp add: fs_read_def [of fs'] fs_crash_read_def)
  qed
qed

definition sample_fs :: file_system where
  "sample_fs = \<lparr>fs_dir = [''/f'' \<mapsto> 0], fs_data = (\<lambda>_. [7]), fs_disk_dir = [''/f'' \<mapsto> 0],
     fs_disk_data = (\<lambda>_. [7]), fs_next = 1\<rparr>"

definition working_io :: io where
  "working_io = \<lparr>io_error = (\<lambda>_. None), io_cwd = ''/'', io_flushed = 0\<rparr>"

lemma abs_sample: "abs_name working_io ''/f'' = Inr ''/f''"
  by (simp add: abs_name_def has_prefix_def clean_def clean_step_def)

lemma create_sample:
  "\<exists>fs0. create_atomic working_io ''/f'' sample_fs =
     Inr (\<lparr>af_final = ''/f'', af_tmp = ''/f.tmp'', af_inode = 1, af_buf = [], af_done = False\<rparr>, fs0)"
  unfolding create_atomic_def abs_sample by (simp add: working_io_def sample_fs_def sys_open_trunc_def Let_def)

theorem destination_whole_witness:
  "\<exists>a fs0 fs'. create_atomic working_io ''/f'' sample_fs = Inr (a, fs0) \<and>
     (af_step ''/f'' ''/f.tmp'' 1)\<^sup>*\<^sup>* (Writing, [], [], fs0) (Writing, [1, 2], [2], fs') \<and>
     fs_read fs' ''/f'' = Some [7] \<and> fs_crash_read fs' ''/f'' = Some [7]"
proof -
  let ?a = "\<lparr>af_final = ''/f'', af_tmp = ''/f.tmp'', af_inode = 1, af_buf = [], af_done = False\<rparr>"
  obtain fs0 where c: "create_atomic working_io ''/f'' sample_fs = Inr (?a, fs0)" using create_sample by blast
  have "af_step ''/f'' ''/f.tmp'' 1 (Writing, [], [], fs0) (Writing, [] @ [1, 2], [] @ [1, 2], fs0)"
    by (rule af_step.append)
  moreover have "af_step ''/f'' ''/f.tmp'' 1 (Writing, [1, 2], [1] @ [2], fs0) (Writing, [1, 2], [2], sys_write 1 [1] fs0)"
    by (rule af_step.spill)
  ultimately have r: "(af_step ''/f'' ''/f.tmp'' 1)\<^sup>*\<^sup>* (Writing, [], [], fs0) (Writing, [1, 2], [2], sys_write 1 [1] fs0)"
    by simp
  have "af_ready (af_final ?a) sample_fs" by (simp add: af_ready_def sample_fs_def)
  from destination_whole [OF c this] r have
    "fs_read (sys_write 1 [1] fs0) ''/f'' = fs_read sample_fs ''/f'' \<and>
     fs_crash_read (sys_write 1 [1] fs0) ''/f'' = fs_read sample_fs ''/f''" by fastforce
  moreover have "fs_read sample_fs ''/f'' = Some [7]" by (simp add: fs_read_def sample_fs_def)
  ultimately show ?thesis using c r by auto
qed

text \<open>The functions of the code are runs of these steps.\<close>

lemma remove_tmp_steps:
  "(af_step final (af_tmp a) i)\<^sup>*\<^sup>* (Aborted, log, buf, fs) (Aborted, log, buf, remove_tmp o' a fs)"
  by (auto simp: remove_tmp_def intro: af_step.remove)

lemma give_up_steps:
  "p \<in> {Writing, Flushed, Synced, Closed} \<Longrightarrow>
   (af_step final (af_tmp a) i)\<^sup>*\<^sup>* (p, log, buf, fs) (Aborted, log, buf, remove_tmp o' a fs)"
  using converse_rtranclp_into_rtranclp [OF af_step.give_up remove_tmp_steps] by metis

lemma partial_flush_steps:
  "(af_step final tmp i)\<^sup>*\<^sup>* (Writing, log, buf, fs) (Writing, log, drop k buf, sys_write i (take k buf) fs)"
  using af_step.spill [of final tmp i log "take k buf" "drop k buf" fs] by auto

lemma flush_steps:
  "(af_step final tmp i)\<^sup>*\<^sup>* (Writing, log, buf, fs) (Flushed, log, [], sys_write i buf fs)"
  by (rule r_into_rtranclp, rule af_step.flush)

lemma sync_steps:
  "(af_step final tmp i)\<^sup>*\<^sup>* (Writing, log, buf, fs) (Synced, log, [], sys_sync i (sys_write i buf fs))"
  by (rule rtranclp.rtrancl_into_rtrancl [OF flush_steps af_step.sync])

lemma close_steps:
  "(af_step final tmp i)\<^sup>*\<^sup>* (Writing, log, buf, fs) (Closed, log, [], sys_sync i (sys_write i buf fs))"
  by (rule rtranclp.rtrancl_into_rtrancl [OF sync_steps af_step.close])

lemma rename_steps:
  "(af_step final tmp i)\<^sup>*\<^sup>* (Writing, log, buf, fs)
     (Renamed, log, [], sys_rename tmp final (sys_sync i (sys_write i buf fs)))"
  by (rule rtranclp.rtrancl_into_rtrancl [OF close_steps af_step.rename])

lemma commit_steps:
  "(af_step final tmp i)\<^sup>*\<^sup>* (Writing, log, buf, fs)
     (Committed, log, [], sys_sync_dir (sys_rename tmp final (sys_sync i (sys_write i buf fs))))"
  by (rule rtranclp.rtrancl_into_rtrancl [OF rename_steps af_step.sync_dir])

lemma commit_done: "af_commit o' a fs = (a', fs', e) \<Longrightarrow> af_done a'"
  by (auto simp: af_commit_def Let_def split: option.splits prod.splits if_splits)

text \<open>
  C35. \<open>Commit\<close>, whatever its system calls answer, is a run of these steps, so the statement
  above covers every moment of it; it reports success exactly when it has reached the last
  one. \<open>Abort\<close> is a run that never renames.
\<close>

theorem commit_runs_steps:
  assumes "af_commit o' a fs = (a', fs', e)" and "\<not> af_done a"
  shows "\<exists>p buf. (af_step (af_final a) (af_tmp a) (af_inode a))\<^sup>*\<^sup>*
      (Writing, log, af_buf a, fs) (p, log, buf, fs') \<and> (e = None \<longleftrightarrow> p = Committed) \<and> af_done a'"
proof -
  let ?b = "a\<lparr>af_done := True\<rparr>" and ?w = "sys_write (af_inode a) (af_buf a) fs"
  let ?S = "(af_step (af_final a) (af_tmp a) (af_inode a))\<^sup>*\<^sup>*"
  let ?s = "sys_sync (af_inode a) ?w"
  let ?r = "sys_rename (af_tmp a) (af_final a) ?s"
  have gu: "?S (Writing, log, af_buf a, fs) (q, log, buf, f) \<Longrightarrow> q \<in> {Writing, Flushed, Synced, Closed} \<Longrightarrow>
      ?S (Writing, log, af_buf a, fs) (Aborted, log, buf, remove_tmp o' ?b f)" for q buf f
    using give_up_steps [of q "af_final a" ?b "af_inode a" log buf f o'] rtranclp_trans by fastforce
  have "\<exists>p buf. ?S (Writing, log, af_buf a, fs) (p, log, buf, fs') \<and> (e = None \<longleftrightarrow> p = Committed)"
  proof (cases "io_error o' IoFlush")
    case (Some x)
    with assms have "e = Some x" "fs' = remove_tmp o' ?b (sys_write (af_inode a) (take (io_flushed o') (af_buf a)) fs)"
      by (auto simp: af_commit_def Let_def)
    with gu [OF partial_flush_steps] show ?thesis by blast
  next
    case flush: None
    show ?thesis
    proof (cases "io_error o' IoSync")
      case (Some x)
      with assms flush have "e = Some x" "fs' = remove_tmp o' ?b ?w" by (auto simp: af_commit_def Let_def)
      with gu [OF flush_steps] show ?thesis by blast
    next
      case sync: None
      show ?thesis
      proof (cases "io_error o' IoClose = None \<and> io_error o' IoRename = None")
        case False
        with assms flush sync have "e \<noteq> None" "fs' = remove_tmp o' ?b ?s"
          by (cases "io_error o' IoClose"; cases "io_error o' IoRename"; auto simp: af_commit_def Let_def)+
        with gu [OF close_steps] show ?thesis by blast
      next
        case True
        with assms flush sync have r: "sync_dir o' ?r = (fs', e)"
          by (simp add: af_commit_def Let_def split: prod.splits)
        show ?thesis
        proof (cases e)
          case None
          with r have "fs' = sys_sync_dir ?r" by (auto simp: sync_dir_def split: option.splits)
          with commit_steps None show ?thesis by blast
        next
          case (Some x)
          with r have "fs' = ?r" by (auto simp: sync_dir_def split: option.splits)
          with rename_steps Some show ?thesis by blast
        qed
      qed
    qed
  qed
  with commit_done [OF assms(1)] show ?thesis by blast
qed

theorem commit_runs_steps_witness:
  "\<exists>a fs0 a' fs' p buf. create_atomic working_io ''/f'' sample_fs = Inr (a, fs0) \<and>
     af_commit working_io a fs0 = (a', fs', None) \<and>
     (af_step ''/f'' ''/f.tmp'' 1)\<^sup>*\<^sup>* (Writing, [], [], fs0) (p, [], buf, fs') \<and> p = Committed"
proof -
  let ?a = "\<lparr>af_final = ''/f'', af_tmp = ''/f.tmp'', af_inode = 1, af_buf = [], af_done = False\<rparr>"
  obtain fs0 where c: "create_atomic working_io ''/f'' sample_fs = Inr (?a, fs0)" using create_sample by blast
  obtain a' fs' where m: "af_commit working_io ?a fs0 = (a', fs', None)"
    by (simp add: af_commit_def working_io_def sync_dir_def Let_def)
  from commit_runs_steps [OF m, of "[]"] obtain p buf where
    "(af_step ''/f'' ''/f.tmp'' 1)\<^sup>*\<^sup>* (Writing, [], [], fs0) (p, [], buf, fs')" "p = Committed" by auto
  with c m show ?thesis by blast
qed

end
