(* ===== verification/Go_Flags.thy ===== *)
theory Go_Flags
  imports Go_Text
begin

text \<open>
  What the commands use of the package \<open>flag\<close> and of the two parsers of \<open>strconv\<close> behind it:
  \<open>FlagSet.Parse\<close> with \<open>ContinueOnError\<close>. A flag set is the list of its flags with their
  kinds; parsing gives the assignments in the order they were made and the arguments that
  are left, or the first error.
\<close>

section \<open>Values\<close>

datatype flag_kind = FlagString | FlagBool | FlagInt | FlagList

datatype flag_value = VString string | VBool bool | VInt int

datatype flag_error =
    ErrHelp
  | BadSyntax string
  | NotDefined string
  | NeedsArgument string
  | InvalidValue string string

definition parse_bool :: "string \<Rightarrow> bool option" where
  "parse_bool s =
     (if s \<in> {''1'', ''t'', ''T'', ''TRUE'', ''true'', ''True''} then Some True
      else if s \<in> {''0'', ''f'', ''F'', ''FALSE'', ''false'', ''False''} then Some False else None)"

text \<open>\<open>strconv.ParseInt(s, 0, 64)\<close>: a sign, a base prefix, and underscores between digits.\<close>

definition digit_value :: "char \<Rightarrow> nat option" where
  "digit_value c =
     (let l = lower_char c in
      if is_digit c then Some (of_char c - 48)
      else if is_lower l then Some (of_char l - 87) else None)"

fun parse_digits :: "nat \<Rightarrow> nat \<Rightarrow> string \<Rightarrow> nat option" where
  "parse_digits base acc [] = Some acc"
| "parse_digits base acc (c # s) =
     (if c = CHR ''_'' then parse_digits base acc s
      else case digit_value c of
             None \<Rightarrow> None
           | Some d \<Rightarrow> if d < base then parse_digits base (base * acc + d) s else None)"

definition base_prefix :: "string \<Rightarrow> (char \<times> string) option" where
  "base_prefix s =
     (case s of
        z # p # r \<Rightarrow>
          if z = CHR ''0'' \<and> lower_char p \<in> {CHR ''b'', CHR ''o'', CHR ''x''} then Some (lower_char p, r) else None
      | _ \<Rightarrow> None)"

text \<open>\<open>underscoreOK\<close>, after the sign: the last thing seen is a digit, an underscore or neither.\<close>

fun underscores_ok :: "bool \<Rightarrow> char \<Rightarrow> string \<Rightarrow> bool" where
  "underscores_ok hexa saw [] \<longleftrightarrow> saw \<noteq> CHR ''_''"
| "underscores_ok hexa saw (c # s) \<longleftrightarrow>
     (if is_digit c \<or> (hexa \<and> lower_char c \<in> set ''abcdef'') then underscores_ok hexa (CHR ''0'') s
      else if c = CHR ''_'' then saw = CHR ''0'' \<and> underscores_ok hexa c s
      else saw \<noteq> CHR ''_'' \<and> underscores_ok hexa (CHR ''!'') s)"

definition underscore_rule :: "string \<Rightarrow> bool" where
  "underscore_rule s =
     (case base_prefix s of
        None \<Rightarrow> underscores_ok False (CHR ''^'') s
      | Some (p, r) \<Rightarrow> underscores_ok (p = CHR ''x'') (CHR ''0'') r)"

definition parse_uint :: "string \<Rightarrow> nat option" where
  "parse_uint s =
     (if s = [] then None
      else if CHR ''_'' \<in> set s \<and> \<not> underscore_rule s then None
      else case base_prefix s of
             Some (p, r) \<Rightarrow>
               if r = [] then parse_digits 8 0 (tl s)
               else parse_digits (if p = CHR ''b'' then 2 else if p = CHR ''o'' then 8 else 16) 0 r
           | None \<Rightarrow> if hd s = CHR ''0'' then parse_digits 8 0 (tl s) else parse_digits 10 0 s)"

definition parse_int :: "string \<Rightarrow> int option" where
  "parse_int s =
     (let neg = (s \<noteq> [] \<and> hd s = CHR ''-'');
          ds = (if s \<noteq> [] \<and> (hd s = CHR ''-'' \<or> hd s = CHR ''+'') then tl s else s)
      in case parse_uint ds of
           None \<Rightarrow> None
         | Some v \<Rightarrow>
             if neg then (if v \<le> 2 ^ 63 then Some (- int v) else None)
             else if v < 2 ^ 63 then Some (int v) else None)"

definition flag_set :: "flag_kind \<Rightarrow> string \<Rightarrow> flag_value option" where
  "flag_set k v =
     (case k of
        FlagBool \<Rightarrow> map_option VBool (parse_bool v)
      | FlagInt \<Rightarrow> map_option VInt (parse_int v)
      | _ \<Rightarrow> Some (VString v))"

section \<open>Parse\<close>

type_synonym flag_table = "(string \<times> flag_kind) list"
type_synonym assignments = "(string \<times> flag_value) list"

text \<open>The name and the optional value behind the dashes; the first byte is never the sign.\<close>

definition split_flag :: "string \<Rightarrow> string \<times> string option" where
  "split_flag body =
     (case cut CHR ''='' (tl body) of
        None \<Rightarrow> (body, None)
      | Some (a, v) \<Rightarrow> (hd body # a, Some v))"

text \<open>An argument that is not a flag, or \<open>--\<close>, ends the flags.\<close>

datatype arg_kind = Positional | Terminator | FlagArg string

definition arg_kind :: "string \<Rightarrow> arg_kind" where
  "arg_kind s =
     (if length s < 2 \<or> hd s \<noteq> CHR ''-'' then Positional
      else if s = ''--'' then Terminator
      else FlagArg (if s ! 1 = CHR ''-'' then drop 2 s else drop 1 s))"

fun parse_flags ::
  "flag_table \<Rightarrow> assignments \<Rightarrow> string list \<Rightarrow> flag_error + (assignments \<times> string list)" where
  "parse_flags tab done [] = Inr (done, [])"
| "parse_flags tab done (s # args) =
     (case arg_kind s of
        Positional \<Rightarrow> Inr (done, s # args)
      | Terminator \<Rightarrow> Inr (done, args)
      | FlagArg body \<Rightarrow>
          if body = [] \<or> hd body = CHR ''-'' \<or> hd body = CHR ''='' then Inl (BadSyntax s)
          else
            let (name, val) = split_flag body in
            case map_of tab name of
              None \<Rightarrow> Inl (if name = ''help'' \<or> name = ''h'' then ErrHelp else NotDefined name)
            | Some FlagBool \<Rightarrow>
                (case flag_set FlagBool (case val of None \<Rightarrow> ''true'' | Some v \<Rightarrow> v) of
                   None \<Rightarrow> Inl (InvalidValue name (case val of None \<Rightarrow> ''true'' | Some v \<Rightarrow> v))
                 | Some x \<Rightarrow> parse_flags tab (done @ [(name, x)]) args)
            | Some k \<Rightarrow>
                (case val of
                   Some v \<Rightarrow>
                     (case flag_set k v of
                        None \<Rightarrow> Inl (InvalidValue name v)
                      | Some x \<Rightarrow> parse_flags tab (done @ [(name, x)]) args)
                 | None \<Rightarrow>
                     (case args of
                        [] \<Rightarrow> Inl (NeedsArgument name)
                      | v # rest \<Rightarrow>
                          (case flag_set k v of
                             None \<Rightarrow> Inl (InvalidValue name v)
                           | Some x \<Rightarrow> parse_flags tab (done @ [(name, x)]) rest))))"

text \<open>What the variables bound to the flags hold afterwards: the last assignment, or the default.\<close>

definition last_value :: "assignments \<Rightarrow> string \<Rightarrow> flag_value option" where
  "last_value as name = map_of (rev as) name"

definition string_flag :: "assignments \<Rightarrow> string \<Rightarrow> string \<Rightarrow> string" where
  "string_flag as name d = (case last_value as name of Some (VString s) \<Rightarrow> s | _ \<Rightarrow> d)"

definition bool_flag :: "assignments \<Rightarrow> string \<Rightarrow> bool" where
  "bool_flag as name = (case last_value as name of Some (VBool b) \<Rightarrow> b | _ \<Rightarrow> False)"

definition int_flag :: "assignments \<Rightarrow> string \<Rightarrow> int \<Rightarrow> int" where
  "int_flag as name d = (case last_value as name of Some (VInt n) \<Rightarrow> n | _ \<Rightarrow> d)"

definition list_flag :: "assignments \<Rightarrow> string \<Rightarrow> string list" where
  "list_flag as name =
     List.map_filter (\<lambda>(n, v). case v of VString s \<Rightarrow> if n = name then Some s else None | _ \<Rightarrow> None) as"

end
