(* ===== verification/Cmd_Main.thy ===== *)
theory Cmd_Main
  imports Cmd_Atomic Go_Flags Os_Detect Report_Json
begin

text \<open>
  \<open>cmd/osfp/main.go\<close>, \<open>root.go\<close>, \<open>flags.go\<close> and the parts that the commands share: the exit
  codes, the errors, the table of commands and its dispatcher, the privilege check, the
  resolution of the key and the test that two scans are comparable.

  What the commands ask of the system is the record \<open>host\<close>; the files they name themselves
  are in the \<open>file_system\<close> of \<open>Cmd_Atomic\<close>, and what they print is kept as a list of lines.
\<close>

section \<open>Errors and exit codes\<close>

definition exit_ok :: int where "exit_ok = 0"
definition exit_diff :: int where "exit_diff = 1"
definition exit_error :: int where "exit_error = 2"
definition exit_privilege :: int where "exit_privilege = 3"
definition exit_interrupted :: int where "exit_interrupted = 130"

datatype program_error =
    MustBeRoot int
  | BadMounts string
  | DetectFailed detect_error
  | TargetExists string
  | IoFailed string
  | BadExclusion string
  | StoreFailed store_error
  | ScanFailed string
  | NotADirectory string
  | Interrupted
  | BadNewDirMode string
  | WrongSystem string string
  | PrivilegeMismatch bool bool
  | UnknownFormat string
  | BadShow op_error
  | BadIgnore ignore_error
  | RootUnreadable string string
  | RootNoDirectory string
  | LiveOutOfOrder string string
  | ReportFailed string
  | Panicked
  | Diverges

text \<open>
  \<open>usageError\<close>, \<open>codedError\<close>, which may carry no error at all, and any other error. The flag
  error of a usage error is \<open>None\<close> for \<open>errUsage\<close> itself.
\<close>

datatype cmd_error =
    UsageError "flag_error option"
  | CodedError int "program_error option"
  | PlainError program_error

definition with_exit :: "int \<Rightarrow> program_error option \<Rightarrow> cmd_error" where
  "with_exit code err = CodedError code err"

section \<open>Build stamps\<close>

text \<open>
  \<open>version.go\<close>: the two variables set at link time, and what \<open>debug.ReadBuildInfo\<close> gives, the
  version of the main module and the settings.
\<close>

record build =
  bu_version :: string
  bu_commit :: string
  bu_info :: "(string \<times> (string \<times> string) list) option"
  bu_go :: string
  bu_cgo :: bool

definition unknown_version :: string where "unknown_version = ''devel''"

fun vcs_revision :: "(string \<times> string) list \<Rightarrow> string \<Rightarrow> string" where
  "vcs_revision [] rv = rv"
| "vcs_revision ((k, v) # s) rv =
     (if k = ''vcs.revision'' then vcs_revision s v
      else if k = ''vcs.modified'' \<and> v = ''true'' \<and> rv \<noteq> [] then vcs_revision s (rv @ ''-dirty'')
      else vcs_revision s rv)"

definition build_stamps :: "build \<Rightarrow> string \<times> string" where
  "build_stamps b =
     (case bu_info b of
        None \<Rightarrow> (if bu_version b = [] then unknown_version else bu_version b, bu_commit b)
      | Some (v, settings) \<Rightarrow>
          (if bu_version b \<noteq> [] then bu_version b
           else if v = [] \<or> v = ''(devel)'' then unknown_version else v,
           if bu_commit b \<noteq> [] then bu_commit b else vcs_revision settings []))"

definition tool_version :: "build \<Rightarrow> string" where
  "tool_version b = fst (build_stamps b)"

section \<open>The host\<close>

record host =
  ho_euid :: int
  ho_env :: env
  ho_now :: int
  ho_clock :: "nat \<Rightarrow> int"
  ho_elapsed :: int
  ho_build :: build
  ho_io :: io
  ho_executable :: "string option"
  ho_resolved :: "string option"
  ho_system :: system
  ho_tree :: "string \<Rightarrow> string + tree"
  ho_stat :: "string \<Rightarrow> string + bool"
  ho_ctx_done :: bool
  ho_room :: "nat option"
  ho_writer :: "(string, string) sink"
  ho_no_color :: bool
  ho_stdout_tty :: bool
  ho_stderr_tty :: bool

text \<open>
  The compressor and the JSON text of the metadata, with their inverses, and the indented
  text that \<open>info --json\<close> prints.
\<close>

record codec =
  cd_enc :: "byte list \<Rightarrow> byte list"
  cd_dec :: "byte list \<Rightarrow> byte list option"
  cd_marshal :: "meta \<Rightarrow> byte list option"
  cd_unmarshal :: "byte list \<Rightarrow> meta option"
  cd_indent :: "meta \<Rightarrow> string + string"

record console =
  co_fs :: file_system
  co_out :: "string list"
  co_err :: "string list"

definition console_start :: "file_system \<Rightarrow> console" where
  "console_start fs = \<lparr>co_fs = fs, co_out = [], co_err = []\<rparr>"

definition print_out :: "string \<Rightarrow> console \<Rightarrow> console" where
  "print_out s c = c\<lparr>co_out := co_out c @ [s]\<rparr>"

definition print_err :: "string \<Rightarrow> console \<Rightarrow> console" where
  "print_err s c = c\<lparr>co_err := co_err c @ [s]\<rparr>"

text \<open>A path as the system resolves it, and reading a whole file.\<close>

definition resolve :: "host \<Rightarrow> string \<Rightarrow> string" where
  "resolve h path =
     (if has_prefix path ''/'' then clean path else clean (io_cwd (ho_io h) @ ''/'' @ path))"

definition stat_exists :: "host \<Rightarrow> file_system \<Rightarrow> string \<Rightarrow> bool" where
  "stat_exists h fs path \<longleftrightarrow> fs_dir fs (resolve h path) \<noteq> None"

definition read_file :: "host \<Rightarrow> file_system \<Rightarrow> string \<Rightarrow> string + byte list" where
  "read_file h fs path =
     (case fs_read fs (resolve h path) of None \<Rightarrow> Inl path | Some bs \<Rightarrow> Inr bs)"

definition file_size :: "host \<Rightarrow> file_system \<Rightarrow> string \<Rightarrow> i64" where
  "file_size h fs path =
     (case fs_read fs (resolve h path) of None \<Rightarrow> 0 | Some bs \<Rightarrow> of_nat (length bs))"

definition read_lines :: "host \<Rightarrow> file_system \<Rightarrow> string \<Rightarrow> string + string list" where
  "read_lines h fs path =
     (case read_file h fs path of
        Inl x \<Rightarrow> Inl x
      | Inr bs \<Rightarrow> Inr (split_at (CHR 10) (unix_newlines (string_of bs))))"

text \<open>\<open>exclude.SelfPaths\<close>.\<close>

definition self_paths :: "host \<Rightarrow> string list" where
  "self_paths h =
     (case ho_executable h of
        None \<Rightarrow> []
      | Some exe \<Rightarrow>
          exe # (case ho_resolved h of None \<Rightarrow> [] | Some r \<Rightarrow> if r \<noteq> exe then [r] else []))"

section \<open>root.go\<close>

definition privileged :: "host \<Rightarrow> bool" where
  "privileged h \<longleftrightarrow> ho_euid h = 0"

definition root_warning :: string where
  "root_warning = ''WARNING: running unprivileged; the result is incomplete '' @
     ''and must not be used as an audit baseline''"

definition require_root :: "host \<Rightarrow> bool \<Rightarrow> console \<Rightarrow> console \<times> cmd_error option" where
  "require_root h allow c =
     (if ho_euid h = 0 then (c, None)
      else if \<not> allow then (c, Some (with_exit exit_privilege (Some (MustBeRoot (ho_euid h)))))
      else (print_err root_warning c, None))"

section \<open>The key of the running system\<close>

definition identify :: "host \<Rightarrow> string \<Rightarrow> detect_error + os_info \<times> string" where
  "identify h override =
     (case detect (ho_env h) of (info, err) \<Rightarrow>
        case (if override = [] then err else None) of
          Some e \<Rightarrow> Inl e
        | None \<Rightarrow>
            if override = [] then Inr (info, info_key info)
            else (case normalize_key override of Inl e \<Rightarrow> Inl e | Inr key \<Rightarrow> Inr (info, key)))"

definition check_comparable :: "host \<Rightarrow> meta \<Rightarrow> os_info \<Rightarrow> bool \<Rightarrow> cmd_error option" where
  "check_comparable h m info allow =
     (if info_key info \<noteq> m_key m \<and> \<not> allow
      then Some (PlainError (WrongSystem (info_key info) (m_key m)))
      else if m_privileged m \<noteq> privileged h
      then Some (with_exit exit_privilege (Some (PrivilegeMismatch (m_privileged m) (privileged h))))
      else None)"

definition privilege_word :: "bool \<Rightarrow> string" where
  "privilege_word p = (if p then ''as root'' else ''unprivileged'')"

definition optional :: "bool \<Rightarrow> string \<Rightarrow> string" where
  "optional b s = (if b then s else [])"

section \<open>Progress\<close>

text \<open>\<open>progress\<close>: a line at most once a second, asked for every 512 entries.\<close>

record progress =
  pr_enabled :: bool
  pr_terminal :: bool
  pr_next :: int
  pr_entries :: nat
  pr_bytes :: i64
  pr_started :: int
  pr_width :: nat

definition progress_width :: nat where "progress_width = 79"

definition new_progress :: "host \<Rightarrow> bool \<Rightarrow> progress" where
  "new_progress h enabled =
     \<lparr>pr_enabled = enabled, pr_terminal = ho_stderr_tty h, pr_next = ho_clock h 0 + second,
      pr_entries = 0, pr_bytes = 0, pr_started = ho_clock h 0, pr_width = 0\<rparr>"

text \<open>The first runes of a string, an invalid byte turned into the replacement character.\<close>

fun take_runes :: "nat \<Rightarrow> string \<Rightarrow> string" where
  "take_runes 0 s = []"
| "take_runes (Suc n) s =
     (if s = [] then []
      else let (r, w) = decode_rune s
           in (if r = 0xFFFD then utf8 [0xEF, 0xBF, 0xBD] else take w s) @ take_runes n (drop w s))"

definition progress_line :: "progress \<Rightarrow> int \<Rightarrow> string" where
  "progress_line p now =
     ''  '' @ count_nat (pr_entries p) @ '' entries, '' @ bytes_string (pr_bytes p) @ '' hashed, '' @
     duration_text (now - pr_started p)"

definition tick :: "host \<Rightarrow> entry \<Rightarrow> progress \<times> string list \<Rightarrow> progress \<times> string list" where
  "tick h e ps =
     (case ps of (p, out) \<Rightarrow>
        if \<not> pr_enabled p then (p, out)
        else
          let p = p\<lparr>pr_entries := Suc (pr_entries p)\<rparr>;
              p = (if e_hashed e then p\<lparr>pr_bytes := pr_bytes p + e_size e\<rparr> else p);
              now = ho_clock h (pr_entries p)
          in if pr_entries p mod 512 \<noteq> 0 \<or> now < pr_next p then (p, out)
             else
               let p = p\<lparr>pr_next := now + second\<rparr> in
               if pr_terminal p
               then let line = take_runes progress_width (progress_line p now @ ''  '' @ e_path e);
                        p = p\<lparr>pr_width := max (pr_width p) (rune_count line)\<rparr>
                    in (p, out @ [CHR 13 # pad_right (pr_width p) line])
               else (p, out @ [progress_line p now @ newline]))"

definition progress_done :: "progress \<Rightarrow> string list" where
  "progress_done p =
     (if pr_enabled p \<and> pr_terminal p \<and> 0 < pr_width p
      then [CHR 13 # replicate (pr_width p) CHR '' '' @ [CHR 13]] else [])"

section \<open>The dispatcher\<close>

datatype subcommand = Baseline | Compare | Info | Verify | Version

record command =
  cm_name :: string
  cm_usage :: string
  cm_summary :: string
  cm_run :: subcommand

definition commands :: "command list" where
  "commands =
     [\<lparr>cm_name = ''baseline'',
       cm_usage = ''baseline [-o FILE] [--exclude PATH]... [--root DIR] [--jobs N]'',
       cm_summary = ''record a fingerprint of the current filesystem'', cm_run = Baseline\<rparr>,
      \<lparr>cm_name = ''compare'',
       cm_usage = ''compare -b FINGERPRINT [--show CODES] [--new-dir-mode MODE] [--ignore-from FILE]'',
       cm_summary = ''report how the filesystem drifted from a fingerprint'', cm_run = Compare\<rparr>,
      \<lparr>cm_name = ''info'', cm_usage = ''info -b FINGERPRINT'',
       cm_summary = ''print the metadata of a fingerprint'', cm_run = Info\<rparr>,
      \<lparr>cm_name = ''verify'', cm_usage = ''verify -b FINGERPRINT'',
       cm_summary = ''check the internal checksum of a fingerprint'', cm_run = Verify\<rparr>,
      \<lparr>cm_name = ''version'', cm_usage = ''version [--short]'',
       cm_summary = ''print version and build information'', cm_run = Version\<rparr>]"

definition lookup_command :: "string \<Rightarrow> subcommand option" where
  "lookup_command name = map_option cm_run (find (\<lambda>c. cm_name c = name) commands)"

lemma lookup_command_cases:
  "lookup_command name =
     (if name = ''baseline'' then Some Baseline else if name = ''compare'' then Some Compare
      else if name = ''info'' then Some Info else if name = ''verify'' then Some Verify
      else if name = ''version'' then Some Version else None)"
  by (simp add: lookup_command_def commands_def)

text \<open>
  What the dispatcher itself prints; the last one carries no text at all. The usage of the
  program follows an unknown command, but not behind \<open>help\<close>; the usage of a command has its
  options when the error brought the flag set along.
\<close>

datatype diagnosis =
    GeneralUsage
  | UnknownCommand string bool
  | CommandUsage subcommand bool
  | ErrorLine subcommand program_error
  | FlagErrorLine subcommand flag_error
  | NoDiagnosis

definition outcome :: "subcommand \<Rightarrow> cmd_error option \<Rightarrow> int \<times> diagnosis" where
  "outcome cmd err =
     (case err of
        None \<Rightarrow> (exit_ok, NoDiagnosis)
      | Some (UsageError None) \<Rightarrow> (exit_error, CommandUsage cmd True)
      | Some (UsageError (Some ErrHelp)) \<Rightarrow> (exit_error, CommandUsage cmd True)
      | Some (UsageError (Some e)) \<Rightarrow> (exit_error, FlagErrorLine cmd e)
      | Some (CodedError code None) \<Rightarrow> (code, NoDiagnosis)
      | Some (CodedError code (Some e)) \<Rightarrow> (code, ErrorLine cmd e)
      | Some (PlainError e) \<Rightarrow> (exit_error, ErrorLine cmd e))"

type_synonym runner = "subcommand \<Rightarrow> string list \<Rightarrow> console \<Rightarrow> console \<times> cmd_error option"

text \<open>\<open>help\<close>: the command describes its own flags through the error of \<open>-h\<close>.\<close>

definition help_command :: "runner \<Rightarrow> string list \<Rightarrow> console \<Rightarrow> console \<times> int \<times> diagnosis" where
  "help_command run args c =
     (case args of
        [] \<Rightarrow> (c, exit_ok, GeneralUsage)
      | name # _ \<Rightarrow>
          (case lookup_command name of
             None \<Rightarrow> (c, exit_error, UnknownCommand name False)
           | Some cmd \<Rightarrow>
               (case run cmd [''-h''] c of (c, err) \<Rightarrow>
                  (c, exit_ok, CommandUsage cmd (case err of Some (UsageError _) \<Rightarrow> True | _ \<Rightarrow> False)))))"

definition dispatch :: "runner \<Rightarrow> string list \<Rightarrow> console \<Rightarrow> console \<times> int \<times> diagnosis" where
  "dispatch run args c =
     (case args of
        [] \<Rightarrow> (c, exit_error, GeneralUsage)
      | name # rest \<Rightarrow>
          if name \<in> {''-h'', ''-help'', ''--help'', ''help''} then help_command run rest c
          else
            let (name, rest) = (if name \<in> {''-V'', ''--version''} then (''version'', []) else (name, rest)) in
            case lookup_command name of
              None \<Rightarrow> (c, exit_error, UnknownCommand name True)
            | Some cmd \<Rightarrow> (case run cmd rest c of (c, err) \<Rightarrow> (c, outcome cmd err)))"

end
