(* ===== verification/Cmd_Baseline.thy ===== *)
theory Cmd_Baseline
  imports Cmd_Main Store_Session
begin

text \<open>
  \<open>cmd/osfp/baseline.go\<close>: \<open>runBaseline\<close>, from its flags to the renamed fingerprint. The
  steps are the ones of the code, in its order; every early return is a branch, and the
  deferred \<open>Abort\<close> runs on each of them once the file was created.

  The buffered writer over the file takes the bytes of the fingerprint writer; \<open>ho_room\<close> is
  the number of bytes after which a write fails, so every point at which the disk can be
  full is some host.
\<close>

section \<open>Flags\<close>

definition baseline_flags :: flag_table where
  "baseline_flags =
     [(''o'', FlagString), (''exclude'', FlagList), (''exclude-from'', FlagString),
      (''no-default-excludes'', FlagBool), (''root'', FlagString), (''jobs'', FlagInt),
      (''mounts'', FlagString), (''max-file-size'', FlagInt), (''max-depth'', FlagInt),
      (''allow-non-root'', FlagBool), (''os-id'', FlagString), (''force'', FlagBool),
      (''v'', FlagBool), (''verbose'', FlagBool)]"

definition verbose_flag :: "assignments \<Rightarrow> bool" where
  "verbose_flag as =
     (case filter (\<lambda>(n, v). n = ''v'' \<or> n = ''verbose'') as of
        [] \<Rightarrow> False
      | vs \<Rightarrow> snd (last vs) = VBool True)"

section \<open>The perimeter and the options\<close>

definition baseline_patterns ::
  "host \<Rightarrow> assignments \<Rightarrow> file_system \<Rightarrow> program_error + string list" where
  "baseline_patterns h as fs =
     (let from_file = string_flag as ''exclude-from'' [] in
      if from_file = [] then Inr (list_flag as ''exclude'')
      else case read_lines h fs from_file of
             Inl x \<Rightarrow> Inl (IoFailed x)
           | Inr ls \<Rightarrow> Inr (list_flag as ''exclude'' @ ls))"

definition baseline_set ::
  "host \<Rightarrow> assignments \<Rightarrow> os_info \<Rightarrow> atomic_file \<Rightarrow> file_system \<Rightarrow> program_error + exclude_set" where
  "baseline_set h as info a fs =
     (case baseline_patterns h as fs of
        Inl e \<Rightarrow> Inl e
      | Inr patterns \<Rightarrow>
          (case new_set \<lparr>xo_goos = oi_os info, xo_root = string_flag as ''root'' ''/'',
                  xo_no_defaults = bool_flag as ''no-default-excludes'', xo_patterns = patterns,
                  xo_auto = self_paths h @ af_paths a, xo_no_volatiles = False\<rparr> of
             Inl p \<Rightarrow> Inl (BadExclusion p)
           | Inr s \<Rightarrow> Inr s))"

definition dropped_note :: "assignments \<Rightarrow> exclude_set \<Rightarrow> console \<Rightarrow> console" where
  "dropped_note as s c =
     (let d = xs_dropped s; n = length d in
      if n = 0 then c
      else print_err
             (''note: '' @ decimal n @ '' '' @ plural_nat n ''exclusion does not apply'' ''exclusions do not apply''
              @ '' under --root '' @ string_flag as ''root'' ''/'' @ '' and '' @ plural_nat n ''was'' ''were''
              @ '' not recorded: '' @ join '' '' d @ newline) c)"

definition baseline_options :: "host \<Rightarrow> assignments \<Rightarrow> mount_policy \<Rightarrow> exclude_set \<Rightarrow> walk_options" where
  "baseline_options h as policy s =
     (let jobs = int_flag as ''jobs'' 0 in
      \<lparr>wo_root = string_flag as ''root'' ''/'', wo_exclude = Some s, wo_mounts = policy,
       wo_max_depth = int_flag as ''max-depth'' default_max_depth,
       wo_jobs = (if jobs \<le> 0 then default_jobs (sy_num_cpu (ho_system h)) else jobs),
       wo_max_file_size = of_int (int_flag as ''max-file-size'' 0), wo_no_hash = False, wo_descend = None\<rparr>)"

definition baseline_meta ::
  "host \<Rightarrow> os_info \<Rightarrow> string \<Rightarrow> walk_options \<Rightarrow> exclude_set \<Rightarrow> meta" where
  "baseline_meta h info key opts s =
     \<lparr>m_tool = ''osfp'', m_tool_version = tool_version (ho_build h), m_created_at = ho_now h, m_key = key,
      m_system = info, m_privileged = privileged h, m_euid = ho_euid h,
      m_scan = \<lparr>so_root = clean (wo_root opts), so_mounts = mount_policy_string (wo_mounts opts),
        so_max_depth = wo_max_depth opts, so_max_file_size = wo_max_file_size opts,
        so_jobs = wo_jobs opts, so_track_hardlinks = False\<rparr>,
      m_exclusions = xs_patterns s, m_entries = 0, m_errors = 0, m_blocks = 0\<rparr>"

section \<open>Scan and write\<close>

text \<open>The callback of \<open>Walk\<close>: the progress line, then the writer.\<close>

definition record_entry :: "host \<Rightarrow> codec \<Rightarrow> (progress \<times> string list) \<times> writer \<Rightarrow> entry
    \<Rightarrow> ((progress \<times> string list) \<times> writer) \<times> store_error option" where
  "record_entry h cd pw e =
     (case add (cd_enc cd) (snd pw) e of (w, err) \<Rightarrow> ((tick h e (fst pw), w), err))"

definition scan_error :: "host \<Rightarrow> store_error walk_error \<Rightarrow> cmd_error" where
  "scan_error h x =
     (if ho_ctx_done h then with_exit exit_interrupted (Some Interrupted)
      else PlainError
        (case x of
           RootStat err \<Rightarrow> ScanFailed err
         | RootNotDir \<Rightarrow> NotADirectory []
         | WalkEmit e \<Rightarrow> StoreFailed e
         | WalkCancelled \<Rightarrow> Interrupted))"

text \<open>
  From \<open>NewWriter\<close> to the \<open>Close\<close> of the writer: the bytes that went to the file, and the
  error or the counters and the final state of the progress.
\<close>

definition baseline_scan ::
  "host \<Rightarrow> codec \<Rightarrow> assignments \<Rightarrow> walk_options \<Rightarrow> meta
     \<Rightarrow> byte list \<times> string list \<times> (cmd_error + scan_stats \<times> progress)" where
  "baseline_scan h cd as opts m =
     (let dev = \<lparr>dev_data = [], dev_room = ho_room h\<rparr> in
      case new_writer (cd_marshal cd) dev m of
        Inl e \<Rightarrow> ([], [], Inl (PlainError (StoreFailed e)))
      | Inr w \<Rightarrow>
          (case walk opts (ho_system h) (ho_tree h (clean (wo_root opts))) (record_entry h cd)
                  ((new_progress h (verbose_flag as), []), w) of
             (stats, Some x, ((p, out), w)) \<Rightarrow> (dev_data (w_dev w), out, Inl (scan_error h x))
           | (stats, None, ((p, out), w)) \<Rightarrow>
               (case close_writer (cd_enc cd) w of
                  (w, Some e) \<Rightarrow> (dev_data (w_dev w), out, Inl (PlainError (StoreFailed e)))
                | (w, None) \<Rightarrow> (dev_data (w_dev w), out, Inr (stats, p)))))"

section \<open>The summary\<close>

definition mount_line :: "skipped_mount \<Rightarrow> string" where
  "mount_line m = ''  mount    '' @ fs_kind_string (sk_kind m) @ '' not crossed: '' @ mount_label m @ newline"

definition counted :: "nat \<Rightarrow> string \<Rightarrow> string \<Rightarrow> string" where
  "counted n one many = count_nat n @ '' '' @ plural_nat n one many"

definition baseline_summary ::
  "host \<Rightarrow> string \<Rightarrow> meta \<Rightarrow> scan_stats \<Rightarrow> i64 \<Rightarrow> string list" where
  "baseline_summary h target m st sz =
     [''wrote '' @ target @ newline,
      ''  system   '' @ m_key m @ newline,
      ''  scope    '' @ so_root (m_scan m) @ middle_dot @ decimal (length (m_exclusions m)) @ '' ''
        @ plural_nat (length (m_exclusions m)) ''exclusion'' ''exclusions''
        @ middle_dot @ ''mounts='' @ so_mounts (m_scan m)
        @ optional (\<not> m_privileged m) (middle_dot @ ''UNPRIVILEGED'') @ newline,
      ''  entries  '' @ count_nat (scan_total st) @ '' (''
        @ counted (sc_dirs st) ''directory'' ''directories'' @ '', '' @ counted (sc_files st) ''file'' ''files'' @ '', ''
        @ counted (sc_symlinks st) ''symlink'' ''symlinks'' @ '', '' @ count_nat (sc_others st) @ '' other)'' @ newline,
      ''  hashed   '' @ counted (sc_hashed st) ''file'' ''files'' @ '', '' @ bytes_string (sc_bytes st) @ newline]
     @ (if 0 < sc_errors st \<or> 0 < sc_partial st \<or> 0 < sc_pruned st
        then [''  skipped  '' @ count_nat (sc_errors st) @ '' unreadable, '' @ count_nat (sc_partial st)
                @ '' not hashed (too large), '' @ counted (sc_pruned st) ''directory'' ''directories''
                @ '' not descended'' @ newline]
        else [])
     @ map mount_line (sc_skipped st)
     @ [''  size     '' @ bytes_string sz @ '' in '' @ duration_text (ho_elapsed h) @ newline]"

section \<open>The command\<close>

text \<open>Everything between \<open>createAtomic\<close> and the return, the deferred \<open>Abort\<close> included.\<close>

definition baseline_file ::
  "host \<Rightarrow> codec \<Rightarrow> assignments \<Rightarrow> mount_policy \<Rightarrow> os_info \<Rightarrow> string \<Rightarrow> string \<Rightarrow> atomic_file
     \<Rightarrow> console \<Rightarrow> console \<times> cmd_error option" where
  "baseline_file h cd as policy info key target a c =
     (case baseline_set h as info a (co_fs c) of
        Inl e \<Rightarrow> (c\<lparr>co_fs := snd (af_abort (ho_io h) a (co_fs c))\<rparr>, Some (PlainError e))
      | Inr s \<Rightarrow>
          (let c = dropped_note as s c;
               opts = baseline_options h as policy s;
               m = baseline_meta h info key opts s in
           case baseline_scan h cd as opts m of (bytes, out, r) \<Rightarrow>
             let c = fold print_err out c;
                 (a, fs) = af_write bytes 0 a (co_fs c) in
             case r of
               Inl e \<Rightarrow> (c\<lparr>co_fs := snd (af_abort (ho_io h) a fs)\<rparr>, Some e)
             | Inr (stats, p) \<Rightarrow>
                 (case af_commit (ho_io h) a fs of
                    (a, fs, Some x) \<Rightarrow> (c\<lparr>co_fs := fs\<rparr>, Some (PlainError (IoFailed x)))
                  | (a, fs, None) \<Rightarrow>
                      let c = fold print_err (progress_done p) (c\<lparr>co_fs := fs\<rparr>) in
                      (fold print_out (baseline_summary h target m stats (file_size h fs target)) c, None))))"

definition run_baseline :: "host \<Rightarrow> codec \<Rightarrow> string list \<Rightarrow> console \<Rightarrow> console \<times> cmd_error option" where
  "run_baseline h cd args c =
     (case parse_flags baseline_flags [] args of
        Inl e \<Rightarrow> (c, Some (UsageError (Some e)))
      | Inr (as, rest) \<Rightarrow>
          if rest \<noteq> [] then (c, Some (UsageError None))
          else case parse_mount_policy (string_flag as ''mounts'' ''local'') of
            Inl s \<Rightarrow> (c, Some (PlainError (BadMounts s)))
          | Inr policy \<Rightarrow>
              (case require_root h (bool_flag as ''allow-non-root'') c of
                 (c, Some e) \<Rightarrow> (c, Some e)
               | (c, None) \<Rightarrow>
                   (case identify h (string_flag as ''os-id'' []) of
                      Inl e \<Rightarrow> (c, Some (PlainError (DetectFailed e)))
                    | Inr (info, key) \<Rightarrow>
                        (let out = string_flag as ''o'' [];
                             target = (if out = [] then key @ ''.osfp'' else out) in
                         if \<not> bool_flag as ''force'' \<and> stat_exists h (co_fs c) target
                         then (c, Some (PlainError (TargetExists target)))
                         else case create_atomic (ho_io h) target (co_fs c) of
                           Inl x \<Rightarrow> (c, Some (PlainError (IoFailed x)))
                         | Inr (a, fs) \<Rightarrow>
                             baseline_file h cd as policy info key target a (c\<lparr>co_fs := fs\<rparr>)))))"

end
