(* ===== verification/Cmd_Compare.thy ===== *)
theory Cmd_Compare
  imports Cmd_Baseline
begin

text \<open>
  \<open>cmd/osfp/compare.go\<close>: \<open>runCompare\<close>, the report destination, the set of known
  directories and the counter of new ones. The callback of the walk feeds the joiner, whose
  own callback counts the expected changes and hands every change to the reporter.
\<close>

section \<open>Flags\<close>

datatype new_dir_mode = DirSummary | DirDeep | DirSkip

definition parse_new_dir_mode :: "string \<Rightarrow> new_dir_mode option" where
  "parse_new_dir_mode s =
     (if s = ''summary'' then Some DirSummary else if s = ''deep'' then Some DirDeep
      else if s = ''skip'' then Some DirSkip else None)"

definition compare_flags :: flag_table where
  "compare_flags =
     [(''b'', FlagString), (''format'', FlagString), (''o'', FlagString), (''show'', FlagString),
      (''new-dir-mode'', FlagString), (''ignore-from'', FlagString), (''exclude'', FlagList),
      (''jobs'', FlagInt), (''no-color'', FlagBool), (''allow-os-mismatch'', FlagBool),
      (''allow-non-root'', FlagBool), (''fail-on-diff'', FlagBool), (''v'', FlagBool), (''verbose'', FlagBool)]"

section \<open>Opening the fingerprint\<close>

definition open_fingerprint ::
  "host \<Rightarrow> codec \<Rightarrow> file_system \<Rightarrow> string \<Rightarrow> program_error + reader" where
  "open_fingerprint h cd fs path =
     (case read_file h fs path of
        Inl x \<Rightarrow> Inl (IoFailed x)
      | Inr data \<Rightarrow>
          (case open_reader (cd_dec cd) (cd_unmarshal cd) data of
             Fail e \<Rightarrow> Inl (StoreFailed e)
           | Panic \<Rightarrow> Inl Panicked
           | Ret r \<Rightarrow> Inr r))"

definition open_verified ::
  "host \<Rightarrow> codec \<Rightarrow> file_system \<Rightarrow> string \<Rightarrow> program_error + reader" where
  "open_verified h cd fs path =
     (case open_fingerprint h cd fs path of
        Inl e \<Rightarrow> Inl e
      | Inr r \<Rightarrow> (case verify r of Some e \<Rightarrow> Inl (StoreFailed e) | None \<Rightarrow> Inr r))"

text \<open>\<open>loadDirs\<close>: the paths of the directories of the fingerprint.\<close>

definition load_dirs :: "codec \<Rightarrow> reader \<Rightarrow> program_error + string list" where
  "load_dirs cd r =
     (case iterate (cd_dec cd) r (\<lambda>ds e. (if is_dir e then e_path e # ds else ds, None)) [] (reader_cursor r) of
        (ds, Ret _) \<Rightarrow> Inr ds
      | (ds, Fail e) \<Rightarrow> Inl (StoreFailed e)
      | (ds, Panic) \<Rightarrow> Inl Panicked)"

section \<open>The options of the scan and of the join\<close>

definition compare_set ::
  "host \<Rightarrow> meta \<Rightarrow> string list \<Rightarrow> string list \<Rightarrow> program_error + exclude_set" where
  "compare_set h m excludes auto_paths =
     (case new_set \<lparr>xo_goos = oi_os (m_system m), xo_root = so_root (m_scan m), xo_no_defaults = True,
             xo_patterns = m_exclusions m @ excludes, xo_auto = self_paths h @ auto_paths,
             xo_no_volatiles = False\<rparr> of
        Inl p \<Rightarrow> Inl (BadExclusion p)
      | Inr s \<Rightarrow> Inr s)"

definition descend_known :: "string list \<Rightarrow> new_dir_mode \<Rightarrow> entry \<Rightarrow> bool" where
  "descend_known dirs mode e \<longleftrightarrow> e_path e \<in> set dirs \<or> mode = DirDeep"

definition compare_options ::
  "meta \<Rightarrow> exclude_set \<Rightarrow> mount_policy \<Rightarrow> int \<Rightarrow> string list \<Rightarrow> new_dir_mode \<Rightarrow> walk_options" where
  "compare_options m s policy jobs dirs mode =
     \<lparr>wo_root = so_root (m_scan m), wo_exclude = Some s, wo_mounts = policy,
      wo_max_depth = so_max_depth (m_scan m), wo_jobs = jobs,
      wo_max_file_size = so_max_file_size (m_scan m), wo_no_hash = False,
      wo_descend = Some (descend_known dirs mode)\<rparr>"

text \<open>\<open>summarizeDir\<close>: a second walk, rooted at the new directory, that hashes nothing.\<close>

definition summary_options :: "walk_options \<Rightarrow> string \<Rightarrow> walk_options" where
  "summary_options opts path = opts\<lparr>wo_root := path, wo_no_hash := True, wo_descend := None\<rparr>"

definition summarize_entry :: "string \<Rightarrow> dir_summary \<Rightarrow> entry \<Rightarrow> dir_summary \<times> unit option" where
  "summarize_entry path s e =
     (if e_type e = type_dir \<and> e_path e \<noteq> path then (s\<lparr>ds_dirs := ds_dirs s + 1\<rparr>, None)
      else if e_type e = type_file
      then (s\<lparr>ds_files := ds_files s + 1, ds_bytes := ds_bytes s + e_size e\<rparr>, None)
      else (s, None))"

definition summarize_dir :: "host \<Rightarrow> walk_options \<Rightarrow> string \<Rightarrow> dir_summary option" where
  "summarize_dir h opts path =
     (case walk (summary_options opts path) (ho_system h) (ho_tree h (clean path)) (summarize_entry path)
             \<lparr>ds_files = 0, ds_dirs = 0, ds_bytes = 0\<rparr> of
        (_, Some _, _) \<Rightarrow> None
      | (_, None, s) \<Rightarrow> Some s)"

definition load_ignore :: "host \<Rightarrow> file_system \<Rightarrow> string \<Rightarrow> program_error + ignore" where
  "load_ignore h fs path =
     (case read_lines h fs path of
        Inl x \<Rightarrow> Inl (IoFailed x)
      | Inr ls \<Rightarrow> map_sum BadIgnore id (parse_ignore ls))"

definition compare_join_options ::
  "host \<Rightarrow> assignments \<Rightarrow> walk_options \<Rightarrow> new_dir_mode \<Rightarrow> file_system \<Rightarrow> program_error + join_options" where
  "compare_join_options h as opts mode fs =
     (let codes = string_flag as ''show'' []; from_file = string_flag as ''ignore-from'' [] in
      case (if codes = [] then Inr None else map_sum id Some (parse_ops codes)) of
        Inl e \<Rightarrow> Inl (BadShow e)
      | Inr ops \<Rightarrow>
          (case (if from_file = [] then Inr None
                 else map_sum id Some (load_ignore h fs from_file)) of
             Inl e \<Rightarrow> Inl e
           | Inr ig \<Rightarrow>
               Inr \<lparr>jo_show = ops, jo_ignore = ig,
                     jo_summarize = (if mode = DirSummary then Some (summarize_dir h opts) else None)\<rparr>))"

section \<open>The report destination\<close>

definition open_report_file ::
  "host \<Rightarrow> string \<Rightarrow> file_system \<Rightarrow> program_error + atomic_file option \<times> string list \<times> file_system" where
  "open_report_file h path fs =
     (if path = [] then Inr (None, [], fs)
      else case create_atomic (ho_io h) path fs of
             Inl x \<Rightarrow> Inl (IoFailed x)
           | Inr (a, fs) \<Rightarrow> Inr (Some a, af_paths a, fs))"

text \<open>What reached the destination goes to the file's buffer, or to the standard output.\<close>

definition dest_write :: "string \<Rightarrow> atomic_file option \<Rightarrow> console \<Rightarrow> atomic_file option \<times> console" where
  "dest_write s d c =
     (case d of
        None \<Rightarrow> (None, if s = [] then c else print_out s c)
      | Some a \<Rightarrow> (case af_write (bytes_of s) 0 a (co_fs c) of (a, fs) \<Rightarrow> (Some a, c\<lparr>co_fs := fs\<rparr>)))"

definition dest_commit :: "host \<Rightarrow> atomic_file option \<Rightarrow> console \<Rightarrow> console \<times> string option" where
  "dest_commit h d c =
     (case d of
        None \<Rightarrow> (c, None)
      | Some a \<Rightarrow> (case af_commit (ho_io h) a (co_fs c) of (a, fs, e) \<Rightarrow> (c\<lparr>co_fs := fs\<rparr>, e)))"

definition dest_abort :: "host \<Rightarrow> atomic_file option \<Rightarrow> console \<Rightarrow> console" where
  "dest_abort h d c =
     (case d of
        None \<Rightarrow> c
      | Some a \<Rightarrow> c\<lparr>co_fs := snd (af_abort (ho_io h) a (co_fs c))\<rparr>)"

definition use_color :: "host \<Rightarrow> string \<Rightarrow> string \<Rightarrow> bool \<Rightarrow> bool" where
  "use_color h format out no_color \<longleftrightarrow>
     \<not> (no_color \<or> format = ''json'' \<or> out \<noteq> []) \<and> \<not> ho_no_color h \<and> ho_stdout_tty h"

section \<open>The comparison\<close>

type_synonym cmp_out = "(string, string) reporter \<times> nat"
type_synonym cmp_joiner = "(cursor, cmp_out) joiner"

text \<open>The callback of the joiner.\<close>

definition report_one :: "host \<Rightarrow> exclude_set \<Rightarrow> cmp_out \<Rightarrow> change \<Rightarrow> cmp_out \<times> string option" where
  "report_one h s re c =
     (let n = (if set_volatile s (c_path c) then Suc (snd re) else snd re)
      in case rep_change (ho_writer h) c (fst re) of (r, e) \<Rightarrow> ((r, n), e))"

text \<open>The callback of the walk; \<open>None\<close> as an error stands for a call that never returns.\<close>

definition feed_one ::
  "host \<Rightarrow> codec \<Rightarrow> reader \<Rightarrow> join_options \<Rightarrow> exclude_set \<Rightarrow> (progress \<times> string list) \<times> cmp_joiner \<Rightarrow> entry
     \<Rightarrow> ((progress \<times> string list) \<times> cmp_joiner) \<times> string join_error option option" where
  "feed_one h cd r jo s pj e =
     (case feed (cursor_next (cd_dec cd) r) jo (report_one h s) e (snd pj) of
        None \<Rightarrow> ((tick h e (fst pj), snd pj), Some None)
      | Some (j, None) \<Rightarrow> ((tick h e (fst pj), j), None)
      | Some (j, Some x) \<Rightarrow> ((tick h e (fst pj), j), Some (Some x)))"

definition join_failure :: "string join_error \<Rightarrow> program_error" where
  "join_failure x =
     (case x of
        JoinOrder p q \<Rightarrow> LiveOutOfOrder p q
      | JoinSource e \<Rightarrow> StoreFailed e
      | JoinEmit m \<Rightarrow> ReportFailed m
      | JoinPanic \<Rightarrow> Panicked)"

definition compare_walk_error :: "host \<Rightarrow> string join_error option walk_error \<Rightarrow> cmd_error" where
  "compare_walk_error h x =
     (if ho_ctx_done h then with_exit exit_interrupted (Some Interrupted)
      else PlainError
        (case x of
           RootStat err \<Rightarrow> ScanFailed err
         | RootNotDir \<Rightarrow> NotADirectory []
         | WalkEmit None \<Rightarrow> Diverges
         | WalkEmit (Some e) \<Rightarrow> join_failure e
         | WalkCancelled \<Rightarrow> Interrupted))"

definition compare_header ::
  "host \<Rightarrow> string \<Rightarrow> meta \<Rightarrow> os_info \<Rightarrow> string list \<Rightarrow> join_options \<Rightarrow> string \<Rightarrow> report_header" where
  "compare_header h base m info excludes jo mode =
     \<lparr>rh_tool = ''osfp'', rh_tool_version = tool_version (ho_build h), rh_baseline_path = base, rh_baseline = m,
      rh_system_key = info_key info, rh_system_name = oi_pretty info, rh_scanned_at = ho_now h,
      rh_privileged = privileged h, rh_extra_exclusions = excludes,
      rh_ignore_rules = ignore_raw (jo_ignore jo), rh_new_dir_mode = mode\<rparr>"

text \<open>
  From \<open>NewJoiner\<close> to the \<open>Close\<close> of the reporter: the reporter, the progress output, and the
  error or the counters.
\<close>

definition compare_join ::
  "host \<Rightarrow> codec \<Rightarrow> reader \<Rightarrow> assignments \<Rightarrow> walk_options \<Rightarrow> join_options \<Rightarrow> exclude_set
     \<Rightarrow> (string, string) reporter
     \<Rightarrow> (string, string) reporter \<times> string list \<times> (cmd_error + stats \<times> nat)" where
  "compare_join h cd r as opts jo s rep =
     (case new_joiner (cursor_next (cd_dec cd) r) (reader_cursor r) (rep, 0) of
        (j, Some x) \<Rightarrow> (fst (j_out j), [], Inl (PlainError (join_failure x)))
      | (j, None) \<Rightarrow>
          (case walk opts (ho_system h) (ho_tree h (clean (wo_root opts))) (feed_one h cd r jo s)
                  ((new_progress h (verbose_flag as), []), j) of
             (scan, Some x, ((p, out), j)) \<Rightarrow> (fst (j_out j), out, Inl (compare_walk_error h x))
           | (scan, None, ((p, out), j)) \<Rightarrow>
               (case finish (cursor_next (cd_dec cd) r) jo (report_one h s) j of
                  None \<Rightarrow> (fst (j_out j), out, Inl (PlainError Diverges))
                | Some (j, Some x) \<Rightarrow> (fst (j_out j), out, Inl (PlainError (join_failure x)))
                | Some (j, None) \<Rightarrow>
                    (case rep_close (ho_writer h)
                            \<lparr>rs_diff = j_stats j, rs_scan = scan, rs_elapsed = ho_elapsed h,
                             rs_expected = snd (j_out j)\<rparr> (fst (j_out j)) of
                       (rep, Some x) \<Rightarrow> (rep, out @ progress_done p, Inl (PlainError (ReportFailed x)))
                     | (rep, None) \<Rightarrow> (rep, out @ progress_done p, Inr (j_stats j, snd (j_out j)))))))"

text \<open>After the report destination was opened; the deferred abort is the caller's.\<close>

definition compare_report ::
  "host \<Rightarrow> codec \<Rightarrow> assignments \<Rightarrow> reader \<Rightarrow> os_info \<Rightarrow> mount_policy \<Rightarrow> new_dir_mode \<Rightarrow> string list
     \<Rightarrow> file_system \<Rightarrow> string \<times> string list \<times> (cmd_error + stats \<times> nat)" where
  "compare_report h cd as r info policy mode auto_paths fs =
     (let m = r_meta r; excludes = list_flag as ''exclude'';
          fail = (\<lambda>e. ([], [], Inl (PlainError e)))
      in case load_dirs cd r of
        Inl e \<Rightarrow> fail e
      | Inr dirs \<Rightarrow>
          (case compare_set h m excludes auto_paths of
             Inl e \<Rightarrow> fail e
           | Inr s \<Rightarrow>
               (let format = string_flag as ''format'' ''text'' in
                case new_reporter format []
                       \<lparr>ro_color = use_color h format (string_flag as ''o'' []) (bool_flag as ''no-color''),
                        ro_volatile = Some (set_volatile s)\<rparr> of
                  Inl f \<Rightarrow> fail (UnknownFormat f)
                | Inr rep \<Rightarrow>
                    (let opts = compare_options m s policy (int_flag as ''jobs'' 0) dirs mode in
                     case compare_join_options h as opts mode fs of
                       Inl e \<Rightarrow> fail e
                     | Inr jo \<Rightarrow>
                         (case ho_stat h (so_root (m_scan m)) of
                            Inl x \<Rightarrow> fail (RootUnreadable (so_root (m_scan m)) x)
                          | Inr False \<Rightarrow> fail (RootNoDirectory (so_root (m_scan m)))
                          | Inr True \<Rightarrow>
                              (case rep_header (ho_writer h)
                                      (compare_header h (string_flag as ''b'' []) m info excludes jo
                                         (string_flag as ''new-dir-mode'' ''summary'')) rep of
                                 (rep, Some x) \<Rightarrow> (rep_writer rep, [], Inl (PlainError (ReportFailed x)))
                               | (rep, None) \<Rightarrow>
                                   (case compare_join h cd r as opts jo s rep of
                                      (rep, out, res) \<Rightarrow> (rep_writer rep, out, res))))))))"

definition compare_exit :: "assignments \<Rightarrow> stats \<Rightarrow> nat \<Rightarrow> cmd_error option" where
  "compare_exit as st n =
     (if n < stats_total st \<and> bool_flag as ''fail-on-diff'' then Some (with_exit exit_diff None) else None)"

definition compare_checked ::
  "host \<Rightarrow> codec \<Rightarrow> assignments \<Rightarrow> new_dir_mode \<Rightarrow> reader \<Rightarrow> mount_policy \<Rightarrow> os_info \<Rightarrow> console
     \<Rightarrow> console \<times> cmd_error option" where
  "compare_checked h cd as mode r policy info c =
     (case open_report_file h (string_flag as ''o'' []) (co_fs c) of
        Inl e \<Rightarrow> (c, Some (PlainError e))
      | Inr (d, auto_paths, fs) \<Rightarrow>
          (case compare_report h cd as r info policy mode auto_paths fs of
             (text, out, res) \<Rightarrow>
               (case dest_write text d (fold print_err out (c\<lparr>co_fs := fs\<rparr>)) of (d, c) \<Rightarrow>
                  (case res of
                     Inl e \<Rightarrow> (dest_abort h d c, Some e)
                   | Inr (st, n) \<Rightarrow>
                       (case dest_commit h d c of
                          (c, Some x) \<Rightarrow> (c, Some (PlainError (IoFailed x)))
                        | (c, None) \<Rightarrow> (c, compare_exit as st n))))))"

definition run_compare :: "host \<Rightarrow> codec \<Rightarrow> string list \<Rightarrow> console \<Rightarrow> console \<times> cmd_error option" where
  "run_compare h cd args c =
     (case parse_flags compare_flags [] args of
        Inl e \<Rightarrow> (c, Some (UsageError (Some e)))
      | Inr (as, rest) \<Rightarrow>
          let base = string_flag as ''b'' []; allow = bool_flag as ''allow-os-mismatch'';
              mode_name = string_flag as ''new-dir-mode'' ''summary'' in
          if rest \<noteq> [] \<or> base = [] then (c, Some (UsageError None))
          else case parse_new_dir_mode mode_name of
            None \<Rightarrow> (c, Some (PlainError (BadNewDirMode mode_name)))
          | Some mode \<Rightarrow>
              (case require_root h (bool_flag as ''allow-non-root'') c of
                 (c, Some e) \<Rightarrow> (c, Some e)
               | (c, None) \<Rightarrow>
                   (case open_verified h cd (co_fs c) base of
                      Inl e \<Rightarrow> (c, Some (PlainError e))
                    | Inr r \<Rightarrow>
                        (case parse_mount_policy (so_mounts (m_scan (r_meta r))) of
                           Inl s \<Rightarrow> (c, Some (PlainError (BadMounts s)))
                         | Inr policy \<Rightarrow>
                             (case detect (ho_env h) of
                                (info, det) \<Rightarrow>
                                  (case (if allow then None else det) of
                                     Some e \<Rightarrow> (c, Some (PlainError (DetectFailed e)))
                                   | None \<Rightarrow>
                                       (case check_comparable h (r_meta r) info allow of
                                          Some e \<Rightarrow> (c, Some e)
                                        | None \<Rightarrow> compare_checked h cd as mode r policy info c)))))))"

end
