(* ===== verification/Cmd_Info.thy ===== *)
theory Cmd_Info
  imports Cmd_Compare
begin

text \<open>
  \<open>cmd/osfp/info.go\<close> and \<open>version.go\<close>: the commands that only read, and the whole program:
  \<open>osfp\<close> is the dispatcher over the five commands.
\<close>

section \<open>info\<close>

definition describe_host :: "meta \<Rightarrow> string" where
  "describe_host m =
     join '', ''
       ((if oi_hostname (m_system m) \<noteq> [] then [oi_hostname (m_system m)] else [])
        @ (if oi_kernel (m_system m) \<noteq> [] then [''kernel '' @ oi_kernel (m_system m)] else []))"

text \<open>
  \<open>perEntry\<close> is a division in \<open>float64\<close>: the quotient to 53 significant bits as a number over a
  power of two, and its tenths as \<open>%.1f\<close> rounds them.
\<close>

fun bit_length :: "nat \<Rightarrow> nat" where
  "bit_length n = (if n = 0 then 0 else Suc (bit_length (n div 2)))"

declare bit_length.simps [simp del]

definition float_div :: "nat \<Rightarrow> nat \<Rightarrow> nat \<times> int" where
  "float_div a b =
     (let k = 53 + int (bit_length b) - int (bit_length a);
          num = (if 0 \<le> k then a * 2 ^ nat k else a);
          den = (if k < 0 then b * 2 ^ nat (- k) else b)
      in if num div den < 2 ^ 53 then (round_even num den, k) else (round_even num (2 * den), k - 1))"

definition tenths_of :: "nat \<times> int \<Rightarrow> nat" where
  "tenths_of mk =
     (case mk of (m, k) \<Rightarrow>
        if 0 \<le> k then round_even (10 * m) (2 ^ nat k) else 10 * m * 2 ^ nat (- k))"

definition per_entry :: "i64 \<Rightarrow> i64 \<Rightarrow> string" where
  "per_entry sz entries =
     (if entries = 0 \<or> sz = 0 then ''0.0''
      else tenths_string
        (tenths_of (float_div (to_float64 (nat (sint sz))) (to_float64 (nat (sint entries))))))"

definition info_lines :: "host \<Rightarrow> string \<Rightarrow> i64 \<Rightarrow> reader \<Rightarrow> string list" where
  "info_lines h base sz r =
     (let m = r_meta r; sc = m_scan m; n = length (m_exclusions m) in
      [base @ newline,
       ''  tool         '' @ m_tool m @ '' '' @ m_tool_version m @ newline,
       ''  created      '' @ utc_string (m_created_at m div second) @ newline,
       ''  key          '' @ m_key m @ newline]
      @ (if oi_pretty (m_system m) \<noteq> [] then [''  system       '' @ oi_pretty (m_system m) @ newline] else [])
      @ (if describe_host m \<noteq> [] then [''  host         '' @ describe_host m @ newline] else [])
      @ [if m_privileged m then ''  privileged   yes'' @ newline
         else ''  privileged   no '' @ em_dash @ '' UNPRIVILEGED (effective uid '' @ int_dec (m_euid m)
           @ ''); incomplete, and not comparable with a privileged scan'' @ newline,
         ''  scope        '' @ join middle_dot
           ([so_root sc] @ (if so_mounts sc \<noteq> [] then [''mounts='' @ so_mounts sc] else [])
            @ [''max-depth '' @ int_dec (so_max_depth sc)]
            @ (if 0 <s so_max_file_size sc then [''max-file-size '' @ bytes_string (so_max_file_size sc)] else [])
            @ [int_dec (so_jobs sc) @ '' '' @ plural (of_int (so_jobs sc)) ''job'' ''jobs'']) @ newline,
         ''  entries      '' @ count_string (m_entries m)
           @ (if 0 <s m_errors m then '' ('' @ count_string (m_errors m) @ '' unreadable)'' else [])
           @ '' in '' @ count_string (m_blocks m) @ '' '' @ plural (m_blocks m) ''block'' ''blocks'' @ newline,
         ''  size         '' @ bytes_string sz @ '' ('' @ per_entry sz (m_entries m) @ '' bytes per entry)'' @ newline,
         ''  digest       '' @ hex (r_digest r) @ newline,
         ''  exclusions   '' @ decimal n @ newline]
      @ map (\<lambda>p. replicate 17 CHR '' '' @ p @ newline) (m_exclusions m))"

definition info_flags :: flag_table where
  "info_flags = [(''b'', FlagString), (''json'', FlagBool)]"

definition run_info :: "host \<Rightarrow> codec \<Rightarrow> string list \<Rightarrow> console \<Rightarrow> console \<times> cmd_error option" where
  "run_info h cd args c =
     (case parse_flags info_flags [] args of
        Inl e \<Rightarrow> (c, Some (UsageError (Some e)))
      | Inr (as, rest) \<Rightarrow>
          let base = string_flag as ''b'' [] in
          if rest \<noteq> [] \<or> base = [] then (c, Some (UsageError None))
          else case open_fingerprint h cd (co_fs c) base of
            Inl e \<Rightarrow> (c, Some (PlainError e))
          | Inr r \<Rightarrow>
              (if bool_flag as ''json''
               then (case cd_indent cd (r_meta r) of
                       Inl x \<Rightarrow> (c, Some (PlainError (IoFailed x)))
                     | Inr s \<Rightarrow> (print_out s c, None))
               else (fold print_out (info_lines h base (file_size h (co_fs c) base) r) c, None)))"

section \<open>verify\<close>

definition verify_flags :: flag_table where
  "verify_flags = [(''b'', FlagString), (''quiet'', FlagBool)]"

definition run_verify :: "host \<Rightarrow> codec \<Rightarrow> string list \<Rightarrow> console \<Rightarrow> console \<times> cmd_error option" where
  "run_verify h cd args c =
     (case parse_flags verify_flags [] args of
        Inl e \<Rightarrow> (c, Some (UsageError (Some e)))
      | Inr (as, rest) \<Rightarrow>
          let base = string_flag as ''b'' [] in
          if rest \<noteq> [] \<or> base = [] then (c, Some (UsageError None))
          else case open_verified h cd (co_fs c) base of
            Inl e \<Rightarrow> (c, Some (PlainError e))
          | Inr r \<Rightarrow>
              (if bool_flag as ''quiet'' then (c, None)
               else (fold print_out
                       [base @ '': OK'' @ newline, ''  sha256   '' @ hex (r_digest r) @ newline,
                        ''  entries  '' @ count_string (m_entries (r_meta r)) @ newline] c, None)))"

section \<open>version\<close>

definition bool_string :: "bool \<Rightarrow> string" where
  "bool_string b = (if b then ''enabled'' else ''disabled'')"

text \<open>The cause of an incomplete detection; its wording is left to the caller.\<close>

definition detect_error_text :: "detect_error \<Rightarrow> string" where
  "detect_error_text e =
     (case e of
        EmptyKey s \<Rightarrow> ''os key '' @ [CHR 34] @ s @ [CHR 34] @ '' is empty once normalized''
      | UnsupportedOS s \<Rightarrow> ''unsupported operating system '' @ [CHR 34] @ s @ [CHR 34])"

definition version_lines :: "host \<Rightarrow> string list" where
  "version_lines h =
     (let b = ho_build h; (v, rv) = build_stamps b; (info, err) = detect (ho_env h) in
      [''osfp '' @ v @ newline]
      @ (if rv \<noteq> [] then [''commit:  '' @ rv @ newline] else [])
      @ [''go:      '' @ bu_go b @ newline,
         ''target:  '' @ ev_goos (ho_env h) @ ''/'' @ ev_goarch (ho_env h) @ newline,
         ''cgo:     '' @ bool_string (bu_cgo b) @ newline,
         ''system:  '' @ info_key info @ newline]
      @ (case err of
           Some e \<Rightarrow> [''         detection incomplete: '' @ detect_error_text e @ newline]
         | None \<Rightarrow>
             if oi_pretty info \<noteq> []
             then [''         '' @ oi_pretty info @ '' (from '' @ oi_source info @ '')'' @ newline] else []))"

definition version_flags :: flag_table where
  "version_flags = [(''short'', FlagBool)]"

definition run_version :: "host \<Rightarrow> string list \<Rightarrow> console \<Rightarrow> console \<times> cmd_error option" where
  "run_version h args c =
     (case parse_flags version_flags [] args of
        Inl e \<Rightarrow> (c, Some (UsageError (Some e)))
      | Inr (as, rest) \<Rightarrow>
          if rest \<noteq> [] then (c, Some (UsageError None))
          else if bool_flag as ''short'' then (print_out (tool_version (ho_build h) @ newline) c, None)
          else (fold print_out (version_lines h) c, None))"

section \<open>The program\<close>

definition run_command_of :: "host \<Rightarrow> codec \<Rightarrow> runner" where
  "run_command_of h cd cmd args c =
     (case cmd of
        Baseline \<Rightarrow> run_baseline h cd args c
      | Compare \<Rightarrow> run_compare h cd args c
      | Info \<Rightarrow> run_info h cd args c
      | Verify \<Rightarrow> run_verify h cd args c
      | Version \<Rightarrow> run_version h args c)"

definition osfp :: "host \<Rightarrow> codec \<Rightarrow> string list \<Rightarrow> file_system \<Rightarrow> console \<times> int \<times> diagnosis" where
  "osfp h cd args fs = dispatch (run_command_of h cd) args (console_start fs)"

end
