(* ===== verification/Scan_Order.thy ===== *)
theory Scan_Order
  imports Scan_Walk
begin

text \<open>
  What every walk emits, whatever the context does and whatever the cells of the ring hold:
  well-formed entries of the subtree, in strictly increasing canonical order, none excluded
  or below an excluded path, none deeper than \<open>MaxDepth\<close>.
\<close>

section \<open>What the steps of a visit write\<close>

lemma poll_out [simp]: "ws_out (fst (poll sy st)) = ws_out st" "ws_cells (fst (poll sy st)) = ws_cells st"
  by (simp_all add: poll_def)

lemma poll_eq: "poll sy st = (st', r) \<Longrightarrow> ws_out st' = ws_out st \<and> ws_cells st' = ws_cells st"
  by (auto simp: poll_def)

lemma set_cell_out [simp]: "ws_out (set_cell i e st) = ws_out st"
  by (simp add: set_cell_def)

lemma acquire_out: "acquire opts sy st = (st', r) \<Longrightarrow> ws_out st' = ws_out st"
  by (auto simp: acquire_def poll_def Let_def split: if_splits)

lemma may_descend_out:
  "may_descend opts sy e depth dev st = (st', d) \<Longrightarrow>
   ws_out st' = ws_out st \<and> (d \<longrightarrow> depth = 0 \<or> int depth < wo_max_depth opts)"
  by (auto simp: may_descend_def cross_mount_def note_mount_def Let_def
      split: if_splits prod.splits option.splits)

lemma commit_out [simp]: "ws_out (commit e st) = ws_out st @ [e]"
  by (simp add: commit_def)

lemma fill_entry_path [simp]: "e_path (fill_entry path info link) = path"
  by (auto simp: fill_entry_def fill_stat_def Let_def split: option.splits sum.splits)

lemma entry_wf_fill: "entry_wf (fill_entry path info link)"
  by (auto simp: fill_entry_def fill_stat_def Let_def entry_wf_def split: option.splits sum.splits)

lemma with_list_error_path [simp]: "e_path (with_list_error d le e) = e_path e"
  by (simp add: with_list_error_def split: option.splits)

lemma entry_wf_list_error [simp]: "entry_wf (with_list_error d le e) = entry_wf e"
  by (simp add: with_list_error_def entry_wf_def split: option.splits)

lemma finished_path [simp]: "e_path (finished opts sy e) = e_path e"
  by (simp add: finished_def hash_entry_def split: sum.splits)

lemma entry_wf_finished: "entry_wf e \<Longrightarrow> entry_wf (finished opts sy e)"
  by (auto simp: finished_def hash_entry_def entry_wf_def split: sum.splits)

lemma error_entry_simps [simp]: "e_path (error_entry path err) = path" "entry_wf (error_entry path err)"
  by (simp_all add: error_entry_def entry_wf_def)

lemma visit_entry_cases:
  assumes "visit_entry opts sy path info link le depth dev st = (st', r)"
  obtains (stopped) x where "r = Inl x" "ws_out st' = ws_out st"
  | (committed) i d where "r = Inr (i, d)" "d \<longrightarrow> depth = 0 \<or> int depth < wo_max_depth opts"
      "ws_out st' = ws_out st @ [finished opts sy (with_list_error d le (fill_entry path info link))]"
proof -
  obtain s1 p1 where p1: "poll sy st = (s1, p1)" by (cases "poll sy st")
  obtain s2 a where a: "acquire opts sy s1 = (s2, a)" by (cases "acquire opts sy s1")
  let ?e = "fill_entry path info link"
  have o2: "ws_out s2 = ws_out st" using acquire_out [OF a] poll_out [of sy st] p1 by simp
  show thesis
  proof (cases p1)
    case (Some x)
    with assms p1 have "r = Inl x" "st' = s1" by (auto simp: visit_entry_def)
    then show ?thesis using stopped p1 poll_out [of sy st] by simp
  next
    case p: None
    show ?thesis
    proof (cases a)
      case (Inl x)
      with assms p1 p a have "r = Inl x" "st' = s2" by (auto simp: visit_entry_def)
      then show ?thesis using stopped o2 by simp
    next
      case (Inr i)
      obtain s3 d where d: "(if is_dir ?e then may_descend opts sy ?e depth dev (set_cell i ?e s2)
          else (set_cell i ?e s2, False)) = (s3, d)" by fastforce
      then have o3: "ws_out s3 = ws_out st" "d \<longrightarrow> depth = 0 \<or> int depth < wo_max_depth opts"
        using o2 by (auto dest: may_descend_out split: if_splits)
      let ?f = "with_list_error d le ?e"
      obtain s4 q where q: "(if wants_hash opts ?f then poll sy (set_cell i ?f s3) else (set_cell i ?f s3, None)) = (s4, q)"
        by fastforce
      then have o4: "ws_out s4 = ws_out st"
        using o3(1) by (auto split: if_splits dest: poll_eq)
      from assms p1 p a Inr d q
      have r: "(case q of Some x \<Rightarrow> (s4, Inl x) | None \<Rightarrow> (commit (finished opts sy ?f) s4, Inr (i, d))) = (st', r)"
        by (simp add: visit_entry_def Let_def)
      show ?thesis
      proof (cases q)
        case (Some x)
        with r o4 stopped show ?thesis by auto
      next
        case None
        with r have "r = Inr (i, d)" "st' = commit (finished opts sy ?f) s4" by auto
        with o4 o3(2) committed show ?thesis by simp
      qed
    qed
  qed
qed

lemma emit_error_cases:
  assumes "emit_error opts sy path err st = (st', r)"
  obtains (stopped) x where "r = Some x" "ws_out st' = ws_out st"
  | (committed) "r = None" "ws_out st' = ws_out st @ [error_entry path err]"
  using assms by (auto simp: emit_error_def split: prod.splits sum.splits dest!: acquire_out)

section \<open>Trees\<close>

text \<open>What \<open>os.ReadDir\<close> promises: the names of a directory, valid and sorted by bytes.\<close>

primrec names :: "listing \<Rightarrow> string list" where
  "names NoMore = []"
| "names (Gone n err ls) = n # names ls"
| "names (Child n t ls) = n # names ls"

primrec tree_ok :: "tree \<Rightarrow> bool" and listing_ok :: "listing \<Rightarrow> bool" where
  "tree_ok (Tree info link ls err) \<longleftrightarrow> listing_ok ls"
| "listing_ok NoMore \<longleftrightarrow> True"
| "listing_ok (Gone n err ls) \<longleftrightarrow> valid_name n \<and> (\<forall>m\<in>set (names ls). n < m) \<and> listing_ok ls"
| "listing_ok (Child n t ls) \<longleftrightarrow>
     valid_name n \<and> (\<forall>m\<in>set (names ls). n < m) \<and> tree_ok t \<and> listing_ok ls"

lemma names_valid: "listing_ok ls \<Longrightarrow> m \<in> set (names ls) \<Longrightarrow> valid_name m"
  by (induction ls rule: listing.induct [where ?P1.0 = "\<lambda>_. True"]) auto

section \<open>The level of a path\<close>

definition level :: "string \<Rightarrow> nat" where
  "level p = (if p = ''/'' then 0 else length (filter (\<lambda>c. c = CHR ''/'') p))"

lemma level_child:
  assumes "valid_name n"
  shows "level (child_path p n) = Suc (level p)"
proof -
  have "filter (\<lambda>c. c = CHR ''/'') n = []" using assms by (auto simp: filter_empty_conv valid_name_def)
  then show ?thesis
    using child_path_not_root [OF assms, of p] by (auto simp: level_def child_path_def)
qed

section \<open>One emitted entry\<close>

definition emitted_ok :: "walk_options \<Rightarrow> string \<Rightarrow> nat \<Rightarrow> entry \<Rightarrow> bool" where
  "emitted_ok opts path k x \<longleftrightarrow>
     is_under (e_path x) path \<and> clean_abs (e_path x) \<and> entry_wf x \<and>
     level (e_path x) \<le> level path + k \<and>
     (\<forall>q. clean_abs q \<and> is_under (e_path x) q \<and> is_under q path \<and> q \<noteq> path \<longrightarrow> \<not> excluded opts q)"

lemma under_antisym:
  "clean_abs p \<Longrightarrow> clean_abs q \<Longrightarrow> is_under p q \<Longrightarrow> is_under q p \<Longrightarrow> q = p"
  using clean_abs_nonempty [of q] clean_abs_nonempty [of p]
  by (auto simp: is_under_iff append_eq_Cons_conv Cons_eq_append_conv)

lemma emitted_self:
  "clean_abs (e_path x) \<Longrightarrow> entry_wf x \<Longrightarrow> e_path x = path \<Longrightarrow> emitted_ok opts path k x"
  by (auto simp: emitted_ok_def dest: under_antisym)

text \<open>Two directories above the same path, the second one a child: the first is at or below it.\<close>

lemma ancestors:
  assumes "valid_name n" and "clean_abs p" and "is_under x (child_path p n)" and "is_under x q"
    and "is_under q p" and "q \<noteq> p" and "clean_abs q"
  shows "is_under q (child_path p n)"
proof -
  let ?c = "child_path p n"
  define d where "d = (if p = ''/'' then p else p @ ''/'')"
  have c: "?c = d @ n" by (simp add: d_def child_path_def)
  obtain r where r: "x = ?c @ r" "boundary r"
    using assms(3) child_path_not_root [OF assms(1), of p] by (auto simp: is_under_iff boundary_def)
  have q0: "q \<noteq> ''/''" using assms(5-6) clean_abs_nonempty [OF assms(2)] by (auto simp: is_under_iff Cons_eq_append_conv)
  then obtain s where s: "x = q @ s" "boundary s"
    using assms(4) by (auto simp: is_under_iff boundary_def)
  have "\<exists>u. q = d @ u"
  proof (cases "p = ''/''")
    case True
    then show ?thesis using assms(7) by (auto simp: d_def clean_abs_def abs_path_def)
  next
    case False
    then show ?thesis using assms(5,6) by (auto simp: d_def is_under_iff)
  qed
  then obtain u where u: "q = d @ u" ..
  with r s c have e: "n @ r = u @ s" by simp
  have "u = [] \<Longrightarrow> False"
  proof -
    assume "u = []"
    then have "q = d" using u by simp
    with q0 have pd: "p \<noteq> ''/''" "q = p @ ''/''" by (auto simp: d_def split: if_splits)
    obtain cs where cs: "q = abs_path cs" "\<forall>c\<in>set cs. valid_name c" using assms(7) by (auto simp: clean_abs_def)
    with q0 have "cs \<noteq> []" by (auto simp: abs_path_def)
    then obtain cs' l where l: "cs = cs' @ [l]" by (metis rev_exhaust)
    then have "last q = last l" "l \<noteq> []" "CHR ''/'' \<notin> set l"
      using cs by (cases "cs' = []"; force simp: abs_path_def join_snoc valid_name_def)+
    then show False using pd(2) last_in_set [of l] by simp
  qed
  then obtain a u' where ua: "u = a # u'" by (cases u) auto
  from e consider t where "u = n @ t" "r = t @ s" | t where "n = u @ t" "s = t @ r"
    by (auto simp: append_eq_append_conv2)
  then show ?thesis
  proof cases
    case 1
    then have "q = ?c @ t" "boundary t" using u c r(2) by (cases t; simp add: boundary_def)+
    then show ?thesis by (cases t) (auto simp: is_under_iff boundary_def)
  next
    case 2
    then have "t \<noteq> [] \<Longrightarrow> hd t \<noteq> CHR ''/''" using assms(1) by (cases t) (auto simp: valid_name_def)
    with 2 s(2) have "t = []" by (cases t) (auto simp: boundary_def)
    with 2 u c show ?thesis by simp
  qed
qed

lemma emitted_child:
  assumes "emitted_ok opts (child_path p n) k x" and "valid_name n" and "clean_abs p"
    and "\<not> excluded opts (child_path p n)"
  shows "emitted_ok opts p (Suc k) x"
proof -
  have x: "is_under (e_path x) (child_path p n)" using assms(1) by (simp add: emitted_ok_def)
  have "\<not> excluded opts q" if "clean_abs q" "is_under (e_path x) q" "is_under q p" "q \<noteq> p" for q
    using ancestors [OF assms(2,3) x that(2,3,4,1)] assms(1,4) that
    by (cases "q = child_path p n") (auto simp: emitted_ok_def)
  then show ?thesis
    using assms(1) under_child [OF assms(2) x] by (auto simp: emitted_ok_def level_child [OF assms(2)])
qed

section \<open>A visit\<close>

abbreviation increasing_entries :: "entry list \<Rightarrow> bool" where
  "increasing_entries xs \<equiv> increasing_keys (map e_path xs)"

definition children_ok :: "walk_options \<Rightarrow> string \<Rightarrow> string list \<Rightarrow> nat \<Rightarrow> entry list \<Rightarrow> bool" where
  "children_ok opts path ns k xs \<longleftrightarrow>
     (\<forall>x\<in>set xs. emitted_ok opts path k x \<and> (\<exists>n\<in>set ns. is_under (e_path x) (child_path path n))) \<and>
     increasing_entries xs"

definition depth_left :: "walk_options \<Rightarrow> nat \<Rightarrow> nat" where
  "depth_left opts depth = nat (wo_max_depth opts - int depth)"

lemma children_ok_Cons:
  assumes "children_ok opts path ns k ys" and "valid_name n" and "clean_abs path" and "0 < k"
    and "\<forall>m\<in>set ns. n < m \<and> valid_name m" and "\<not> excluded opts (child_path path n)"
    and "\<forall>x\<in>set xs. emitted_ok opts (child_path path n) (k - 1) x" and "increasing_entries xs"
  shows "children_ok opts path (n # ns) k (xs @ ys)"
proof -
  have "emitted_ok opts path k x \<and> is_under (e_path x) (child_path path n)" if "x \<in> set xs" for x
    using emitted_child [of opts path n "k - 1" x] assms(2,3,4,6,7) that by (auto simp: emitted_ok_def)
  moreover have "key_less (e_path x) (e_path y)" if x: "x \<in> set xs" and y: "y \<in> set ys" for x y
  proof -
    obtain m where "m \<in> set ns" "is_under (e_path y) (child_path path m)"
      using assms(1) y by (auto simp: children_ok_def)
    moreover have "is_under (e_path x) (child_path path n)"
      using assms(7) x by (simp add: emitted_ok_def)
    ultimately show ?thesis using child_path_sorted assms(2,5) by blast
  qed
  ultimately show ?thesis
    using assms(1,8) by (auto simp: children_ok_def sorted_wrt_append)
qed

text \<open>The whole walk of a subtree, and the rest of a listing.\<close>

lemma visit_emits:
  "visit opts sy path t depth dev st = (st', r) \<Longrightarrow> tree_ok t \<Longrightarrow> clean_abs path \<Longrightarrow>
     1 \<le> wo_max_depth opts \<Longrightarrow> int depth \<le> wo_max_depth opts \<Longrightarrow>
     \<exists>xs. ws_out st' = ws_out st @ xs \<and> increasing_entries xs \<and>
       (\<forall>x\<in>set xs. emitted_ok opts path (depth_left opts depth) x)"
  "visit_children opts sy path ls depth i st = (st', r) \<Longrightarrow> listing_ok ls \<Longrightarrow> clean_abs path \<Longrightarrow>
     1 \<le> wo_max_depth opts \<Longrightarrow> int depth < wo_max_depth opts \<Longrightarrow>
     \<exists>xs. ws_out st' = ws_out st @ xs \<and> children_ok opts path (names ls) (depth_left opts depth) xs"
proof (induction t and ls arbitrary: path depth dev st st' r and path depth i st st' r
    rule: tree.induct listing.induct)
  case (Tree info link ls err)
  let ?k = "depth_left opts depth"
  obtain s1 r1 where v: "visit_entry opts sy path info link err depth dev st = (s1, r1)"
    by (cases "visit_entry opts sy path info link err depth dev st")
  then show ?case
  proof (cases rule: visit_entry_cases)
    case (stopped x)
    with v Tree.prems(1) have "ws_out st' = ws_out st @ []" by simp
    then show ?thesis by fastforce
  next
    case (committed i d)
    let ?e = "finished opts sy (with_list_error d err (fill_entry path info link))"
    have e: "e_path ?e = path" "entry_wf ?e" by (simp_all add: entry_wf_finished entry_wf_fill)
    have self: "emitted_ok opts path ?k ?e" using e Tree.prems(3) by (intro emitted_self) simp_all
    show ?thesis
    proof (cases d)
      case False
      with v committed Tree.prems(1) have "ws_out st' = ws_out st @ [?e]" by simp
      with self show ?thesis by fastforce
    next
      case True
      with v committed Tree.prems(1) have c: "visit_children opts sy path ls depth i s1 = (st', r)" by simp
      from committed True Tree.prems(4) have "int depth < wo_max_depth opts" by auto
      with Tree.IH [OF c] Tree.prems obtain ys
        where ys: "ws_out st' = ws_out s1 @ ys" "children_ok opts path (names ls) ?k ys" by auto
      have "key_less path (e_path y)" if y: "y \<in> set ys" for y
      proof -
        obtain n where n: "n \<in> set (names ls)" "is_under (e_path y) (child_path path n)"
          using ys(2) y by (auto simp: children_ok_def)
        have "valid_name n" using names_valid Tree.prems(2) n(1) by auto
        then show ?thesis using child_path_after n(2) by blast
      qed
      with ys(2) e(1) have "increasing_entries (?e # ys)" by (simp add: children_ok_def)
      moreover have "ws_out st' = ws_out st @ ?e # ys" using ys(1) committed(3) by simp
      ultimately show ?thesis using ys(2) self by (intro exI [of _ "?e # ys"]) (auto simp: children_ok_def)
    qed
  qed
next
  case NoMore
  then show ?case by (auto simp: children_ok_def)
next
  case (Gone n err ls)
  let ?c = "child_path path n" and ?k = "depth_left opts depth"
  have n: "valid_name n" "filepath_join path n = ?c" "clean_abs ?c"
    using Gone.prems clean_abs_join by auto
  show ?case
  proof (cases "excluded opts ?c")
    case True
    with n Gone.prems(1) have "visit_children opts sy path ls depth i st = (st', r)" by (simp add: Let_def)
    from Gone.IH [OF this] Gone.prems obtain xs
      where "ws_out st' = ws_out st @ xs" "children_ok opts path (names ls) ?k xs" by auto
    then show ?thesis by (auto simp: children_ok_def)
  next
    case False
    obtain s1 r1 where v: "emit_error opts sy ?c err st = (s1, r1)" by (cases "emit_error opts sy ?c err st")
    then show ?thesis
    proof (cases rule: emit_error_cases)
      case (stopped x)
      with v False n Gone.prems(1) have "ws_out st' = ws_out st @ []" by (simp add: Let_def)
      then show ?thesis by (force simp: children_ok_def)
    next
      case committed
      with v False n Gone.prems(1) have "visit_children opts sy path ls depth i s1 = (st', r)"
        by (simp add: Let_def)
      from Gone.IH [OF this] Gone.prems obtain ys
        where ys: "ws_out st' = ws_out s1 @ ys" "children_ok opts path (names ls) ?k ys" by auto
      have "children_ok opts path (n # names ls) ?k ([error_entry ?c err] @ ys)"
        using ys(2) n Gone.prems False names_valid
        by (intro children_ok_Cons) (auto simp: depth_left_def intro!: emitted_self)
      with ys(1) committed(2) show ?thesis by (intro exI [of _ "error_entry ?c err # ys"]) simp
    qed
  qed
next
  case (Child n t ls)
  let ?c = "child_path path n" and ?k = "depth_left opts depth"
  have n: "valid_name n" "filepath_join path n = ?c" "clean_abs ?c"
    using Child.prems clean_abs_join by auto
  show ?case
  proof (cases "excluded opts ?c")
    case True
    with n Child.prems(1) have "visit_children opts sy path ls depth i st = (st', r)" by (simp add: Let_def)
    from Child.IH(2) [OF this] Child.prems obtain xs
      where "ws_out st' = ws_out st @ xs" "children_ok opts path (names ls) ?k xs" by auto
    then show ?thesis by (auto simp: children_ok_def)
  next
    case False
    obtain s1 r1 where v: "visit opts sy ?c t (Suc depth) (e_dev (ws_cells st i)) st = (s1, r1)"
      by (cases "visit opts sy ?c t (Suc depth) (e_dev (ws_cells st i)) st")
    have k: "depth_left opts (Suc depth) = ?k - 1" using Child.prems by (simp add: depth_left_def)
    from Child.IH(1) [OF v] Child.prems n obtain xs
      where xs: "ws_out s1 = ws_out st @ xs" "increasing_entries xs"
        "\<forall>x\<in>set xs. emitted_ok opts ?c (?k - 1) x" by (auto simp: k)
    have join: "children_ok opts path (n # names ls) ?k (xs @ ys)"
      if "children_ok opts path (names ls) ?k ys" for ys
      using that xs n Child.prems False names_valid
      by (intro children_ok_Cons) (auto simp: depth_left_def)
    show ?thesis
    proof (cases r1)
      case (Some x)
      with v False n Child.prems(1) have "st' = s1" by (simp add: Let_def)
      with xs(1) join [of "[]"] show ?thesis by (simp add: children_ok_def)
    next
      case None
      with v False n Child.prems(1) have "visit_children opts sy path ls depth i s1 = (st', r)"
        by (simp add: Let_def)
      from Child.IH(2) [OF this] Child.prems obtain ys
        where ys: "ws_out st' = ws_out s1 @ ys" "children_ok opts path (names ls) ?k ys" by auto
      with xs(1) join [of ys] show ?thesis by (intro exI [of _ "xs @ ys"]) simp
    qed
  qed
qed

end
