(* ===== verification/Scan_Result.thy ===== *)
theory Scan_Result
  imports Scan_Order
begin

text \<open>
  The properties of the walk: order and perimeter of what it emits, the list of entries it is
  meant to emit (\<open>expected\<close>) and when it emits exactly that, what a cancelled walk leaves,
  the counters, and two defects that concrete trees show.
\<close>

section \<open>The samples\<close>

lemma sample_scan_same:
  "map e_path (ws_out (fst (walk_scan (sample_walk MountSame) nfs_system (wrapping_tree 1)))) =
     [''/'', ''/a'', ''/b'', ''/c'', ''/m'', ''/n'']"
  by code_simp

lemma sample_scan_local:
  "map e_path (ws_out (fst (walk_scan (sample_walk MountLocal) nfs_system (wrapping_tree 9)))) =
     [''/'', ''/a'', ''/b'', ''/c'', ''/m'', ''/n'', ''/n/f'']"
  by code_simp

lemma sample_tree_ok: "tree_ok (wrapping_tree dev)"
  by (simp add: wrapping_tree_def file_on_def dir_on_def valid_name_def)

lemma sample_walk_ok: "absolute (wo_root (sample_walk p))" "1 \<le> wo_max_depth (sample_walk p)"
  "clean (wo_root (sample_walk p)) = ''/''"
  by (simp_all add: sample_walk_def absolute_def has_prefix_def clean_def clean_step_def)

section \<open>Order and perimeter\<close>

lemma set_defaults_depth: "1 \<le> wo_max_depth (set_defaults n opts)"
  by (simp add: set_defaults_def Let_def default_max_depth_def)

lemma set_defaults_root: "wo_root (set_defaults n opts) = (if wo_root opts = [] then ''/'' else wo_root opts)"
  by (simp add: set_defaults_def Let_def)

lemma set_defaults_exclude [simp]: "excluded (set_defaults n opts) = excluded opts"
  by (auto simp: set_defaults_def Let_def excluded_def fun_eq_iff)

lemma walk_scan_emits:
  assumes "walk_scan opts sy t = (st, r)" and "tree_ok t" and "absolute (wo_root opts)"
    and "1 \<le> wo_max_depth opts"
  shows "increasing_entries (ws_out st) \<and>
    (\<forall>x\<in>set (ws_out st). emitted_ok opts (clean (wo_root opts)) (nat (wo_max_depth opts)) x)"
proof -
  obtain info link ls err where t: "t = Tree info link ls err" by (cases t)
  with assms(1) have "visit opts sy (clean (wo_root opts)) t 0 (probe_dev info) walk_start = (st, r)"
    by (simp add: walk_scan_def)
  from visit_emits(1) [OF this assms(2) clean_absolute [OF assms(3)] assms(4)] assms(4)
  show ?thesis by (auto simp: walk_start_def depth_left_def)
qed

text \<open>
  C24. Whatever the context does and whatever the options are, the walk of an absolute root
  emits well-formed entries of that subtree in strictly increasing canonical order: this is
  the order that the fingerprint writer and the merge join require. The only thing assumed
  is what \<open>os.ReadDir\<close> promises of the names.
\<close>

theorem walk_in_order:
  assumes "walk_scan opts sy t = (st, r)" and "tree_ok t" and "absolute (wo_root opts)"
    and "1 \<le> wo_max_depth opts"
  shows "increasing_entries (ws_out st) \<and>
    (\<forall>x\<in>set (ws_out st). entry_wf x \<and> is_under (e_path x) (clean (wo_root opts)))"
  using walk_scan_emits [OF assms] by (auto simp: emitted_ok_def)

theorem walk_in_order_witness:
  "increasing_entries (ws_out (fst (walk_scan (sample_walk MountLocal) nfs_system (wrapping_tree 9))))"
  using walk_in_order [of "sample_walk MountLocal" nfs_system "wrapping_tree 9" _ _, OF prod.collapse [symmetric]]
    sample_tree_ok sample_walk_ok by blast

text \<open>
  C28. The perimeter holds: below the root no emitted path is excluded, none lies anywhere
  below an excluded path, however the exclusion matched (by prefix or by glob), and none is
  more than \<open>MaxDepth\<close> levels below the root.
\<close>

theorem walk_perimeter:
  assumes "walk_scan opts sy t = (st, r)" and "tree_ok t" and "absolute (wo_root opts)"
    and "1 \<le> wo_max_depth opts" and "x \<in> set (ws_out st)"
  shows "(clean_abs q \<and> is_under (e_path x) q \<and> is_under q (clean (wo_root opts)) \<and>
      q \<noteq> clean (wo_root opts) \<longrightarrow> \<not> excluded opts q) \<and>
    level (e_path x) \<le> level (clean (wo_root opts)) + nat (wo_max_depth opts)"
  using walk_scan_emits [OF assms(1-4)] assms(5) by (auto simp: emitted_ok_def)

definition narrow_options :: walk_options where
  "narrow_options = (sample_walk MountLocal)\<lparr>wo_exclude := Some (empty_set\<lparr>xs_prefixes := [''/n'']\<rparr>)\<rparr>"

lemma narrow_scan:
  "map e_path (ws_out (fst (walk_scan narrow_options nfs_system (wrapping_tree 9)))) =
     [''/'', ''/a'', ''/b'', ''/c'', ''/m'']"
  by code_simp

theorem walk_perimeter_witness:
  "\<exists>x\<in>set (ws_out (fst (walk_scan narrow_options nfs_system (wrapping_tree 9)))).
     e_path x = ''/m'' \<and> level (e_path x) \<le> level ''/'' + 64 \<and> \<not> excluded narrow_options ''/m''"
proof -
  let ?out = "ws_out (fst (walk_scan narrow_options nfs_system (wrapping_tree 9)))"
  have "''/m'' \<in> set (map e_path ?out)" by (simp add: narrow_scan)
  then obtain x where x: "x \<in> set ?out" "e_path x = ''/m''" by auto
  have o: "absolute (wo_root narrow_options)" "1 \<le> wo_max_depth narrow_options"
    "clean (wo_root narrow_options) = ''/''" "wo_max_depth narrow_options = 64"
    by (simp_all add: narrow_options_def sample_walk_def absolute_def has_prefix_def clean_def clean_step_def)
  have "clean_abs ''/m''" unfolding clean_abs_def
    by (rule exI [of _ "[''m'']"]) (simp add: abs_path_def valid_name_def)
  then show ?thesis
    using walk_perimeter [of narrow_options nfs_system "wrapping_tree 9" _ _ x "''/m''", OF prod.collapse [symmetric]]
      sample_tree_ok o x by (auto simp: is_under_def intro!: bexI [of _ x])
qed

section \<open>What the walk is meant to emit\<close>

definition crosses :: "walk_options \<Rightarrow> system \<Rightarrow> string \<Rightarrow> bool" where
  "crosses opts sy path \<longleftrightarrow>
     wo_mounts opts = MountAll \<or> (wo_mounts opts = MountLocal \<and> snd (sy_classify sy path) = FSLocal)"

definition enters :: "walk_options \<Rightarrow> system \<Rightarrow> entry \<Rightarrow> nat \<Rightarrow> u64 \<Rightarrow> bool" where
  "enters opts sy e depth parent_dev \<longleftrightarrow>
     is_dir e \<and>
     (depth = 0 \<or>
      (e_dev e = parent_dev \<or> crosses opts sy (e_path e)) \<and> int depth < wo_max_depth opts \<and>
      (case wo_descend opts of None \<Rightarrow> True | Some f \<Rightarrow> f e))"

primrec
  expected :: "walk_options \<Rightarrow> system \<Rightarrow> string \<Rightarrow> tree \<Rightarrow> nat \<Rightarrow> u64 \<Rightarrow> entry list" and
  expected_children :: "walk_options \<Rightarrow> system \<Rightarrow> string \<Rightarrow> listing \<Rightarrow> nat \<Rightarrow> u64 \<Rightarrow> entry list" where
  "expected opts sy path (Tree info link ls err) depth dev =
     (let e = fill_entry path info link; d = enters opts sy e depth dev
      in finished opts sy (with_list_error d err e)
         # (if d then expected_children opts sy path ls depth (e_dev e) else []))"
| "expected_children opts sy path NoMore depth dev = []"
| "expected_children opts sy path (Gone n err ls) depth dev =
     (let child = filepath_join path n
      in (if excluded opts child then [] else [error_entry child err])
         @ expected_children opts sy path ls depth dev)"
| "expected_children opts sy path (Child n t ls) depth dev =
     (let child = filepath_join path n
      in (if excluded opts child then [] else expected opts sy child t (Suc depth) dev)
         @ expected_children opts sy path ls depth dev)"

text \<open>Every object on one device, and none that vanishes while it is listed.\<close>

primrec one_device :: "u64 \<Rightarrow> tree \<Rightarrow> bool" and one_device_list :: "u64 \<Rightarrow> listing \<Rightarrow> bool" where
  "one_device d (Tree info link ls err) \<longleftrightarrow> probe_dev info = d \<and> one_device_list d ls"
| "one_device_list d NoMore \<longleftrightarrow> True"
| "one_device_list d (Gone n err ls) \<longleftrightarrow> False"
| "one_device_list d (Child n t ls) \<longleftrightarrow> one_device d t \<and> one_device_list d ls"

lemma fill_entry_dev: "e_dev (fill_entry path info link) = probe_dev info"
  by (auto simp: fill_entry_def fill_stat_def probe_dev_def Let_def split: option.splits sum.splits)

lemma with_list_error_dev [simp]: "e_dev (with_list_error d le e) = e_dev e"
  by (simp add: with_list_error_def split: option.splits)

lemma may_descend_enters:
  "is_dir e \<Longrightarrow> may_descend opts sy e depth dev st = (st', d) \<Longrightarrow>
   d = enters opts sy e depth dev \<and> ws_out st' = ws_out st \<and> ws_cells st' = ws_cells st"
  by (auto simp: may_descend_def cross_mount_def note_mount_def enters_def crosses_def Let_def
      split: if_splits prod.splits option.splits)

text \<open>A visit when the context is never done, up to its children.\<close>

lemma visit_entry_live:
  assumes "\<forall>k. \<not> sy_cancelled sy k"
  obtains s where "visit_entry opts sy path info link le depth dev st =
      (s, Inr (ws_acquired st mod ring_size opts, enters opts sy (fill_entry path info link) depth dev))"
    and "ws_out s = ws_out st @ [finished opts sy (with_list_error
           (enters opts sy (fill_entry path info link) depth dev) le (fill_entry path info link))]"
    and "\<forall>j. e_dev (ws_cells s j) =
           (if j = ws_acquired st mod ring_size opts then probe_dev info else e_dev (ws_cells st j))"
proof -
  let ?e = "fill_entry path info link" and ?i = "ws_acquired st mod ring_size opts"
  let ?d = "enters opts sy ?e depth dev"
  let ?s1 = "st\<lparr>ws_polls := Suc (ws_polls st)\<rparr>"
  let ?s2 = "st\<lparr>ws_polls := Suc (Suc (ws_polls st)), ws_acquired := Suc (ws_acquired st),
      ws_cells := (ws_cells st)(?i := zero_entry)\<rparr>"
  have p: "poll sy s = (s\<lparr>ws_polls := Suc (ws_polls s)\<rparr>, None)" for s using assms by (simp add: poll_def)
  have a: "acquire opts sy ?s1 = (?s2, Inr ?i)" by (simp add: acquire_def p Let_def)
  obtain s3 d where d: "(if is_dir ?e then may_descend opts sy ?e depth dev (set_cell ?i ?e ?s2)
      else (set_cell ?i ?e ?s2, False)) = (s3, d)" by fastforce
  have s3: "d = ?d" "ws_out s3 = ws_out st" "ws_cells s3 = (ws_cells st)(?i := ?e)"
  proof -
    have "d = ?d \<and> ws_out s3 = ws_out st \<and> ws_cells s3 = (ws_cells st)(?i := ?e)"
    proof (cases "is_dir ?e")
      case True
      with d may_descend_enters [OF True, of opts sy depth dev "set_cell ?i ?e ?s2" s3 d]
      show ?thesis by (simp add: set_cell_def)
    next
      case False
      with d show ?thesis by (auto simp: set_cell_def enters_def)
    qed
    then show "d = ?d" "ws_out s3 = ws_out st" "ws_cells s3 = (ws_cells st)(?i := ?e)" by auto
  qed
  let ?f = "with_list_error d le ?e"
  obtain s4 q where q: "(if wants_hash opts ?f then poll sy (set_cell ?i ?f s3) else (set_cell ?i ?f s3, None)) = (s4, q)"
    by fastforce
  then have s4: "q = None" "ws_out s4 = ws_out st" "ws_cells s4 = (ws_cells st)(?i := ?f)"
    using s3 by (auto simp: p set_cell_def split: if_splits)
  have "visit_entry opts sy path info link le depth dev st = (commit (finished opts sy ?f) s4, Inr (?i, d))"
    using d q s4(1) by (simp add: visit_entry_def p a Let_def)
  moreover have "ws_cells (commit (finished opts sy ?f) s4) = (ws_cells st)(?i := ?f)"
    by (simp add: commit_def s4)
  ultimately show thesis using that s3 s4 by (simp add: fill_entry_dev)
qed

lemma visit_expected:
  assumes live: "\<forall>k. \<not> sy_cancelled sy k"
  shows "wo_mounts opts = MountAll \<or> one_device d t \<and> dev' = d \<and> dev = d \<Longrightarrow>
    \<exists>st'. visit opts sy path t depth dev' st = (st', None) \<and>
      ws_out st' = ws_out st @ expected opts sy path t depth dev \<and>
      (\<forall>j. wo_mounts opts \<noteq> MountAll \<longrightarrow> e_dev (ws_cells st j) = d \<longrightarrow> e_dev (ws_cells st' j) = d)"
  and "wo_mounts opts = MountAll \<or> one_device_list d ls \<and> e_dev (ws_cells st i) = d \<and> dev = d \<Longrightarrow>
    \<exists>st'. visit_children opts sy path ls depth i st = (st', None) \<and>
      ws_out st' = ws_out st @ expected_children opts sy path ls depth dev \<and>
      (\<forall>j. wo_mounts opts \<noteq> MountAll \<longrightarrow> e_dev (ws_cells st j) = d \<longrightarrow> e_dev (ws_cells st' j) = d)"
proof (induction t and ls arbitrary: path depth dev dev' st and path depth dev i st
    rule: tree.induct listing.induct)
  case (Tree info link ls err)
  let ?e = "fill_entry path info link" and ?i = "ws_acquired st mod ring_size opts"
  have same: "enters opts sy ?e depth dev' = enters opts sy ?e depth dev"
    using Tree.prems by (auto simp: enters_def crosses_def)
  obtain s where s0: "visit_entry opts sy path info link err depth dev' st =
        (s, Inr (?i, enters opts sy ?e depth dev'))"
      "ws_out s = ws_out st @ [finished opts sy (with_list_error (enters opts sy ?e depth dev') err ?e)]"
      "\<forall>j. e_dev (ws_cells s j) = (if j = ?i then probe_dev info else e_dev (ws_cells st j))"
    by (rule visit_entry_live [OF live, of opts path info link err depth dev' st])
  note s = s0 [unfolded same]
  have keep: "\<forall>j. wo_mounts opts \<noteq> MountAll \<longrightarrow> e_dev (ws_cells st j) = d \<longrightarrow> e_dev (ws_cells s j) = d"
    using s(3) Tree.prems by auto
  show ?case
  proof (cases "enters opts sy ?e depth dev")
    case False
    with s keep show ?thesis by simp
  next
    case True
    have "wo_mounts opts = MountAll \<or> one_device_list d ls \<and> e_dev (ws_cells s ?i) = d \<and> e_dev ?e = d"
      using Tree.prems s(3) by (auto simp: fill_entry_dev)
    from Tree.IH [OF this, of path depth] obtain st'
      where c: "visit_children opts sy path ls depth ?i s = (st', None)"
        "ws_out st' = ws_out s @ expected_children opts sy path ls depth (e_dev ?e)"
        "\<forall>j. wo_mounts opts \<noteq> MountAll \<longrightarrow> e_dev (ws_cells s j) = d \<longrightarrow> e_dev (ws_cells st' j) = d"
      by auto
    have "visit opts sy path (Tree info link ls err) depth dev' st = (st', None)"
      using s(1) True c(1) by simp
    moreover have "ws_out st' = ws_out st @ expected opts sy path (Tree info link ls err) depth dev"
      using s(2) True c(2) by (simp add: Let_def)
    ultimately show ?thesis using keep c(3) by blast
  qed
next
  case NoMore
  then show ?case by simp
next
  case (Gone n err ls)
  then have all: "wo_mounts opts = MountAll" by simp
  let ?c = "filepath_join path n"
  show ?case
  proof (cases "excluded opts ?c")
    case True
    with Gone.IH [of st i dev path depth] all show ?thesis by (simp add: Let_def)
  next
    case False
    obtain s where s: "emit_error opts sy ?c err st = (s, None)" "ws_out s = ws_out st @ [error_entry ?c err]"
      using live by (auto simp: emit_error_def acquire_def poll_def Let_def)
    with Gone.IH [of s i dev path depth] all False show ?thesis by (auto simp: Let_def)
  qed
next
  case (Child n t ls)
  let ?c = "filepath_join path n"
  show ?case
  proof (cases "excluded opts ?c")
    case True
    with Child.IH(2) [of st i dev path depth] Child.prems show ?thesis by (auto simp: Let_def)
  next
    case False
    have "wo_mounts opts = MountAll \<or> one_device d t \<and> e_dev (ws_cells st i) = d \<and> dev = d"
      using Child.prems by auto
    from Child.IH(1) [OF this, of ?c "Suc depth" st] obtain s1
      where s1: "visit opts sy ?c t (Suc depth) (e_dev (ws_cells st i)) st = (s1, None)"
        "ws_out s1 = ws_out st @ expected opts sy ?c t (Suc depth) dev"
        "\<forall>j. wo_mounts opts \<noteq> MountAll \<longrightarrow> e_dev (ws_cells st j) = d \<longrightarrow> e_dev (ws_cells s1 j) = d"
      by auto
    have "wo_mounts opts = MountAll \<or> one_device_list d ls \<and> e_dev (ws_cells s1 i) = d \<and> dev = d"
      using Child.prems s1(3) by auto
    from Child.IH(2) [OF this, of path depth] s1 False show ?thesis by (auto simp: Let_def)
  qed
qed

text \<open>
  C25. The walk is complete: when the context is never done, and either every mount point is
  to be crossed or the subtree is one device on which nothing vanishes, the walk ends without
  an error and emits exactly the intended list: every entry that no exclusion, no depth limit
  and no \<open>Descend\<close> removes, each with its hash or with the reason it has none. In
  particular a directory that cannot be listed does not end the walk.
\<close>

theorem walk_complete:
  assumes "\<forall>k. \<not> sy_cancelled sy k" and "wo_mounts opts = MountAll \<or> one_device d t"
  shows "\<exists>st. walk_scan opts sy t = (st, None) \<and>
    ws_out st = expected opts sy (clean (wo_root opts)) t 0 d"
proof -
  obtain info link ls err where t: "t = Tree info link ls err" by (cases t)
  have "wo_mounts opts = MountAll \<or> one_device d t \<and> probe_dev info = d \<and> d = d"
    using assms(2) t by auto
  from visit_expected(1) [OF assms(1) this, of "clean (wo_root opts)" 0 walk_start]
  show ?thesis by (auto simp: t walk_scan_def walk_start_def)
qed

theorem walk_complete_witness:
  "\<exists>st. walk_scan (sample_walk MountAll) nfs_system (wrapping_tree 9) = (st, None) \<and>
     map e_path (ws_out st) = [''/'', ''/a'', ''/b'', ''/c'', ''/m'', ''/n'', ''/n/f'']"
proof -
  have "map e_path (expected (sample_walk MountAll) nfs_system ''/'' (wrapping_tree 9) 0 1) =
      [''/'', ''/a'', ''/b'', ''/c'', ''/m'', ''/n'', ''/n/f'']" by code_simp
  then show ?thesis
    using walk_complete [of nfs_system "sample_walk MountAll" 1 "wrapping_tree 9"] sample_walk_ok
    by (auto simp: nfs_system_def sample_walk_def)
qed

section \<open>A walk that is stopped\<close>

lemma visit_entry_grows:
  "visit_entry opts sy path info link le depth dev st = (st', r) \<Longrightarrow> prefix (ws_out st) (ws_out st')"
  by (erule visit_entry_cases) simp_all

lemma visit_grows:
  "visit opts sy path t depth dev st = (st', r) \<Longrightarrow> prefix (ws_out st) (ws_out st')"
  "visit_children opts sy path ls depth i st = (st', r) \<Longrightarrow> prefix (ws_out st) (ws_out st')"
proof (induction t and ls arbitrary: path depth dev st st' r and path depth i st st' r
    rule: tree.induct listing.induct)
  case (Tree info link ls err)
  obtain s1 r1 where v: "visit_entry opts sy path info link err depth dev st = (s1, r1)"
    by (cases "visit_entry opts sy path info link err depth dev st")
  have g: "prefix (ws_out st) (ws_out s1)" by (rule visit_entry_grows [OF v])
  show ?case
  proof (cases "\<exists>i. r1 = Inr (i, True)")
    case True
    with v Tree.prems obtain i where "visit_children opts sy path ls depth i s1 = (st', r)" by auto
    from Tree.IH [OF this] g show ?thesis by (rule prefix_order.trans [rotated])
  next
    case False
    with v Tree.prems g show ?thesis by (auto split: sum.splits if_splits)
  qed
next
  case NoMore
  then show ?case by simp
next
  case (Gone n err ls)
  let ?c = "filepath_join path n"
  obtain s1 r1 where v: "emit_error opts sy ?c err st = (s1, r1)" by (cases "emit_error opts sy ?c err st")
  then have g: "prefix (ws_out st) (ws_out s1)" by (rule emit_error_cases) simp_all
  show ?case
  proof (cases "excluded opts ?c \<or> r1 \<noteq> None")
    case True
    with v Gone g show ?thesis by (auto simp: Let_def split: if_splits)
  next
    case False
    with v Gone.prems have "visit_children opts sy path ls depth i s1 = (st', r)" by (simp add: Let_def)
    from Gone.IH [OF this] g show ?thesis by (rule prefix_order.trans [rotated])
  qed
next
  case (Child n t ls)
  let ?c = "filepath_join path n"
  obtain s1 r1 where v: "visit opts sy ?c t (Suc depth) (e_dev (ws_cells st i)) st = (s1, r1)"
    by (cases "visit opts sy ?c t (Suc depth) (e_dev (ws_cells st i)) st")
  from Child.IH(1) [OF this] have g: "prefix (ws_out st) (ws_out s1)" .
  show ?case
  proof (cases "excluded opts ?c \<or> r1 \<noteq> None")
    case True
    with v Child.IH(2) Child.prems g show ?thesis by (auto simp: Let_def split: if_splits)
  next
    case False
    with v Child.prems have "visit_children opts sy path ls depth i s1 = (st', r)" by (simp add: Let_def)
    from Child.IH(2) [OF this] g show ?thesis by (rule prefix_order.trans [rotated])
  qed
qed

text \<open>The same system with a context that is never done.\<close>

definition undisturbed :: "system \<Rightarrow> system" where
  "undisturbed sy = sy\<lparr>sy_cancelled := (\<lambda>_. False)\<rparr>"

lemma undisturbed_simps [simp]:
  "finished opts (undisturbed sy) = finished opts sy"
  "may_descend opts (undisturbed sy) = may_descend opts sy"
  "sy_cancelled (undisturbed sy) k = False"
  by (auto simp: fun_eq_iff undisturbed_def finished_def hash_entry_def open_for_hash_def
      may_descend_def cross_mount_def cong: open_result.case_cong)

lemma poll_agrees: "poll sy st = (s, None) \<Longrightarrow> poll (undisturbed sy) st = (s, None)"
  by (auto simp: poll_def split: if_splits)

lemma acquire_agrees: "acquire opts sy st = (s, Inr i) \<Longrightarrow> acquire opts (undisturbed sy) st = (s, Inr i)"
  by (auto simp: acquire_def poll_def Let_def split: if_splits)

lemma emit_error_agrees:
  "emit_error opts sy path err st = (s, None) \<Longrightarrow> emit_error opts (undisturbed sy) path err st = (s, None)"
proof -
  assume a: "emit_error opts sy path err st = (s, None)"
  obtain s1 r1 where q: "acquire opts sy st = (s1, r1)" by (cases "acquire opts sy st")
  with a obtain i where "r1 = Inr i" by (cases r1) (auto simp: emit_error_def)
  with a q acquire_agrees [of opts sy st s1 i] show ?thesis by (simp add: emit_error_def)
qed

text \<open>A visit that is not stopped is the undisturbed one; a stopped one has emitted a prefix.\<close>

lemma visit_entry_agrees:
  "visit_entry opts sy path info link le depth dev st = (s, Inr x) \<Longrightarrow>
   visit_entry opts (undisturbed sy) path info link le depth dev st = (s, Inr x)"
proof -
  assume v: "visit_entry opts sy path info link le depth dev st = (s, Inr x)"
  let ?e = "fill_entry path info link"
  obtain s1 p1 where p1: "poll sy st = (s1, p1)" by (cases "poll sy st")
  with v have "p1 = None" by (cases p1) (auto simp: visit_entry_def)
  with p1 have p: "poll sy st = (s1, None)" by simp
  obtain s2 a where a1: "acquire opts sy s1 = (s2, a)" by (cases "acquire opts sy s1")
  with v p obtain i where "a = Inr i" by (cases a) (auto simp: visit_entry_def)
  with a1 have a: "acquire opts sy s1 = (s2, Inr i)" by simp
  obtain s3 d where d: "(if is_dir ?e then may_descend opts sy ?e depth dev (set_cell i ?e s2)
      else (set_cell i ?e s2, False)) = (s3, d)" by fastforce
  let ?f = "with_list_error d le ?e"
  obtain s4 q where q1: "(if wants_hash opts ?f then poll sy (set_cell i ?f s3) else (set_cell i ?f s3, None)) = (s4, q)"
    by fastforce
  with v p a d have "q = None" by (cases q) (auto simp: visit_entry_def Let_def)
  with q1 have q: "(if wants_hash opts ?f then poll (undisturbed sy) (set_cell i ?f s3)
      else (set_cell i ?f s3, None)) = (s4, None)"
    by (auto dest: poll_agrees split: if_splits)
  note q0 = q1 [unfolded \<open>q = None\<close>]
  have "(commit (finished opts sy ?f) s4, Inr (i, d)) = (s, Inr x)"
    using v by (simp add: visit_entry_def Let_def p a d q0 split del: if_split)
  moreover have "(if is_dir ?e then may_descend opts (undisturbed sy) ?e depth dev (set_cell i ?e s2)
      else (set_cell i ?e s2, False)) = (s3, d)"
    using d by (simp only: undisturbed_simps)
  ultimately show ?thesis
    by (simp add: visit_entry_def Let_def poll_agrees [OF p] acquire_agrees [OF a] q split del: if_split)
qed

lemma visit_agrees:
  "visit opts sy path t depth dev st = (st', r) \<Longrightarrow>
   visit opts (undisturbed sy) path t depth dev st = (su, ru) \<Longrightarrow>
   (r = None \<longrightarrow> su = st' \<and> ru = None) \<and> prefix (ws_out st') (ws_out su)"
  "visit_children opts sy path ls depth i st = (st', r) \<Longrightarrow>
   visit_children opts (undisturbed sy) path ls depth i st = (su, ru) \<Longrightarrow>
   (r = None \<longrightarrow> su = st' \<and> ru = None) \<and> prefix (ws_out st') (ws_out su)"
proof (induction t and ls arbitrary: path depth dev st st' r su ru and path depth i st st' r su ru
    rule: tree.induct listing.induct)
  case (Tree info link ls err)
  obtain s1 r1 where v: "visit_entry opts sy path info link err depth dev st = (s1, r1)"
    by (cases "visit_entry opts sy path info link err depth dev st")
  show ?case
  proof (cases r1)
    case (Inl x)
    with v have "ws_out s1 = ws_out st" by (auto elim: visit_entry_cases)
    with v Inl Tree.prems(1) visit_grows(1) [OF Tree.prems(2)] show ?thesis by auto
  next
    case (Inr y)
    obtain i d where y: "y = (i, d)" by (cases y)
    note u = visit_entry_agrees [OF v [unfolded Inr y]]
    show ?thesis
    proof (cases d)
      case True
      from Tree.IH [of path depth i s1 st' r su ru] Tree.prems v u Inr y True show ?thesis by simp
    next
      case False
      with Tree.prems v u Inr y show ?thesis by simp
    qed
  qed
next
  case NoMore
  then show ?case by simp
next
  case (Gone n err ls)
  let ?c = "filepath_join path n"
  obtain s1 r1 where v: "emit_error opts sy ?c err st = (s1, r1)" by (cases "emit_error opts sy ?c err st")
  show ?case
  proof (cases "excluded opts ?c")
    case True
    with Gone show ?thesis by (simp add: Let_def)
  next
    case False
    show ?thesis
    proof (cases r1)
      case None
      from Gone.IH [of path depth i s1 st' r su ru] Gone.prems False v None
        emit_error_agrees [OF v [unfolded None]] show ?thesis by (simp add: Let_def)
    next
      case (Some x)
      with v have "ws_out s1 = ws_out st" by (auto elim: emit_error_cases)
      with v Some False Gone.prems(1) visit_grows(2) [OF Gone.prems(2)] show ?thesis by (auto simp: Let_def)
    qed
  qed
next
  case (Child n t ls)
  let ?c = "filepath_join path n" and ?dev = "e_dev (ws_cells st i)"
  obtain s1 r1 where v: "visit opts sy ?c t (Suc depth) ?dev st = (s1, r1)"
    by (cases "visit opts sy ?c t (Suc depth) ?dev st")
  obtain s2 r2 where w: "visit opts (undisturbed sy) ?c t (Suc depth) ?dev st = (s2, r2)"
    by (cases "visit opts (undisturbed sy) ?c t (Suc depth) ?dev st")
  note agree = Child.IH(1) [OF v w]
  show ?case
  proof (cases "excluded opts ?c")
    case True
    from Child.IH(2) [of path depth i st st' r su ru] Child.prems True show ?thesis by (simp add: Let_def)
  next
    case False
    show ?thesis
    proof (cases r1)
      case None
      with agree have "s2 = s1" "r2 = None" by auto
      with Child.IH(2) [of path depth i s1 st' r su ru] Child.prems False v w None show ?thesis
        by (simp add: Let_def)
    next
      case (Some x)
      have "prefix (ws_out s2) (ws_out su)"
      proof (cases r2)
        case None
        with w False Child.prems(2) visit_grows(2) [of opts "undisturbed sy" path ls depth i s2 su ru]
        show ?thesis by (simp add: Let_def)
      next
        case (Some y)
        with w False Child.prems(2) show ?thesis by (simp add: Let_def)
      qed
      moreover have "st' = s1" "r = Some x" using v Some False Child.prems(1) by (simp_all add: Let_def)
      ultimately show ?thesis using agree by (auto intro: prefix_order.trans)
    qed
  qed
qed

text \<open>
  C30. A walk that is interrupted has emitted a prefix of what the same walk would have emitted
  undisturbed, and a walk that reports no error has emitted all of it: an interrupt never
  reorders or drops an entry, and a cancellation that came too late changes nothing.
\<close>

theorem cancelled_walk_is_prefix:
  assumes "walk_scan opts sy t = (st, r)" and "walk_scan opts (undisturbed sy) t = (su, ru)"
  shows "prefix (ws_out st) (ws_out su) \<and> (r = None \<longrightarrow> st = su)"
proof -
  obtain info link ls err where t: "t = Tree info link ls err" by (cases t)
  show ?thesis
    using visit_agrees(1) [of opts sy "clean (wo_root opts)" t 0 "probe_dev info" walk_start st r su ru] assms
    by (auto simp: t walk_scan_def)
qed

theorem cancelled_walk_is_prefix_witness:
  "prefix (ws_out (fst (walk_scan (sample_walk MountSame) (nfs_system\<lparr>sy_cancelled := (\<lambda>k. 5 \<le> k)\<rparr>) (wrapping_tree 1))))
     (ws_out (fst (walk_scan (sample_walk MountSame) nfs_system (wrapping_tree 1))))"
proof -
  let ?sy = "nfs_system\<lparr>sy_cancelled := (\<lambda>k. 5 \<le> k)\<rparr>"
  have "undisturbed ?sy = nfs_system" by (simp add: undisturbed_def nfs_system_def)
  then show ?thesis
    using cancelled_walk_is_prefix [of "sample_walk MountSame" ?sy "wrapping_tree 1" _ _,
        OF prod.collapse [symmetric] prod.collapse [symmetric]] by simp
qed

section \<open>The counters\<close>

lemma count_entry_simps:
  "scan_total (count_entry s e) = Suc (scan_total s)"
  "sc_errors (count_entry s e) = sc_errors s + (if e_err e \<noteq> [] then 1 else 0)"
  "sc_hashed (count_entry s e) = sc_hashed s + (if e_hashed e then 1 else 0)"
  "sc_partial (count_entry s e) = sc_partial s + (if e_partial e then 1 else 0)"
  by (simp_all add: count_entry_def Let_def scan_total_def)

lemma consume_stats:
  "consume emit xs s w = (s', x, w') \<Longrightarrow>
   \<exists>ys zs. xs = ys @ zs \<and> (x = None \<longrightarrow> zs = []) \<and>
     w' = foldl (\<lambda>w e. fst (emit w e)) w ys \<and>
     scan_total s' = scan_total s + length ys \<and>
     sc_errors s' = sc_errors s + length (filter (\<lambda>e. e_err e \<noteq> []) ys) \<and>
     sc_hashed s' = sc_hashed s + length (filter e_hashed ys) \<and>
     sc_partial s' = sc_partial s + length (filter e_partial ys)"
proof (induction xs arbitrary: s w)
  case Nil
  then show ?case by simp
next
  case (Cons e es)
  obtain w1 r where r: "emit w e = (w1, r)" by (cases "emit w e")
  show ?case
  proof (cases r)
    case None
    with Cons.prems r have "consume emit es (count_entry s e) w1 = (s', x, w')" by (simp add: Let_def)
    from Cons.IH [OF this] obtain ys zs where "es = ys @ zs" "x = None \<longrightarrow> zs = []"
      "w' = foldl (\<lambda>w e. fst (emit w e)) w1 ys"
      "scan_total s' = Suc (scan_total s) + length ys"
      "sc_errors s' = sc_errors (count_entry s e) + length (filter (\<lambda>e. e_err e \<noteq> []) ys)"
      "sc_hashed s' = sc_hashed (count_entry s e) + length (filter e_hashed ys)"
      "sc_partial s' = sc_partial (count_entry s e) + length (filter e_partial ys)"
      by (auto simp: count_entry_simps(1))
    with r show ?thesis
      by (intro exI [of _ "e # ys"] exI [of _ zs]) (simp add: count_entry_simps)
  next
    case (Some y)
    with Cons.prems r show ?thesis
      by (intro exI [of _ "[e]"] exI [of _ es]) (auto simp: Let_def count_entry_simps)
  qed
qed

text \<open>
  The summary of a scan accounts for every entry: \<open>Walk\<close> hands the callback the entries
  in order, each once, until it fails or there are no more; the total and the counters of
  unreadable, hashed and skipped files are those of exactly the entries handed over; and the
  error of the callback is what \<open>Walk\<close> returns.
\<close>

theorem walk_stats_account:
  assumes "walk opts sy (Inr t) emit w = (s, r, w')" and "r \<noteq> Some RootNotDir"
  shows "\<exists>ys zs. ws_out (fst (walk_scan (set_defaults (sy_num_cpu sy) opts) sy t)) = ys @ zs \<and>
    ((\<forall>x. r \<noteq> Some (WalkEmit x)) \<longrightarrow> zs = []) \<and> w' = foldl (\<lambda>w e. fst (emit w e)) w ys \<and>
    scan_total s = length ys \<and> sc_errors s = length (filter (\<lambda>e. e_err e \<noteq> []) ys) \<and>
    sc_hashed s = length (filter e_hashed ys) \<and> sc_partial s = length (filter e_partial ys)"
proof -
  let ?o = "set_defaults (sy_num_cpu sy) opts"
  obtain info link ls err where t: "t = Tree info link ls err" by (cases t)
  obtain st we where st: "walk_scan ?o sy t = (st, we)" by (cases "walk_scan ?o sy t")
  obtain s1 x w1 where c: "consume emit (ws_out st) no_stats w = (s1, x, w1)"
    by (cases "consume emit (ws_out st) no_stats w")
  have d: "info_is_dir info"
    using assms by (auto simp: walk_def Let_def t split: if_splits)
  have s: "s = s1\<lparr>sc_pruned := ws_pruned st, sc_skipped := ws_skipped st\<rparr>" "w' = w1"
    "(\<forall>x. r \<noteq> Some (WalkEmit x)) \<longrightarrow> x = None"
    using assms(1) d st c by (auto simp: walk_def Let_def t split: option.splits)
  from consume_stats [OF c] obtain ys zs where "ws_out st = ys @ zs" "x = None \<longrightarrow> zs = []"
     "w1 = foldl (\<lambda>w e. fst (emit w e)) w ys" "scan_total s1 = length ys"
     "sc_errors s1 = length (filter (\<lambda>e. e_err e \<noteq> []) ys)"
     "sc_hashed s1 = length (filter e_hashed ys)" "sc_partial s1 = length (filter e_partial ys)"
    by (auto simp: no_stats_def scan_total_def)
  with s show ?thesis
    by (intro exI [of _ ys] exI [of _ zs]) (auto simp: st scan_total_def)
qed

theorem walk_stats_account_witness:
  "\<exists>ys zs. ws_out (fst (walk_scan (set_defaults 1 (sample_walk MountSame)) nfs_system (wrapping_tree 1))) = ys @ zs \<and>
     scan_total (fst (walk (sample_walk MountSame) nfs_system (Inr (wrapping_tree 1))
       (\<lambda>w e. (w @ [e_path e], None :: unit option)) [])) = length ys"
proof -
  let ?emit = "\<lambda>w e. (w @ [e_path e], None :: unit option)"
  obtain s r w' where w: "walk (sample_walk MountSame) nfs_system (Inr (wrapping_tree 1)) ?emit [] = (s, r, w')"
    by (cases "walk (sample_walk MountSame) nfs_system (Inr (wrapping_tree 1)) ?emit []")
  have "info_is_dir (info_on 1 (mode_dir OR 0x1ED))" by code_simp
  with w have "r \<noteq> Some RootNotDir"
    by (auto simp: walk_def wrapping_tree_def dir_on_def Let_def split: prod.splits option.splits)
  moreover have "sy_num_cpu nfs_system = 1" by (simp add: nfs_system_def)
  ultimately obtain ys zs
    where "ws_out (fst (walk_scan (set_defaults 1 (sample_walk MountSame)) nfs_system (wrapping_tree 1))) = ys @ zs"
      "scan_total s = length ys"
    using walk_stats_account [OF w] by auto
  then show ?thesis by (intro exI [of _ ys] exI [of _ zs]) (simp add: w)
qed

section \<open>Two defects\<close>

text \<open>
  C29. \<open>visit\<close> reads \<open>e.Dev\<close> of the parent directory after the cell of the parent was committed,
  although the code says that the cell must not be read from there on. Once the ring has
  handed the cell out again, the device compared with is the one of another entry. On the
  same tree of one device, \<open>--mounts=same\<close> then takes an ordinary directory for a mount
  point and leaves its contents out of the fingerprint; and under the default policy the walk
  enters a network share, because the cell holds the entry of another mount of that share.
  Without the reuse of the cell it would have been otherwise in both cases.
\<close>

theorem recycled_cell_misreads_device:
  "''/n/f'' \<notin> e_path ` set (ws_out (fst (walk_scan (sample_walk MountSame) nfs_system (wrapping_tree 1)))) \<and>
   ''/n/f'' \<in> e_path ` set (expected (sample_walk MountSame) nfs_system ''/'' (wrapping_tree 1) 0 1) \<and>
   ''/n/f'' \<in> e_path ` set (ws_out (fst (walk_scan (sample_walk MountLocal) nfs_system (wrapping_tree 9)))) \<and>
   ''/n/f'' \<notin> e_path ` set (expected (sample_walk MountLocal) nfs_system ''/'' (wrapping_tree 9) 0 1)"
proof -
  have a: "map e_path (expected (sample_walk MountSame) nfs_system ''/'' (wrapping_tree 1) 0 1) =
      [''/'', ''/a'', ''/b'', ''/c'', ''/m'', ''/n'', ''/n/f'']" by code_simp
  have b: "map e_path (expected (sample_walk MountLocal) nfs_system ''/'' (wrapping_tree 9) 0 1) =
      [''/'', ''/a'', ''/b'', ''/c'', ''/m'', ''/n'']" by code_simp
  note m = sample_scan_same sample_scan_local a b
  from m [THEN arg_cong [of _ _ set]] show ?thesis by simp
qed

text \<open>
  The order of the walk needs an absolute root, which nothing enforces: below the root
  \<open>.\<close> the paths do not start with the path of the root, and a name that starts with a byte
  below the dot sorts before it. The walk then leaves canonical order at its second entry, so
  \<open>baseline --root .\<close> fails with the writer's error.
\<close>

theorem relative_root_leaves_order:
  "\<not> increasing_entries (ws_out (fst (walk_scan ((sample_walk MountLocal)\<lparr>wo_root := ''.''\<rparr>) nfs_system
       (dir_on 1 (Child ''+x'' (file_on 1) NoMore)))))"
proof -
  have "map e_path (ws_out (fst (walk_scan ((sample_walk MountLocal)\<lparr>wo_root := ''.''\<rparr>) nfs_system
       (dir_on 1 (Child ''+x'' (file_on 1) NoMore))))) = [''.'', ''+x'']" by code_simp
  then show ?thesis by (simp add: less_char_def)
qed

end
