(* ===== verification/Scan_Ring.thy ===== *)
theory Scan_Ring
  imports Scan_Walk
begin

text \<open>
  \<open>internal/scan/reorder.go\<close> and the worker pool of \<open>hash.go\<close> as a step relation: the
  walker, the workers and the consumer of \<open>Walk\<close> take steps in any order. A channel is the
  list of the cells in it. The walker fills the next free cell with the next entry of its
  walk, hands it to a worker when it is to be hashed, and commits it; a worker replaces the
  entry of its cell by the hashed one; the consumer takes a committed cell, waits for its
  worker, emits the entry and releases the cell. The walker notices a cancelled context when
  it waits for a free cell or for a worker, and takes no further step.

  \<open>rg_held\<close> is the cell the walker holds and whether it has been sent to a worker;
  \<open>rg_busy\<close> are the cells whose \<open>WaitGroup\<close> is not back at zero.
\<close>

section \<open>The system\<close>

record 'e ring_state =
  rg_free :: "nat list"
  rg_ordered :: "nat list"
  rg_held :: "(nat \<times> bool) option"
  rg_busy :: "nat set"
  rg_taken :: "nat option"
  rg_cells :: "nat \<Rightarrow> 'e"
  rg_input :: "'e list"
  rg_output :: "'e list"
  rg_stopped :: bool

definition new_ring :: "nat \<Rightarrow> 'e list \<Rightarrow> (nat \<Rightarrow> 'e) \<Rightarrow> 'e ring_state" where
  "new_ring n input cells =
     \<lparr>rg_free = [0 ..< n], rg_ordered = [], rg_held = None, rg_busy = {}, rg_taken = None,
      rg_cells = cells, rg_input = input, rg_output = [], rg_stopped = False\<rparr>"

text \<open>The pool: \<open>submit\<close> hands a cell to an idle worker, \<open>run\<close> hashes one cell.\<close>

inductive hasher_step ::
    "nat \<Rightarrow> ('e \<Rightarrow> bool) \<Rightarrow> ('e \<Rightarrow> 'e) \<Rightarrow> 'e ring_state \<Rightarrow> 'e ring_state \<Rightarrow> bool"
  for jobs :: nat and wants :: "'e \<Rightarrow> bool" and hash :: "'e \<Rightarrow> 'e" where
  submit: "\<not> rg_stopped s \<Longrightarrow> rg_held s = Some (i, False) \<Longrightarrow> wants (rg_cells s i) \<Longrightarrow>
     card (rg_busy s) < jobs \<Longrightarrow>
     hasher_step jobs wants hash s (s\<lparr>rg_held := Some (i, True), rg_busy := insert i (rg_busy s)\<rparr>)"
| worker: "i \<in> rg_busy s \<Longrightarrow>
     hasher_step jobs wants hash s (s\<lparr>rg_busy := rg_busy s - {i},
       rg_cells := (rg_cells s)(i := hash (rg_cells s i))\<rparr>)"

text \<open>The whole: the channels of the ring, the consumer of \<open>Walk\<close>, and the pool.\<close>

inductive ring_step ::
    "nat \<Rightarrow> nat \<Rightarrow> ('e \<Rightarrow> bool) \<Rightarrow> ('e \<Rightarrow> 'e) \<Rightarrow> 'e ring_state \<Rightarrow> 'e ring_state \<Rightarrow> bool"
  for n jobs :: nat and wants :: "'e \<Rightarrow> bool" and hash :: "'e \<Rightarrow> 'e" where
  acquire: "\<not> rg_stopped s \<Longrightarrow> rg_held s = None \<Longrightarrow> rg_free s = i # fs \<Longrightarrow> rg_input s = e # es \<Longrightarrow>
     ring_step n jobs wants hash s (s\<lparr>rg_free := fs, rg_input := es, rg_held := Some (i, False),
       rg_cells := (rg_cells s)(i := e)\<rparr>)"
| commit: "\<not> rg_stopped s \<Longrightarrow> rg_held s = Some (i, sent) \<Longrightarrow> sent \<or> \<not> wants (rg_cells s i) \<Longrightarrow>
     length (rg_ordered s) < n \<Longrightarrow>
     ring_step n jobs wants hash s (s\<lparr>rg_held := None, rg_ordered := rg_ordered s @ [i]\<rparr>)"
| hasher: "hasher_step jobs wants hash s t \<Longrightarrow> ring_step n jobs wants hash s t"
| receive: "rg_taken s = None \<Longrightarrow> rg_ordered s = i # os \<Longrightarrow>
     ring_step n jobs wants hash s (s\<lparr>rg_ordered := os, rg_taken := Some i\<rparr>)"
| release: "rg_taken s = Some i \<Longrightarrow> i \<notin> rg_busy s \<Longrightarrow> length (rg_free s) < n \<Longrightarrow>
     ring_step n jobs wants hash s (s\<lparr>rg_taken := None, rg_free := rg_free s @ [i],
       rg_output := rg_output s @ [rg_cells s i]\<rparr>)"
| cancel: "\<not> rg_stopped s \<Longrightarrow>
     rg_held s = None \<and> rg_input s \<noteq> [] \<or> (\<exists>i. rg_held s = Some (i, False) \<and> wants (rg_cells s i)) \<Longrightarrow>
     ring_step n jobs wants hash s (s\<lparr>rg_stopped := True\<rparr>)"

text \<open>The walker has finished, and everything it committed has been consumed.\<close>

definition ring_done :: "'e ring_state \<Rightarrow> bool" where
  "ring_done s \<longleftrightarrow> (rg_stopped s \<or> rg_input s = [] \<and> rg_held s = None) \<and>
     rg_ordered s = [] \<and> rg_taken s = None"

section \<open>The invariant\<close>

definition in_flight :: "'e ring_state \<Rightarrow> nat list" where
  "in_flight s = (case rg_taken s of None \<Rightarrow> [] | Some i \<Rightarrow> [i]) @ rg_ordered s"

definition held_cells :: "'e ring_state \<Rightarrow> nat list" where
  "held_cells s = (case rg_held s of None \<Rightarrow> [] | Some (i, _) \<Rightarrow> [i])"

definition finish :: "('e \<Rightarrow> bool) \<Rightarrow> ('e \<Rightarrow> 'e) \<Rightarrow> 'e \<Rightarrow> 'e" where
  "finish wants hash e = (if wants e then hash e else e)"

text \<open>What a cell will hold when its worker is done.\<close>

definition settled :: "('e \<Rightarrow> 'e) \<Rightarrow> 'e ring_state \<Rightarrow> nat \<Rightarrow> 'e" where
  "settled hash s i = (if i \<in> rg_busy s then hash (rg_cells s i) else rg_cells s i)"

definition held_entry :: "('e \<Rightarrow> bool) \<Rightarrow> ('e \<Rightarrow> 'e) \<Rightarrow> 'e ring_state \<Rightarrow> 'e list" where
  "held_entry wants hash s =
     (case rg_held s of
        None \<Rightarrow> []
      | Some (i, sent) \<Rightarrow> [if sent then settled hash s i else finish wants hash (rg_cells s i)])"

definition ring_inv :: "nat \<Rightarrow> nat \<Rightarrow> ('e \<Rightarrow> bool) \<Rightarrow> ('e \<Rightarrow> 'e) \<Rightarrow> 'e list \<Rightarrow> 'e ring_state \<Rightarrow> bool" where
  "ring_inv n jobs wants hash xs s \<longleftrightarrow>
     in_flight s @ held_cells s @ rg_free s = rotate (length (rg_output s)) [0 ..< n] \<and>
     rg_busy s \<subseteq> set (in_flight s) \<union> {i. rg_held s = Some (i, True)} \<and>
     card (rg_busy s) \<le> jobs \<and> (\<forall>i. rg_stopped s \<longrightarrow> rg_held s \<noteq> Some (i, True)) \<and>
     rg_output s @ map (settled hash s) (in_flight s) @ held_entry wants hash s
       @ map (finish wants hash) (rg_input s) = map (finish wants hash) xs"

lemma ring_inv_new: "ring_inv n jobs wants hash xs (new_ring n xs cells)"
  by (simp add: ring_inv_def new_ring_def in_flight_def held_cells_def held_entry_def)

lemma ring_inv_distinct:
  "ring_inv n jobs wants hash xs s \<Longrightarrow> distinct (in_flight s @ held_cells s @ rg_free s)"
  by (simp only: ring_inv_def) (simp add: distinct_rotate)

lemma ring_inv_length:
  "ring_inv n jobs wants hash xs s \<Longrightarrow>
   length (in_flight s) + length (held_cells s) + length (rg_free s) = n"
proof -
  assume "ring_inv n jobs wants hash xs s"
  then have "length (in_flight s @ held_cells s @ rg_free s) = length (rotate (length (rg_output s)) [0 ..< n])"
    by (simp only: ring_inv_def)
  then show ?thesis by simp
qed

lemma finite_busy: "ring_inv n jobs wants hash xs s \<Longrightarrow> finite (rg_busy s)"
  by (rule finite_subset [of _ "set (in_flight s) \<union> set (held_cells s)"])
    (auto simp: ring_inv_def held_cells_def split: option.splits)

lemmas ring_inv_defs = ring_inv_def in_flight_def held_cells_def held_entry_def

text \<open>Every step of the walker, a worker or the consumer keeps the invariant.\<close>

lemma hasher_step_inv:
  assumes "hasher_step jobs wants hash s t" and inv: "ring_inv n jobs wants hash xs s"
  shows "ring_inv n jobs wants hash xs t"
proof -
  note d = ring_inv_distinct [OF inv] and fin = finite_busy [OF inv]
  have sub: "rg_busy s \<subseteq> set (in_flight s) \<union> set (held_cells s)"
  proof -
    have "{i. rg_held s = Some (i, True)} \<subseteq> set (held_cells s)" by (auto simp: held_cells_def)
    with inv show ?thesis unfolding ring_inv_def by blast
  qed
  from assms(1) show ?thesis
  proof cases
    case (submit i)
    then have i: "i \<notin> set (in_flight s)" using d by (auto simp: held_cells_def)
    have m: "map (settled hash t) (in_flight s) = map (settled hash s) (in_flight s)"
      using i submit by (auto simp: settled_def)
    have f: "in_flight t = in_flight s" using submit by (simp add: in_flight_def)
    have "settled hash t i = finish wants hash (rg_cells s i)"
      using submit by (simp add: settled_def finish_def)
    moreover have "card (insert i (rg_busy s)) \<le> jobs"
      using submit(5) fin by (simp add: card_insert_if)
    moreover have "rg_busy t \<subseteq> set (in_flight s) \<union> {j. rg_held t = Some (j, True)}"
      using inv submit by (auto simp: ring_inv_def)
    ultimately show ?thesis
      using inv m f submit by (simp add: ring_inv_def held_cells_def held_entry_def cong: map_cong)
  next
    case (worker i)
    have m: "settled hash t = settled hash s" using worker by (auto simp: settled_def fun_eq_iff)
    have f: "in_flight t = in_flight s" "held_cells t = held_cells s"
      using worker by (simp_all add: in_flight_def held_cells_def)
    have h: "held_entry wants hash t = held_entry wants hash s"
    proof (cases "rg_held s")
      case None
      with worker show ?thesis by (simp add: held_entry_def)
    next
      case (Some p)
      obtain j b where p: "p = (j, b)" by (cases p)
      have "b \<or> j \<noteq> i"
      proof (rule ccontr)
        assume "\<not> (b \<or> j \<noteq> i)"
        with Some p worker inv have "i \<in> set (in_flight s)" "i \<in> set (held_cells s)"
          by (auto simp: ring_inv_def held_cells_def)
        with d show False by auto
      qed
      with Some p m worker show ?thesis by (auto simp: held_entry_def)
    qed
    have "card (rg_busy t) \<le> card (rg_busy s)"
      using worker fin by (simp add: card_mono subset_insertI2)
    with inv f h m worker show ?thesis
      by (auto simp: ring_inv_def)
  qed
qed

lemma ring_step_inv:
  assumes "ring_step n jobs wants hash s t" and inv: "ring_inv n jobs wants hash xs s"
  shows "ring_inv n jobs wants hash xs t"
proof -
  note d = ring_inv_distinct [OF inv] and fin = finite_busy [OF inv]
  have sub: "rg_busy s \<subseteq> set (in_flight s) \<union> set (held_cells s)"
  proof -
    have "{i. rg_held s = Some (i, True)} \<subseteq> set (held_cells s)" by (auto simp: held_cells_def)
    with inv show ?thesis unfolding ring_inv_def by blast
  qed
  from assms(1) show ?thesis
  proof cases
    case (acquire i fs e es)
    then have i: "i \<notin> set (in_flight s)" "i \<notin> rg_busy s"
      using d sub by (auto simp: held_cells_def)
    have m: "map (settled hash t) (in_flight s) = map (settled hash s) (in_flight s)"
      using i acquire by (auto simp: settled_def)
    have f: "in_flight t = in_flight s" using acquire by (simp add: in_flight_def)
    show ?thesis
      using inv i m f acquire by (simp add: ring_inv_def held_cells_def held_entry_def cong: map_cong)
  next
    case (commit i sent)
    then have i: "i \<notin> set (in_flight s)" using d by (auto simp: held_cells_def)
    have f: "in_flight t = in_flight s @ [i]" using commit by (simp add: in_flight_def)
    have m: "settled hash t = settled hash s" using commit by (auto simp: settled_def fun_eq_iff)
    have "held_entry wants hash s = [settled hash s i]"
    proof (cases sent)
      case True
      with commit show ?thesis by (simp add: held_entry_def)
    next
      case False
      then have "i \<notin> rg_busy s" using i inv commit by (auto simp: ring_inv_def)
      with False commit show ?thesis by (simp add: held_entry_def finish_def settled_def)
    qed
    moreover have "rg_busy t \<subseteq> set (in_flight t)"
      using inv commit f by (auto simp: ring_inv_def)
    ultimately show ?thesis
      using inv m f commit by (simp add: ring_inv_def held_cells_def held_entry_def)
  next
    case hasher
    then show ?thesis using hasher_step_inv inv by blast
  next
    case (receive i os)
    then have f: "in_flight t = in_flight s" by (simp add: in_flight_def)
    have "settled hash t = settled hash s" "held_entry wants hash t = held_entry wants hash s"
      using receive by (auto simp: settled_def held_entry_def fun_eq_iff split: option.splits)
    with inv f receive show ?thesis by (simp add: ring_inv_def held_cells_def)
  next
    case (release i)
    then have f: "in_flight s = i # in_flight t" by (simp add: in_flight_def)
    have m: "settled hash t = settled hash s" "held_entry wants hash t = held_entry wants hash s"
      using release by (auto simp: settled_def held_entry_def fun_eq_iff split: option.splits)
    have h: "held_cells t = held_cells s" using release by (simp add: held_cells_def)
    have "rotate (length (rg_output s)) [0 ..< n] = i # in_flight t @ held_cells s @ rg_free s"
      using inv f unfolding ring_inv_def by simp
    then have "rotate (length (rg_output t)) [0 ..< n] = in_flight t @ held_cells s @ rg_free s @ [i]"
      using release by simp
    then have r: "in_flight t @ held_cells t @ rg_free t = rotate (length (rg_output t)) [0 ..< n]"
      using h release by simp
    have "settled hash s i = rg_cells s i" using release by (simp add: settled_def)
    with inv f m r release show ?thesis by (auto simp: ring_inv_def)
  next
    case cancel
    have "in_flight t = in_flight s" "settled hash t = settled hash s"
        "held_entry wants hash t = held_entry wants hash s" "held_cells t = held_cells s"
      using cancel by (auto simp: in_flight_def settled_def held_entry_def held_cells_def fun_eq_iff split: option.splits)
    moreover have "\<forall>i. rg_held s \<noteq> Some (i, True)" using cancel by auto
    ultimately show ?thesis using inv cancel by (simp add: ring_inv_def)
  qed
qed

abbreviation ring_run ::
    "nat \<Rightarrow> nat \<Rightarrow> ('e \<Rightarrow> bool) \<Rightarrow> ('e \<Rightarrow> 'e) \<Rightarrow> 'e ring_state \<Rightarrow> 'e ring_state \<Rightarrow> bool" where
  "ring_run n jobs wants hash \<equiv> (ring_step n jobs wants hash)\<^sup>*\<^sup>*"

lemma ring_run_inv:
  "ring_run n jobs wants hash (new_ring n xs cells) s \<Longrightarrow> ring_inv n jobs wants hash xs s"
  by (induction rule: rtranclp_induct) (auto intro: ring_step_inv ring_inv_new)

section \<open>Progress and termination\<close>

lemma length_in_flight: "length (in_flight s) = (if rg_taken s = None then 0 else 1) + length (rg_ordered s)"
  by (simp add: in_flight_def split: option.splits)

lemma ring_progress:
  assumes inv: "ring_inv n jobs wants hash xs s" and "\<not> ring_done s" and "0 < n" and "0 < jobs"
  shows "\<exists>t. ring_step n jobs wants hash s t"
proof (cases "rg_taken s")
  case (Some i)
  show ?thesis
  proof (cases "i \<in> rg_busy s")
    case True
    then show ?thesis by (blast intro: ring_step.hasher hasher_step.worker)
  next
    case False
    have "length (rg_free s) < n" using ring_inv_length [OF inv] Some by (simp add: length_in_flight)
    with Some False show ?thesis by (blast intro: ring_step.release)
  qed
next
  case none: None
  show ?thesis
  proof (cases "rg_ordered s")
    case (Cons i os)
    with none show ?thesis by (blast intro: ring_step.receive)
  next
    case Nil
    with none have f: "in_flight s = []" by (simp add: in_flight_def)
    have run: "\<not> rg_stopped s" "rg_input s \<noteq> [] \<or> rg_held s \<noteq> None"
      using assms(2) none Nil by (auto simp: ring_done_def)
    show ?thesis
    proof (cases "rg_held s")
      case None
      with run obtain e es where e: "rg_input s = e # es" by (auto simp: neq_Nil_conv)
      have "rg_free s \<noteq> []" using ring_inv_length [OF inv] f None assms(3) by (auto simp: held_cells_def)
      then obtain i fs where "rg_free s = i # fs" by (auto simp: neq_Nil_conv)
      with run None e show ?thesis by (blast intro: ring_step.acquire)
    next
      case (Some p)
      obtain i sent where p: "p = (i, sent)" by (cases p)
      show ?thesis
      proof (cases "sent \<or> \<not> wants (rg_cells s i)")
        case True
        have "length (rg_ordered s) < n" using Nil assms(3) by simp
        with run Some p True show ?thesis by (blast intro: ring_step.commit)
      next
        case False
        have "rg_busy s = {}" using inv f Some p False by (auto simp: ring_inv_def)
        with assms(4) have "card (rg_busy s) < jobs" by simp
        then show ?thesis using ring_step.hasher [OF hasher_step.submit [of s i wants jobs hash]] run Some p False by auto
      qed
    qed
  qed
qed

text \<open>Steps left: seven at most for an entry from its acquisition to its release.\<close>

definition steps_left :: "'e ring_state \<Rightarrow> nat" where
  "steps_left s =
     7 * length (rg_input s)
     + (case rg_held s of None \<Rightarrow> 0 | Some (i, sent) \<Rightarrow> if sent then 4 else 6)
     + card (rg_busy s) + 3 * length (rg_ordered s)
     + (if rg_taken s = None then 0 else 2) + (if rg_stopped s then 0 else 1)"

lemma steps_left_decreases:
  assumes "ring_step n jobs wants hash s t" and inv: "ring_inv n jobs wants hash xs s"
  shows "steps_left t < steps_left s"
  using assms(1)
proof cases
  case hasher
  then show ?thesis
  proof cases
    case (submit i)
    then show ?thesis using finite_busy [OF inv] by (simp add: steps_left_def card_insert_if)
  next
    case (worker i)
    then have "card (rg_busy s - {i}) < card (rg_busy s)"
      using finite_busy [OF inv] by (intro card_Diff1_less)
    with worker show ?thesis by (simp add: steps_left_def)
  qed
qed (simp_all add: steps_left_def)

lemma ring_steps_bound:
  "(ring_step n jobs wants hash ^^ k) (new_ring n xs cells) s \<Longrightarrow>
   ring_inv n jobs wants hash xs s \<and> k + steps_left s \<le> 7 * length xs + 1"
proof (induction k arbitrary: s)
  case 0
  then show ?case by (auto simp: ring_inv_new) (simp add: steps_left_def new_ring_def)
next
  case (Suc k)
  then obtain r where r: "(ring_step n jobs wants hash ^^ k) (new_ring n xs cells) r"
    "ring_step n jobs wants hash r s" by auto
  with Suc.IH [OF r(1)] steps_left_decreases [OF r(2)] ring_step_inv [OF r(2)] show ?case by fastforce
qed

lemma ring_done_stuck:
  assumes "ring_inv n jobs wants hash xs s" and "ring_done s"
  shows "\<not> ring_step n jobs wants hash s t"
proof
  assume "ring_step n jobs wants hash s t"
  moreover have "rg_busy s = {}"
    using assms by (auto simp: ring_inv_def ring_done_def in_flight_def)
  ultimately show False
    using assms(2) by (cases rule: ring_step.cases) (auto simp: ring_done_def elim: hasher_step.cases)
qed

lemma ring_inv_prefix: "ring_inv n jobs wants hash xs s \<Longrightarrow> prefix (rg_output s) (map (finish wants hash) xs)"
  unfolding ring_inv_def using prefixI by metis

lemma ring_done_output:
  "ring_inv n jobs wants hash xs s \<Longrightarrow> ring_done s \<Longrightarrow> \<not> rg_stopped s \<Longrightarrow>
   rg_output s = map (finish wants hash) xs"
  by (auto simp: ring_inv_def ring_done_def in_flight_def held_entry_def)

section \<open>The scan\<close>

text \<open>The instance of the scan: what \<open>visit\<close> hands over, and what \<open>hashEntry\<close> makes of it.\<close>

abbreviation scan_step :: "walk_options \<Rightarrow> system \<Rightarrow> entry ring_state \<Rightarrow> entry ring_state \<Rightarrow> bool" where
  "scan_step opts sy \<equiv>
     ring_step (ring_size opts) (nat (wo_jobs opts)) (wants_hash opts)
       (hash_entry sy (wo_max_file_size opts))"

definition scan_ring :: "walk_options \<Rightarrow> entry list \<Rightarrow> entry ring_state" where
  "scan_ring opts es = new_ring (ring_size opts) es (\<lambda>_. zero_entry)"

lemma finish_finished: "finish (wants_hash opts) (hash_entry sy (wo_max_file_size opts)) = finished opts sy"
  by (auto simp: finish_def finished_def fun_eq_iff)

lemma scan_ring_steps:
  "(scan_step opts sy ^^ k) (scan_ring opts es) s \<Longrightarrow>
   ring_inv (ring_size opts) (nat (wo_jobs opts)) (wants_hash opts)
     (hash_entry sy (wo_max_file_size opts)) es s \<and> k + steps_left s \<le> 7 * length es + 1"
  unfolding scan_ring_def by (rule ring_steps_bound)

text \<open>
  C26. However the walker, the workers and the consumer are scheduled, the pipeline delivers the
  entries in walk order, each with its own hash: after any number of steps the consumer has
  received a prefix of the finished entries; the system can always take a step until the
  walker has stopped and everything committed has been consumed; there are at most seven
  steps per entry and one more, so it does stop; and unless the context was cancelled, the
  consumer has then received every entry.
\<close>

theorem ring_delivers_in_order:
  assumes "0 < wo_jobs opts" and "(scan_step opts sy ^^ k) (scan_ring opts es) s"
  shows "k \<le> 7 * length es + 1 \<and> prefix (rg_output s) (map (finished opts sy) es) \<and>
    ((\<exists>t. scan_step opts sy s t) \<longleftrightarrow> \<not> ring_done s) \<and>
    (ring_done s \<and> \<not> rg_stopped s \<longrightarrow> rg_output s = map (finished opts sy) es)"
proof -
  note run = scan_ring_steps [OF assms(2)]
  then have inv: "ring_inv (ring_size opts) (nat (wo_jobs opts)) (wants_hash opts)
      (hash_entry sy (wo_max_file_size opts)) es s" by simp
  have n: "0 < ring_size opts" "0 < nat (wo_jobs opts)" using assms(1) by (simp_all add: ring_size_def)
  have "(\<exists>t. scan_step opts sy s t) \<longleftrightarrow> \<not> ring_done s"
    using ring_progress [OF inv _ n] ring_done_stuck [OF inv] by blast
  with run ring_inv_prefix [OF inv] ring_done_output [OF inv] show ?thesis
    by (auto simp: finish_finished)
qed

text \<open>A run of four steps delivers one entry that needs no hash.\<close>

lemma sample_run:
  defines "o' \<equiv> sample_walk MountSame" and "e \<equiv> zero_entry\<lparr>e_path := ''/''\<rparr>"
  shows "\<exists>s. (scan_step o' nfs_system ^^ 4) (scan_ring o' [e]) s \<and> ring_done s \<and> \<not> rg_stopped s"
proof -
  have w: "ring_size o' = 4" "\<not> wants_hash o' e" by (simp_all add: o'_def sample_walk_def ring_size_def wants_hash_def)
  have n: "[0 ..< 4] = [0, 1, 2, 3 :: nat]" by (simp add: upt_rec)
  define r0 where "r0 = scan_ring o' [e]"
  define r1 where "r1 = r0\<lparr>rg_free := [1, 2, 3], rg_input := [], rg_held := Some (0, False), rg_cells := (rg_cells r0)(0 := e)\<rparr>"
  define r2 where "r2 = r1\<lparr>rg_held := None, rg_ordered := [0]\<rparr>"
  define r3 where "r3 = r2\<lparr>rg_ordered := [], rg_taken := Some 0\<rparr>"
  define r4 where "r4 = r3\<lparr>rg_taken := None, rg_free := [1, 2, 3, 0], rg_output := [e]\<rparr>"
  note r = r0_def r1_def r2_def r3_def r4_def scan_ring_def new_ring_def
  have s1: "scan_step o' nfs_system r0 r1"
    using ring_step.acquire [of r0 0 "[1, 2, 3]" e "[]"] w n by (simp add: r)
  have s2: "scan_step o' nfs_system r1 r2"
    using ring_step.commit [of r1 0 False "wants_hash o'" "ring_size o'"] w by (simp add: r)
  have s3: "scan_step o' nfs_system r2 r3"
    using ring_step.receive [of r2 0 "[]"] by (simp add: r)
  have s4: "scan_step o' nfs_system r3 r4"
    using ring_step.release [of r3 0 "ring_size o'"] w by (simp add: r)
  have "(scan_step o' nfs_system ^^ Suc 0) r0 r1" using s1 by (simp add: eq_OO)
  from relpowp_Suc_I [OF relpowp_Suc_I [OF relpowp_Suc_I [OF this s2] s3] s4]
  have "(scan_step o' nfs_system ^^ 4) r0 r4" by (simp only: numeral_eq_Suc pred_numeral_simps BitM.simps)
  moreover have "ring_done r4 \<and> \<not> rg_stopped r4" by (simp add: ring_done_def r)
  ultimately show ?thesis unfolding r0_def by blast
qed

theorem ring_delivers_in_order_witness:
  "\<exists>s. ring_done s \<and>
     rg_output s = [finished (sample_walk MountSame) nfs_system (zero_entry\<lparr>e_path := ''/''\<rparr>)]"
proof -
  obtain s where "(scan_step (sample_walk MountSame) nfs_system ^^ 4)
      (scan_ring (sample_walk MountSame) [zero_entry\<lparr>e_path := ''/''\<rparr>]) s" "ring_done s" "\<not> rg_stopped s"
    using sample_run by blast
  moreover from this(1) have "0 < wo_jobs (sample_walk MountSame)" by (simp add: sample_walk_def)
  ultimately show ?thesis using ring_delivers_in_order by fastforce
qed

text \<open>
  C27. The memory of a scan is bounded by its ring and no cell has two owners: in every reachable
  state the cells being consumed, committed, held and free are all of them, each once; a
  commit and a release never block; no more files than workers are being hashed; and the
  next acquisition gets the cells in turn, the \<open>k\<close>-th one cell \<open>k mod n\<close>, which is how the
  model of the walk numbers them.
\<close>

theorem ring_cells_conserved:
  assumes "(scan_step opts sy ^^ k) (scan_ring opts es) s"
  shows "distinct (in_flight s @ held_cells s @ rg_free s) \<and>
    set (in_flight s @ held_cells s @ rg_free s) = {0 ..< ring_size opts} \<and>
    (rg_held s \<noteq> None \<longrightarrow> length (rg_ordered s) < ring_size opts) \<and>
    (rg_taken s \<noteq> None \<longrightarrow> length (rg_free s) < ring_size opts) \<and>
    card (rg_busy s) \<le> nat (wo_jobs opts) \<and>
    (rg_held s = None \<and> rg_free s \<noteq> [] \<longrightarrow>
       hd (rg_free s) = (length (rg_output s) + length (in_flight s)) mod ring_size opts)"
proof -
  let ?n = "ring_size opts" and ?cs = "in_flight s @ held_cells s @ rg_free s"
  from scan_ring_steps [OF assms]
  have inv: "ring_inv ?n (nat (wo_jobs opts)) (wants_hash opts) (hash_entry sy (wo_max_file_size opts)) es s"
    by simp
  then have r: "?cs = rotate (length (rg_output s)) [0 ..< ?n]" unfolding ring_inv_def by blast
  note len = ring_inv_length [OF inv]
  have "hd (rg_free s) = (length (rg_output s) + length (in_flight s)) mod ?n"
    if h: "rg_held s = None" and f: "rg_free s \<noteq> []"
  proof -
    have c: "held_cells s = []" using h by (simp add: held_cells_def)
    have l: "length (in_flight s) < ?n" using len f c by (cases "rg_free s") auto
    have "hd (rg_free s) = ?cs ! length (in_flight s)" using c f by (simp add: nth_append hd_conv_nth)
    also have "\<dots> = (length (rg_output s) + length (in_flight s)) mod ?n"
      unfolding r using l by (simp add: nth_rotate)
    finally show ?thesis .
  qed
  moreover have "set ?cs = {0 ..< ?n}" unfolding r by simp
  moreover have "rg_held s \<noteq> None \<Longrightarrow> length (rg_ordered s) < ?n"
    using len by (auto simp: held_cells_def length_in_flight split: if_splits)
  moreover have "rg_taken s \<noteq> None \<Longrightarrow> length (rg_free s) < ?n"
    using len by (auto simp: length_in_flight)
  moreover have "card (rg_busy s) \<le> nat (wo_jobs opts)" using inv by (simp add: ring_inv_def)
  ultimately show ?thesis using ring_inv_distinct [OF inv] by blast
qed

theorem ring_cells_conserved_witness:
  "\<exists>s :: entry ring_state. ring_done s \<and> distinct (in_flight s @ held_cells s @ rg_free s)"
proof -
  obtain s where s: "(scan_step (sample_walk MountSame) nfs_system ^^ 4)
      (scan_ring (sample_walk MountSame) [zero_entry\<lparr>e_path := ''/''\<rparr>]) s" "ring_done s"
    using sample_run by blast
  from ring_cells_conserved [OF s(1)] have "distinct (in_flight s @ held_cells s @ rg_free s)" by (rule conjunct1)
  with s(2) show ?thesis by blast
qed

end
