(* ===== verification/Go_Sha256_Vector.thy ===== *)
theory Go_Sha256_Vector
  imports Go_Sha256
begin

text \<open>
  The test vector of FIPS 180-4 for the three bytes \<open>abc\<close>, evaluated by the kernel on the
  definitions of \<open>Go_Sha256\<close>: the constants and the rounds are those of the standard.
\<close>

lemma sha256_abc:
  "sha256 (bytes_of ''abc'') =
     [186, 120, 22, 191, 143, 1, 207, 234, 65, 65, 64, 222, 93, 174, 34, 35,
      176, 3, 97, 163, 150, 23, 122, 156, 180, 16, 255, 97, 242, 0, 21, 173]"
  by code_simp

end
