(* ===== verification/Cmd_Result.thy ===== *)
theory Cmd_Result
  imports Cmd_Info Scan_Result
begin

text \<open>
  What the commands do to the files and what \<open>baseline\<close> leaves behind: the composition of the
  atomic file, the walk and the fingerprint writer, then of the reader. The first part says
  how each command changes the file system, the second part takes a successful \<open>baseline\<close>
  apart and reads its file back.
\<close>

section \<open>Exit codes\<close>

definition cmd_code :: "cmd_error \<Rightarrow> int" where
  "cmd_code e = (case e of CodedError code _ \<Rightarrow> code | _ \<Rightarrow> exit_error)"

lemma cmd_code_simps [simp]:
  "cmd_code (UsageError x) = exit_error" "cmd_code (PlainError y) = exit_error"
  "cmd_code (with_exit code z) = code" "cmd_code (CodedError code z) = code"
  by (simp_all add: cmd_code_def with_exit_def)

lemmas exit_codes = exit_ok_def exit_diff_def exit_error_def exit_privilege_def exit_interrupted_def

lemma outcome_code:
  "fst (outcome cmd e) = (case e of None \<Rightarrow> exit_ok | Some x \<Rightarrow> cmd_code x)"
  by (auto simp: outcome_def cmd_code_def split: option.splits cmd_error.splits flag_error.splits)

text \<open>The errors before a scan starts.\<close>

abbreviation refusal :: "cmd_error \<Rightarrow> bool" where
  "refusal e \<equiv> cmd_code e \<in> {exit_error, exit_privilege}"

lemma check_comparable_refusal: "check_comparable h m info allow = Some e \<Longrightarrow> refusal e"
  by (auto simp: check_comparable_def split: if_splits)

section \<open>Files\<close>

lemma co_fs_print [simp]:
  "co_fs (print_out s c) = co_fs c" "co_fs (print_err s c) = co_fs c"
  by (simp_all add: print_out_def print_err_def)

lemma co_fs_fold [simp]:
  "co_fs (fold print_out out c) = co_fs c" "co_fs (fold print_err out c) = co_fs c"
  by (induction out arbitrary: c) simp_all

lemma co_fs_dropped_note [simp]: "co_fs (dropped_note as s c) = co_fs c"
  by (simp add: dropped_note_def Let_def)

lemma require_root_cases:
  assumes "require_root h allow c = (c', e)"
  shows "co_fs c' = co_fs c \<and> (ho_euid h \<noteq> 0 \<and> \<not> allow \<longrightarrow> c' = c \<and> e = Some (with_exit exit_privilege (Some (MustBeRoot (ho_euid h)))))
    \<and> (ho_euid h = 0 \<or> allow \<longrightarrow> e = None)"
  using assms by (auto simp: require_root_def split: if_splits)

text \<open>Every name has its own inode, and the next inode is not in use.\<close>

definition no_links :: "file_system \<Rightarrow> bool" where
  "no_links fs \<longleftrightarrow>
     (\<forall>a b i. fs_dir fs a = Some i \<and> fs_dir fs b = Some i \<longrightarrow> a = b) \<and>
     (\<forall>a. fs_dir fs a \<noteq> Some (fs_next fs))"

text \<open>The names of a file system read as before, apart from temporary ones.\<close>

definition temporary :: "string \<Rightarrow> bool" where
  "temporary name \<longleftrightarrow> has_suffix name ''.tmp''"

definition same_files :: "file_system \<Rightarrow> file_system \<Rightarrow> bool" where
  "same_files fs fs' \<longleftrightarrow> (\<forall>name. \<not> temporary name \<longrightarrow> fs_read fs' name = fs_read fs name)"

lemma same_files_refl [simp]: "same_files fs fs"
  by (simp add: same_files_def)

text \<open>An open file whose bytes are reachable through its temporary name only.\<close>

definition af_open :: "file_system \<Rightarrow> atomic_file \<Rightarrow> file_system \<Rightarrow> bool" where
  "af_open fs0 a fs \<longleftrightarrow>
     temporary (af_tmp a) \<and> \<not> af_done a \<and> af_tmp a \<noteq> af_final a \<and> fs_dir fs (af_tmp a) = Some (af_inode a) \<and>
     (\<forall>n. n \<noteq> af_tmp a \<longrightarrow> fs_dir fs n = fs_dir fs0 n \<and> fs_dir fs n \<noteq> Some (af_inode a)) \<and>
     (\<forall>j. j \<noteq> af_inode a \<longrightarrow> fs_data fs j = fs_data fs0 j)"

lemma create_open:
  assumes "create_atomic o' path fs = Inr (a, fs')" and "no_links fs"
  shows "af_open fs a fs' \<and> fs_data fs' (af_inode a) = [] \<and> af_buf a = [] \<and> abs_name o' path = Inr (af_final a)"
proof -
  obtain final where f: "abs_name o' path = Inr final"
    using assms(1) by (auto simp: create_atomic_def split: sum.splits)
  with assms(1) have a: "af_final a = final" "af_tmp a = final @ ''.tmp''" "\<not> af_done a" "af_buf a = []"
    "sys_open_trunc (final @ ''.tmp'') fs = (af_inode a, fs')"
    by (auto simp: create_atomic_def Let_def split: option.splits prod.splits)
  have t: "temporary (final @ ''.tmp'')" by (simp add: temporary_def has_suffix_def has_prefix_def)
  show ?thesis
    using assms(2) a f t
    by (cases "fs_dir fs (final @ ''.tmp'')") (auto simp: sys_open_trunc_def Let_def af_open_def no_links_def)
qed

lemma write_open:
  assumes "af_open fs0 a fs" and "af_write bs k a fs = (a', fs')"
  shows "af_open fs0 a' fs'" "af_final a' = af_final a" "fs_data fs' (af_inode a') @ af_buf a' = fs_data fs (af_inode a) @ af_buf a @ bs"
proof -
  have w: "a' = a\<lparr>af_buf := drop k (af_buf a @ bs)\<rparr>" "fs' = sys_write (af_inode a) (take k (af_buf a @ bs)) fs"
    using assms(2) by (simp_all add: af_write_def Let_def)
  show "af_open fs0 a' fs'" "af_final a' = af_final a"
    using assms(1) unfolding w by (auto simp: af_open_def sys_write_def simp del: append_take_drop_id drop_append take_append)
  show "fs_data fs' (af_inode a') @ af_buf a' = fs_data fs (af_inode a) @ af_buf a @ bs"
    unfolding w by (simp add: sys_write_def del: drop_append take_append)
qed

lemma same_files_open:
  assumes "af_open fs0 a fs"
  shows "same_files fs0 fs"
proof -
  have "fs_read fs n = fs_read fs0 n" if "\<not> temporary n" for n
  proof -
    have "n \<noteq> af_tmp a" using assms that by (auto simp: af_open_def)
    with assms have "fs_dir fs n = fs_dir fs0 n" "\<forall>i. fs_dir fs n = Some i \<longrightarrow> fs_data fs i = fs_data fs0 i"
      by (auto simp: af_open_def)
    then show ?thesis by (cases "fs_dir fs0 n") (simp_all add: fs_read_def)
  qed
  then show ?thesis by (simp add: same_files_def)
qed

lemma open_flushed: "af_open fs0 a fs \<Longrightarrow> af_open fs0 a (sys_write (af_inode a) bs fs)"
  by (auto simp: af_open_def sys_write_def)

lemma open_synced: "af_open fs0 a fs \<Longrightarrow> af_open fs0 a (sys_sync (af_inode a) fs)"
  by (auto simp: af_open_def sys_sync_def)

lemma remove_same:
  assumes "af_open fs0 a fs" and "af_tmp b = af_tmp a"
  shows "same_files fs0 (remove_tmp o' b fs)"
proof (cases "io_error o' IoRemove")
  case None
  have "fs_read (sys_remove (af_tmp a) fs) n = fs_read fs n" if "\<not> temporary n" for n
    using assms(1) that by (auto simp: sys_remove_def fs_read_def af_open_def)
  with None assms same_files_open [OF assms(1)] show ?thesis by (simp add: same_files_def remove_tmp_def)
next
  case (Some x)
  with same_files_open [OF assms(1)] show ?thesis by (simp add: remove_tmp_def)
qed

lemma abort_same:
  assumes "af_open fs0 a fs"
  shows "same_files fs0 (snd (af_abort o' a fs))"
proof -
  have "\<not> af_done a" using assms by (simp add: af_open_def)
  then show ?thesis using remove_same [OF assms, of a] by (simp add: af_abort_def)
qed

text \<open>The directory can be opened and synced, so \<open>Commit\<close> cannot fail after its rename.\<close>

definition dir_syncs :: "io \<Rightarrow> bool" where
  "dir_syncs o' \<longleftrightarrow> io_error o' IoOpenDir = None \<and> io_error o' IoSyncDir = None"

lemma commit_fails_same:
  assumes o: "af_open fs0 a fs" and c: "af_commit o' a fs = (a', fs', Some x)" and d: "dir_syncs o'"
  shows "same_files fs0 fs'"
proof -
  let ?b = "a\<lparr>af_done := True\<rparr>"
  let ?w = "sys_write (af_inode a) (af_buf a) fs"
  have nd: "\<not> af_done a" using o by (simp add: af_open_def)
  note keeps = remove_same [of fs0 a _ ?b]
  consider "io_error o' IoFlush \<noteq> None" | "io_error o' IoFlush = None" "io_error o' IoSync \<noteq> None"
    | "io_error o' IoFlush = None" "io_error o' IoSync = None" by blast
  then show ?thesis
  proof cases
    case 1
    with c nd have "fs' = remove_tmp o' ?b (sys_write (af_inode a) (take (io_flushed o') (af_buf a)) fs)"
      by (auto simp: af_commit_def Let_def)
    with keeps [OF open_flushed [OF o]] show ?thesis by simp
  next
    case 2
    with c nd have "fs' = remove_tmp o' ?b ?w" by (auto simp: af_commit_def Let_def)
    with keeps [OF open_flushed [OF o]] show ?thesis by simp
  next
    case 3
    with c nd d have "fs' = remove_tmp o' ?b (sys_sync (af_inode a) ?w)"
      by (auto simp: af_commit_def Let_def sync_dir_def dir_syncs_def split: option.splits)
    with keeps [OF open_synced [OF open_flushed [OF o]]] show ?thesis by simp
  qed
qed

lemma commit_ok_reads:
  assumes o: "af_open fs0 a fs" and c: "af_commit o' a fs = (a', fs', None)"
  shows "fs_read fs' (af_final a) = Some (fs_data fs (af_inode a) @ af_buf a)"
    and "n \<noteq> af_tmp a \<Longrightarrow> n \<noteq> af_final a \<Longrightarrow> fs_read fs' n = fs_read fs0 n"
proof -
  let ?w = "sys_rename (af_tmp a) (af_final a) (sys_sync (af_inode a) (sys_write (af_inode a) (af_buf a) fs))"
  have fs': "fs' = sys_sync_dir ?w"
    using o c by (auto simp: af_open_def af_commit_def Let_def sync_dir_def split: option.splits)
  have r: "fs_read (sys_sync_dir ?w) m = fs_read ?w m" for m by (simp add: fs_read_def sys_sync_dir_def)
  show "fs_read fs' (af_final a) = Some (fs_data fs (af_inode a) @ af_buf a)"
    using o unfolding fs' r
    by (auto simp add: af_open_def fs_read_def sys_rename_def sys_sync_def sys_write_def)
  show "n \<noteq> af_tmp a \<Longrightarrow> n \<noteq> af_final a \<Longrightarrow> fs_read fs' n = fs_read fs0 n"
    using o unfolding fs' r
    by (cases "fs_dir fs0 n") (auto simp: af_open_def fs_read_def sys_rename_def sys_sync_def sys_write_def)
qed

section \<open>A baseline that fails\<close>

lemma baseline_scan_code:
  "baseline_scan h cd as opts m = (bytes, out, Inl e) \<Longrightarrow> cmd_code e \<in> {exit_error, exit_interrupted}"
  by (auto simp: baseline_scan_def scan_error_def Let_def split: sum.splits prod.splits option.splits)

lemma baseline_file_cases:
  assumes "baseline_file h cd as policy info key target a c = (c', e)"
  obtains (failed) err where "e = Some err" and "cmd_code err \<in> {exit_error, exit_interrupted}"
      and "af_open F a (co_fs c) \<Longrightarrow> dir_syncs (ho_io h) \<Longrightarrow> same_files F (co_fs c')"
  | (finished) s bytes out stats p a1 fs1 a2 where "e = None"
      and "baseline_set h as info a (co_fs c) = Inr s"
      and "baseline_scan h cd as (baseline_options h as policy s)
        (baseline_meta h info key (baseline_options h as policy s) s) = (bytes, out, Inr (stats, p))"
      and "af_write bytes 0 a (co_fs c) = (a1, fs1)" and "af_commit (ho_io h) a1 fs1 = (a2, co_fs c', None)"
proof (cases "baseline_set h as info a (co_fs c)")
  case (Inl x)
  with assms have "co_fs c' = snd (af_abort (ho_io h) a (co_fs c))" "e = Some (PlainError x)"
    by (auto simp: baseline_file_def)
  with abort_same show ?thesis by (intro failed [of "PlainError x"]) auto
next
  case s: (Inr s)
  let ?opts = "baseline_options h as policy s"
  obtain bytes out r where scan: "baseline_scan h cd as ?opts (baseline_meta h info key ?opts s) = (bytes, out, r)"
    by (metis surj_pair)
  obtain a1 fs1 where w: "af_write bytes 0 a (co_fs c) = (a1, fs1)" by (metis surj_pair)
  show ?thesis
  proof (cases r)
    case (Inl x)
    with assms s scan w have "co_fs c' = snd (af_abort (ho_io h) a1 fs1)" "e = Some x"
      by (auto simp: baseline_file_def Let_def)
    with abort_same [OF write_open(1) [OF _ w]] baseline_scan_code [OF scan [unfolded Inl]]
    show ?thesis by (intro failed [of x]) auto
  next
    case (Inr sp)
    obtain stats p where sp: "sp = (stats, p)" by (cases sp)
    obtain a2 fs2 x where m: "af_commit (ho_io h) a1 fs1 = (a2, fs2, x)" by (metis surj_pair)
    have x: "co_fs c' = fs2" "e = map_option (\<lambda>x. PlainError (IoFailed x)) x"
      using assms by (auto simp: baseline_file_def Let_def s scan w Inr sp m split: option.splits)
    show ?thesis
    proof (cases x)
      case None
      from finished [OF _ s scan [unfolded Inr sp] w] m x None show ?thesis by simp
    next
      case (Some y)
      from commit_fails_same [OF write_open(1) [OF _ w] m [unfolded Some]] x Some show ?thesis
        by (intro failed [of "PlainError (IoFailed y)"]) auto
    qed
  qed
qed

text \<open>The way of a command line through \<open>runBaseline\<close>, up to the file.\<close>

definition baseline_target :: "assignments \<Rightarrow> string \<Rightarrow> string" where
  "baseline_target as key =
     (let out = string_flag as ''o'' [] in if out = [] then key @ ''.osfp'' else out)"

lemma run_baseline_cases:
  assumes "run_baseline h cd args c = (c', e)"
  obtains (early) err where "e = Some err" and "refusal err" and "co_fs c' = co_fs c"
  | (target) as policy c1 info key a fs where
      "parse_flags baseline_flags [] args = Inr (as, [])"
      and "parse_mount_policy (string_flag as ''mounts'' ''local'') = Inr policy"
      and "require_root h (bool_flag as ''allow-non-root'') c = (c1, None)" and "co_fs c1 = co_fs c"
      and "identify h (string_flag as ''os-id'' []) = Inr (info, key)"
      and "bool_flag as ''force'' \<or> \<not> stat_exists h (co_fs c) (baseline_target as key)"
      and "create_atomic (ho_io h) (baseline_target as key) (co_fs c) = Inr (a, fs)"
      and "baseline_file h cd as policy info key (baseline_target as key) a (c1\<lparr>co_fs := fs\<rparr>) = (c', e)"
proof (cases "parse_flags baseline_flags [] args")
  case (Inl x)
  with assms early show ?thesis by (auto simp: run_baseline_def)
next
  case (Inr ar)
  obtain as rest where ar: "parse_flags baseline_flags [] args = Inr (as, rest)" using Inr by (cases ar) simp
  obtain c1 e1 where root: "require_root h (bool_flag as ''allow-non-root'') c = (c1, e1)" by (metis surj_pair)
  have c1: "co_fs c1 = co_fs c" using require_root_cases [OF root] by simp
  let ?m = "parse_mount_policy (string_flag as ''mounts'' ''local'')"
  have e1: "\<forall>x. e1 = Some x \<longrightarrow> refusal x" using root by (auto simp: require_root_def split: if_splits)
  show ?thesis
  proof (cases "rest \<noteq> [] \<or> e1 \<noteq> None \<or> (\<exists>x. ?m = Inl x) \<or> (\<exists>x. identify h (string_flag as ''os-id'' []) = Inl x)")
    case True
    with assms ar root c1 e1 have "\<exists>x. e = Some x \<and> refusal x \<and> co_fs c' = co_fs c"
      by (cases ?m; cases "identify h (string_flag as ''os-id'' [])"; cases e1)
        (auto simp: run_baseline_def split: if_splits)
    with early show ?thesis by blast
  next
    case False
    then have rest: "rest = []" "e1 = None" by simp_all
    obtain policy where policy: "?m = Inr policy" using False by (cases ?m) auto
    obtain info key where ident: "identify h (string_flag as ''os-id'' []) = Inr (info, key)"
      using False by (cases "identify h (string_flag as ''os-id'' [])") auto
    let ?t = "baseline_target as key"
    have run: "(if \<not> bool_flag as ''force'' \<and> stat_exists h (co_fs c) ?t
         then (c1, Some (PlainError (TargetExists ?t)))
         else case create_atomic (ho_io h) ?t (co_fs c) of
           Inl x \<Rightarrow> (c1, Some (PlainError (IoFailed x)))
         | Inr (a, fs) \<Rightarrow> baseline_file h cd as policy info key ?t a (c1\<lparr>co_fs := fs\<rparr>)) = (c', e)"
      using assms ar root policy ident unfolding rest run_baseline_def baseline_target_def Let_def
      by (simp add: c1 cong: if_cong split del: if_split)
    show ?thesis
    proof (cases "\<not> bool_flag as ''force'' \<and> stat_exists h (co_fs c) ?t")
      case True
      with run early c1 show ?thesis by auto
    next
      case free: False
      show ?thesis
      proof (cases "create_atomic (ho_io h) ?t (co_fs c)")
        case (Inl x)
        with free run early c1 show ?thesis by auto
      next
        case (Inr af)
        obtain a fs where af: "create_atomic (ho_io h) ?t (co_fs c) = Inr (a, fs)" using Inr by (cases af) simp
        with run free have "baseline_file h cd as policy info key ?t a (c1\<lparr>co_fs := fs\<rparr>) = (c', e)" by auto
        from target [OF ar [unfolded rest] policy root [unfolded rest] c1 ident _ af this] free show ?thesis by blast
      qed
    qed
  qed
qed

lemma run_baseline_fails:
  assumes l: "no_links (co_fs c)" and d: "dir_syncs (ho_io h)"
    and b: "run_baseline h cd args c = (c', Some e)"
  shows "same_files (co_fs c) (co_fs c')"
  using b
proof (cases rule: run_baseline_cases)
  case (early err)
  then show ?thesis by simp
next
  case (target as policy c1 info key a fs)
  from create_open [OF target(7) l] have "af_open (co_fs c) a (co_fs (c1\<lparr>co_fs := fs\<rparr>))" by simp
  from target(8) this d show ?thesis by (cases rule: baseline_file_cases) auto
qed

section \<open>A comparison\<close>

lemma run_compare_cases:
  assumes "run_compare h cd args c = (c', e)"
  obtains (early) err where "e = Some err" and "refusal err" and "co_fs c' = co_fs c"
  | (checked) as mode r policy c1 where
      "parse_flags compare_flags [] args = Inr (as, [])" and "string_flag as ''b'' [] \<noteq> []"
      and "parse_new_dir_mode (string_flag as ''new-dir-mode'' ''summary'') = Some mode"
      and "require_root h (bool_flag as ''allow-non-root'') c = (c1, None)" and "co_fs c1 = co_fs c"
      and "open_verified h cd (co_fs c) (string_flag as ''b'' []) = Inr r"
      and "parse_mount_policy (so_mounts (m_scan (r_meta r))) = Inr policy"
      and "bool_flag as ''allow-os-mismatch'' \<or> snd (detect (ho_env h)) = None"
      and "check_comparable h (r_meta r) (fst (detect (ho_env h))) (bool_flag as ''allow-os-mismatch'') = None"
      and "compare_checked h cd as mode r policy (fst (detect (ho_env h))) c1 = (c', e)"
proof (cases "parse_flags compare_flags [] args")
  case (Inl x)
  with assms early show ?thesis by (auto simp: run_compare_def)
next
  case (Inr ar)
  obtain as rest where ar: "parse_flags compare_flags [] args = Inr (as, rest)" using Inr by (cases ar) simp
  let ?base = "string_flag as ''b'' []" and ?allow = "bool_flag as ''allow-os-mismatch''"
  let ?mode = "parse_new_dir_mode (string_flag as ''new-dir-mode'' ''summary'')"
  obtain c1 e1 where root: "require_root h (bool_flag as ''allow-non-root'') c = (c1, e1)" by (metis surj_pair)
  have c1: "co_fs c1 = co_fs c" using require_root_cases [OF root] by simp
  have e1: "\<forall>x. e1 = Some x \<longrightarrow> refusal x" using root by (auto simp: require_root_def split: if_splits)
  have to_early: thesis if "\<exists>x. e = Some x \<and> refusal x \<and> co_fs c' = co_fs c" using that early by blast
  show ?thesis
  proof (cases "rest \<noteq> [] \<or> ?base = [] \<or> ?mode = None \<or> e1 \<noteq> None")
    case True
    with assms ar root c1 e1 have "\<exists>x. e = Some x \<and> refusal x \<and> co_fs c' = co_fs c"
      by (cases ?mode; cases e1) (auto simp: run_compare_def Let_def split: if_splits)
    then show ?thesis by (rule to_early)
  next
    case False
    then have rest: "rest = []" "e1 = None" and base: "?base \<noteq> []" by simp_all
    obtain mode where mode: "?mode = Some mode" using False by auto
    obtain info det where det: "detect (ho_env h) = (info, det)" by (metis surj_pair)
    have run: "(case open_verified h cd (co_fs c) ?base of
         Inl e \<Rightarrow> (c1, Some (PlainError e))
       | Inr r \<Rightarrow>
           (case parse_mount_policy (so_mounts (m_scan (r_meta r))) of
              Inl s \<Rightarrow> (c1, Some (PlainError (BadMounts s)))
            | Inr policy \<Rightarrow>
                (case (if ?allow then None else det) of
                   Some e \<Rightarrow> (c1, Some (PlainError (DetectFailed e)))
                 | None \<Rightarrow>
                     (case check_comparable h (r_meta r) info ?allow of
                        Some e \<Rightarrow> (c1, Some e)
                      | None \<Rightarrow> compare_checked h cd as mode r policy info c1)))) = (c', e)"
      using assms ar root mode base unfolding rest run_compare_def Let_def det prod.case
      by (simp add: c1 cong: if_cong split del: if_split)
    show ?thesis
    proof (cases "open_verified h cd (co_fs c) ?base")
      case (Inl x)
      with run c1 have "\<exists>x. e = Some x \<and> refusal x \<and> co_fs c' = co_fs c" by auto
      then show ?thesis by (rule to_early)
    next
      case r: (Inr r)
      show ?thesis
      proof (cases "parse_mount_policy (so_mounts (m_scan (r_meta r)))")
        case (Inl x)
        with run r c1 have "\<exists>x. e = Some x \<and> refusal x \<and> co_fs c' = co_fs c" by auto
        then show ?thesis by (rule to_early)
      next
        case policy: (Inr policy)
        show ?thesis
        proof (cases "(if ?allow then None else det) = None \<and> check_comparable h (r_meta r) info ?allow = None")
          case True
          then have ok: "(if ?allow then None else det) = None" "check_comparable h (r_meta r) info ?allow = None"
            by blast+
          have "compare_checked h cd as mode r policy info c1 = (c', e)"
            using run by (simp only: r policy ok sum.case option.case)
          from checked [OF ar [unfolded rest] base mode root [unfolded rest] c1 r policy] this ok det
          show ?thesis by (auto split: if_splits)
        next
          case False
          with run r policy c1 have "\<exists>x. e = Some x \<and> refusal x \<and> co_fs c' = co_fs c"
            by (cases "check_comparable h (r_meta r) info ?allow"; cases "if ?allow then None else det")
              (auto dest: check_comparable_refusal)
          then show ?thesis by (rule to_early)
        qed
      qed
    qed
  qed
qed

end
