(* ===== verification/Cmd_Session.thy ===== *)
theory Cmd_Session
  imports Cmd_Result Store_Session
begin

text \<open>
  A successful \<open>baseline\<close> from end to end: the walk, the fingerprint writer and the atomic
  file composed, and the file that is left read back with the code that the other commands
  use.
\<close>

section \<open>The scan writes what the walk emits\<close>

lemma consume_records:
  "consume (record_entry h cd) es sc (pl, w) = (sc', None, (pl', w')) \<Longrightarrow>
   add_all (cd_enc cd) w es = (w', None)"
proof (induction es arbitrary: sc pl w)
  case Nil
  then show ?case by simp
next
  case (Cons e es)
  obtain w1 x where a: "add (cd_enc cd) w e = (w1, x)" by (metis surj_pair)
  then have re: "record_entry h cd (pl, w) e = ((tick h e pl, w1), x)" by (simp add: record_entry_def)
  with Cons.prems have x: "x = None" by (cases x) (auto simp: Let_def)
  with Cons.prems re have "consume (record_entry h cd) es (count_entry sc e) (tick h e pl, w1) = (sc', None, (pl', w'))"
    by (simp add: Let_def)
  from Cons.IH [OF this] a x show ?case by simp
qed

text \<open>What \<open>Walk\<close> does when it returns no error.\<close>

lemma walk_ok:
  assumes "walk opts sy root emit w = (stats, None, w')"
  obtains t st sc where "root = Inr t"
    and "walk_scan (set_defaults (sy_num_cpu sy) opts) sy t = (st, None)"
    and "consume emit (ws_out st) no_stats w = (sc, None, w')"
    and "stats = sc\<lparr>sc_pruned := ws_pruned st, sc_skipped := ws_skipped st\<rparr>"
proof -
  obtain t where t: "root = Inr t" using assms by (cases root) (auto simp: walk_def Let_def)
  obtain info link ls err where tree: "t = Tree info link ls err" by (cases t)
  let ?o = "set_defaults (sy_num_cpu sy) opts"
  obtain st we where st: "walk_scan ?o sy t = (st, we)" by (metis surj_pair)
  obtain sc x w1 where c: "consume emit (ws_out st) no_stats w = (sc, x, w1)" by (metis surj_pair)
  have "info_is_dir info" using assms by (auto simp: walk_def Let_def t tree split: if_splits)
  with assms t tree st c have "x = None" "we = None" "w1 = w'"
    "stats = sc\<lparr>sc_pruned := ws_pruned st, sc_skipped := ws_skipped st\<rparr>"
    by (auto simp: walk_def Let_def split: option.splits)
  with that t st c show thesis by blast
qed

definition scan_device :: "host \<Rightarrow> device" where
  "scan_device h = \<lparr>dev_data = [], dev_room = ho_room h\<rparr>"

lemma baseline_scan_written:
  assumes "baseline_scan h cd as opts m = (bytes, out, Inr (stats, p))"
  obtains t st dev where "ho_tree h (clean (wo_root opts)) = Inr t"
    and "walk_scan (set_defaults (sy_num_cpu (ho_system h)) opts) (ho_system h) t = (st, None)"
    and "write_fingerprint (cd_enc cd) (cd_marshal cd) (scan_device h) m (ws_out st) = Inr dev"
    and "dev_data dev = bytes"
proof -
  obtain w where w: "new_writer (cd_marshal cd) (scan_device h) m = Inr w"
    using assms by (cases "new_writer (cd_marshal cd) (scan_device h) m")
      (auto simp: baseline_scan_def scan_device_def Let_def)
  let ?walk = "walk opts (ho_system h) (ho_tree h (clean (wo_root opts))) (record_entry h cd)
     ((new_progress h (verbose_flag as), []), w)"
  obtain stats' x p' out' w1 where r: "?walk = (stats', x, ((p', out'), w1))" by (metis surj_pair)
  obtain w2 y where cl: "close_writer (cd_enc cd) w1 = (w2, y)" by (metis surj_pair)
  have x: "x = None" "y = None" "bytes = dev_data (w_dev w2)"
  proof -
    let ?res = "case x of Some x \<Rightarrow> (dev_data (w_dev w1), out', Inl (scan_error h x))
         | None \<Rightarrow> (case y of Some e \<Rightarrow> (dev_data (w_dev w2), out', Inl (PlainError (StoreFailed e)))
                    | None \<Rightarrow> (dev_data (w_dev w2), out', Inr (stats', p')))"
    have "baseline_scan h cd as opts m = ?res"
      unfolding baseline_scan_def Let_def scan_device_def [symmetric] w r sum.case prod.case cl
      by (cases x; cases y) (simp_all only: option.case prod.case cl)
    then have e: "?res = (bytes, out, Inr (stats, p))" using assms by simp
    show x: "x = None" using e by (cases x) simp_all
    show y: "y = None" using e unfolding x by (cases y) simp_all
    show "bytes = dev_data (w_dev w2)" using e unfolding x y by simp
  qed
  obtain t st sc where t: "ho_tree h (clean (wo_root opts)) = Inr t"
      "walk_scan (set_defaults (sy_num_cpu (ho_system h)) opts) (ho_system h) t = (st, None)"
      "consume (record_entry h cd) (ws_out st) no_stats ((new_progress h (verbose_flag as), []), w) =
         (sc, None, ((p', out'), w1))"
      "stats' = sc\<lparr>sc_pruned := ws_pruned st, sc_skipped := ws_skipped st\<rparr>"
    by (rule walk_ok [OF r [unfolded x(1)]])
  have "write_fingerprint (cd_enc cd) (cd_marshal cd) (scan_device h) m (ws_out st) = Inr (w_dev w2)"
    using w consume_records [OF t(3)] cl x(2) by (simp add: write_fingerprint_def)
  with that t(1,2) x(3) show thesis by blast
qed

section \<open>Reading it back\<close>

text \<open>What is assumed of the libraries: \<open>zstd\<close> and \<open>json\<close> decode what they encode.\<close>

definition codec_ok :: "codec \<Rightarrow> bool" where
  "codec_ok cd \<longleftrightarrow> zstd_ok (cd_enc cd) (cd_dec cd) \<and>
     (\<forall>m payload. cd_marshal cd m = Some payload \<longrightarrow> cd_unmarshal cd payload = Some (json_fields m))"

text \<open>The limits that the reader enforces and the writer does not.\<close>

definition within_limits :: "codec \<Rightarrow> meta \<Rightarrow> entry list \<Rightarrow> bool" where
  "within_limits cd m es \<longleftrightarrow> (\<forall>e\<in>set es. entry_fits e) \<and>
     (\<forall>payload. cd_marshal cd m = Some payload \<longrightarrow> sizes_ok (cd_enc cd) payload es)"

definition counted_meta :: "meta \<Rightarrow> entry list \<Rightarrow> meta" where
  "counted_meta m es = m\<lparr>m_entries := of_nat (length es), m_errors := of_nat (error_count es),
     m_blocks := of_nat (length (chunks [] es))\<rparr>"

lemma written_opens:
  assumes cd: "codec_ok cd"
    and w: "write_fingerprint (cd_enc cd) (cd_marshal cd) (scan_device h) m es = Inr dev"
    and wf: "\<forall>e\<in>set es. entry_wf e" and lim: "within_limits cd m es"
    and rd: "fs_read fs (resolve h path) = Some (dev_data dev)"
  shows "\<exists>r. open_verified h cd fs path = Inr r \<and> drain (cd_dec cd) r (reader_cursor r) = (es, End) \<and>
    r_meta r = counted_meta m es"
proof -
  have dev: "dev_data (scan_device h) = []" by (simp add: scan_device_def)
  have "\<forall>e\<in>set es. entry_wf e \<and> entry_fits e" using wf lim by (simp add: within_limits_def)
  from write_fingerprint_image [OF w dev this] obtain payload where
    p: "cd_marshal cd m = Some payload" "stored es" "blocks_ok (chunks [] es)"
      "dev_data dev = file_image (cd_enc cd) payload (chunks [] es)" by blast
  have z: "zstd_ok (cd_enc cd) (cd_dec cd)" and um: "cd_unmarshal cd payload = Some (json_fields m)"
    using cd p(1) by (auto simp: codec_ok_def)
  have sizes: "sizes_ok (cd_enc cd) payload es" using lim p(1) by (simp add: within_limits_def)
  have small: "length (file_image (cd_enc cd) payload (chunks [] es)) < 2 ^ 63"
    using sizes by (simp add: sizes_ok_def)
  let ?r = "image_reader (cd_enc cd) payload m (chunks [] es)"
  have "open_verified h cd fs path = Inr ?r"
    using open_written [where unmarshal = "cd_unmarshal cd" and payload = payload and m = m, OF z p(2,3) um sizes]
      verify_image [OF small] rd p(4)
    by (simp add: open_verified_def open_fingerprint_def read_file_def)
  with image_delivers(1) [OF z p(2,3) sizes, of m] show ?thesis by (auto simp: counted_meta_def)
qed

lemma abs_name_resolve: "abs_name (ho_io h) path = Inr final \<Longrightarrow> resolve h path = final"
  by (auto simp: abs_name_def resolve_def split: if_splits option.splits)

text \<open>The walk of a baseline.\<close>

definition baseline_walk :: "host \<Rightarrow> assignments \<Rightarrow> mount_policy \<Rightarrow> exclude_set \<Rightarrow> tree
    \<Rightarrow> walk_state \<times> ctx_error option" where
  "baseline_walk h as policy s t =
     walk_scan (set_defaults (sy_num_cpu (ho_system h)) (baseline_options h as policy s)) (ho_system h) t"

lemma baseline_options_root [simp]: "wo_root (baseline_options h as policy s) = string_flag as ''root'' ''/''"
  by (simp add: baseline_options_def Let_def)

lemma baseline_walk_emits:
  assumes "baseline_walk h as policy s t = (st, r)" and "tree_ok t" and "absolute (string_flag as ''root'' ''/'')"
  shows "increasing_entries (ws_out st) \<and> (\<forall>x\<in>set (ws_out st). entry_wf x)"
proof -
  let ?o = "set_defaults (sy_num_cpu (ho_system h)) (baseline_options h as policy s)"
  have "string_flag as ''root'' ''/'' \<noteq> []" using assms(3) by (auto simp: absolute_def has_prefix_def)
  then have "absolute (wo_root ?o)" using assms(3) by (simp add: set_defaults_root)
  from walk_scan_emits [OF assms(1) [unfolded baseline_walk_def] assms(2) this set_defaults_depth]
  show ?thesis by (auto simp: emitted_ok_def)
qed

text \<open>The parts of a baseline: what the command line and the host determine before the scan.\<close>

definition baseline_parts ::
  "host \<Rightarrow> string list \<Rightarrow> file_system \<Rightarrow> assignments \<Rightarrow> mount_policy \<Rightarrow> os_info \<Rightarrow> string \<Rightarrow> exclude_set \<Rightarrow> tree
     \<Rightarrow> walk_state \<Rightarrow> bool" where
  "baseline_parts h args fs as policy info key s t ws \<longleftrightarrow>
     parse_flags baseline_flags [] args = Inr (as, []) \<and>
     parse_mount_policy (string_flag as ''mounts'' ''local'') = Inr policy \<and>
     identify h (string_flag as ''os-id'' []) = Inr (info, key) \<and>
     (\<exists>a fs'. create_atomic (ho_io h) (baseline_target as key) fs = Inr (a, fs') \<and>
        baseline_set h as info a fs' = Inr s) \<and>
     ho_tree h (clean (string_flag as ''root'' ''/'')) = Inr t \<and>
     fst (baseline_walk h as policy s t) = ws"

abbreviation parts_meta :: "host \<Rightarrow> assignments \<Rightarrow> mount_policy \<Rightarrow> os_info \<Rightarrow> string \<Rightarrow> exclude_set \<Rightarrow> meta" where
  "parts_meta h as policy info key s \<equiv> baseline_meta h info key (baseline_options h as policy s) s"

text \<open>A baseline that succeeds has parts, and its target holds what was written.\<close>

lemma run_baseline_parts:
  assumes "run_baseline h cd args c = (c', None)" and "no_links (co_fs c)"
  obtains as policy info key s t ws dev where "baseline_parts h args (co_fs c) as policy info key s t ws"
    and "bool_flag as ''allow-non-root'' \<or> ho_euid h = 0"
    and "baseline_walk h as policy s t = (ws, None)"
    and "write_fingerprint (cd_enc cd) (cd_marshal cd) (scan_device h) (parts_meta h as policy info key s) (ws_out ws) = Inr dev"
    and "fs_read (co_fs c') (resolve h (baseline_target as key)) = Some (dev_data dev)"
  using assms(1)
proof (cases rule: run_baseline_cases)
  case (early err)
  then show ?thesis by simp
next
  case (target as policy c1 info key a fs)
  have root: "bool_flag as ''allow-non-root'' \<or> ho_euid h = 0"
    using target(3) by (auto simp: require_root_def split: if_splits)
  from create_open [OF target(7) assms(2)]
  have o: "af_open (co_fs c) a fs" "fs_data fs (af_inode a) = []" "af_buf a = []"
    and final: "resolve h (baseline_target as key) = af_final a"
    using abs_name_resolve by auto
  from target(8) show ?thesis
  proof (cases rule: baseline_file_cases [where F = "co_fs c"])
    case (failed err)
    then show ?thesis by simp
  next
    case (finished s bytes out stats p a1 fs1 a2)
    let ?opts = "baseline_options h as policy s"
    from baseline_scan_written [OF finished(3)] obtain t st dev where
      t: "ho_tree h (clean (string_flag as ''root'' ''/'')) = Inr t" "baseline_walk h as policy s t = (st, None)"
        "write_fingerprint (cd_enc cd) (cd_marshal cd) (scan_device h) (parts_meta h as policy info key s) (ws_out st) = Inr dev"
        "dev_data dev = bytes"
      unfolding baseline_options_root baseline_walk_def by blast
    have w: "af_open (co_fs c) a1 fs1" "af_final a1 = af_final a"
      "fs_data fs1 (af_inode a1) @ af_buf a1 = bytes"
      using write_open [of "co_fs c" a fs bytes 0 a1 fs1] o finished(4) by simp_all
    have "fs_read (co_fs c') (resolve h (baseline_target as key)) = Some (dev_data dev)"
      using commit_ok_reads(1) [OF w(1) finished(5)] w(2,3) final t(4) by simp
    moreover have "baseline_parts h args (co_fs c) as policy info key s t st"
      using target(1,2,5,7) finished(2) t(1,2) by (auto simp: baseline_parts_def)
    ultimately show ?thesis using that root t(2,3) by blast
  qed
qed

lemma baseline_parts_unique:
  "baseline_parts h args fs as policy info key s t ws \<Longrightarrow> baseline_parts h args fs as' policy' info' key' s' t' ws' \<Longrightarrow>
   as' = as \<and> policy' = policy \<and> info' = info \<and> key' = key \<and> s' = s \<and> t' = t \<and> ws' = ws"
  by (auto simp: baseline_parts_def)

lemma baseline_reads_back:
  assumes "run_baseline h cd args c = (c', None)" and p: "baseline_parts h args (co_fs c) as policy info key s t ws"
    and "codec_ok cd" and "no_links (co_fs c)" and "absolute (string_flag as ''root'' ''/'')" and "tree_ok t"
    and "within_limits cd (parts_meta h as policy info key s) (ws_out ws)"
  shows "baseline_walk h as policy s t = (ws, None) \<and>
    (\<exists>r. open_verified h cd (co_fs c') (baseline_target as key) = Inr r \<and>
      drain (cd_dec cd) r (reader_cursor r) = (ws_out ws, End) \<and>
      r_meta r = counted_meta (parts_meta h as policy info key s) (ws_out ws))"
proof -
  obtain as' policy' info' key' s' t' ws' dev where
    q: "baseline_parts h args (co_fs c) as' policy' info' key' s' t' ws'"
      "baseline_walk h as' policy' s' t' = (ws', None)"
      "write_fingerprint (cd_enc cd) (cd_marshal cd) (scan_device h) (parts_meta h as' policy' info' key' s') (ws_out ws') = Inr dev"
      "fs_read (co_fs c') (resolve h (baseline_target as' key')) = Some (dev_data dev)"
    by (rule run_baseline_parts [OF assms(1,4)])
  note same = baseline_parts_unique [OF p q(1)]
  have walk: "baseline_walk h as policy s t = (ws, None)" using q(2) same by simp
  have "\<forall>e\<in>set (ws_out ws). entry_wf e" using baseline_walk_emits [OF walk assms(6,5)] by simp
  with written_opens [OF assms(3), of h "parts_meta h as policy info key s" "ws_out ws" dev] q(3,4) same assms(7) walk
  show ?thesis by auto
qed

end
