(* ===== verification/Cmd_Join.thy ===== *)
theory Cmd_Join
  imports Cmd_Result Diff_Result Report_Output
begin

text \<open>
  The comparison as one join: \<open>Walk\<close> with the joiner as its callback, the fingerprint cursor
  as the other side and the reporter behind the joiner, composed as \<open>compare\<close> composes them,
  is the merge of the two streams of entries. The counters of the report follow.
\<close>

section \<open>A writer that does not fail\<close>

definition writer_ok :: "host \<Rightarrow> bool" where
  "writer_ok h \<longleftrightarrow> (\<forall>w x. snd (wr_text (ho_writer h) w x) = None) \<and> (\<forall>w x. snd (wr_json (ho_writer h) w x) = None)"

lemma printf_succeeds: "\<forall>w x. snd (wr w x) = None \<Longrightarrow> tr_err t = None \<Longrightarrow> tr_err (printf wr s t) = None"
  by (auto simp: printf_def split: prod.splits) (metis snd_conv)

lemma print_all_succeeds:
  "\<forall>w x. snd (wr w x) = None \<Longrightarrow> tr_err t = None \<Longrightarrow> tr_err (print_all wr ls t) = None"
  unfolding print_all_def by (induction ls arbitrary: t) (simp_all add: printf_succeeds)

lemma text_section_succeeds:
  "\<forall>w x. snd (wr w x) = None \<Longrightarrow> tr_err t = None \<Longrightarrow> tr_err (text_section wr title cs t) = None"
  by (simp add: text_section_def print_all_succeeds printf_succeeds)

lemma text_close_succeeds:
  assumes "\<forall>w x. snd (wr w x) = None" and "tr_err t = None"
  shows "snd (text_close wr s t) = None"
proof -
  have "tr_err (fold (\<lambda>o' t. text_section wr (section_title o') (tr_sections t o') t) ops t) = None" for ops
    using assms(2) by (induction ops arbitrary: t) (simp_all add: text_section_succeeds [OF assms(1)])
  then show ?thesis
    by (simp add: text_close_def Let_def print_all_succeeds [OF assms(1)] text_section_succeeds [OF assms(1)])
qed

lemma json_write_succeeds:
  "\<forall>w x. snd (enc w x) = None \<Longrightarrow> jr_err j = None \<Longrightarrow> jr_err (json_write enc v j) = None"
  by (auto simp: json_write_def split: prod.splits) (metis snd_conv)

lemma rep_change_succeeds:
  "writer_ok h \<Longrightarrow> rep_err r = None \<Longrightarrow>
   snd (rep_change (ho_writer h) c r) = None \<and> rep_err (fst (rep_change (ho_writer h) c r)) = None"
  by (cases r) (auto simp: rep_change_def rep_err_def text_change_def json_change_def Let_def
      writer_ok_def intro!: json_write_succeeds)

lemma rep_close_succeeds:
  "writer_ok h \<Longrightarrow> rep_err r = None \<Longrightarrow> snd (rep_close (ho_writer h) s r) = None"
  by (cases r) (auto simp: rep_close_def rep_err_def json_close_def Let_def writer_ok_def
      intro!: json_write_succeeds text_close_succeeds)

lemma rep_header_succeeds:
  "writer_ok h \<Longrightarrow> rep_err r = None \<Longrightarrow>
   snd (rep_header (ho_writer h) x r) = None \<and> rep_err (fst (rep_header (ho_writer h) x r)) = None"
  by (cases r) (auto simp: rep_header_def rep_err_def text_header_def json_header_def Let_def writer_ok_def
      intro!: json_write_succeeds print_all_succeeds)

lemma new_reporter_fresh: "new_reporter f w opts = Inr r \<Longrightarrow> rep_err r = None"
  by (auto simp: new_reporter_def rep_err_def new_text_reporter_def new_json_reporter_def split: if_splits)

abbreviation reporting :: "(string, string) reporter \<times> nat \<Rightarrow> bool" where
  "reporting re \<equiv> rep_err (fst re) = None"

lemma report_one_succeeds: "writer_ok h \<Longrightarrow> succeeds_on reporting (report_one h s)"
  using rep_change_succeeds [of h]
  by (auto simp: succeeds_on_def report_one_def Let_def split: prod.splits) (metis snd_conv fst_conv)+

section \<open>Walk, join and report\<close>

lemma consume_feeds:
  "feed_all (cursor_next (cd_dec cd) r) jo (report_one h s) es j = Some (j', None) \<Longrightarrow>
   \<exists>pl'. consume (feed_one h cd r jo s) es sc (pl, j) = (foldl count_entry sc es, None, (pl', j'))"
proof (induction es arbitrary: j sc pl)
  case Nil
  then show ?case by simp
next
  case (Cons e es)
  obtain j1 where f: "feed (cursor_next (cd_dec cd) r) jo (report_one h s) e j = Some (j1, None)"
    "feed_all (cursor_next (cd_dec cd) r) jo (report_one h s) es j1 = Some (j', None)"
    using Cons.prems by (auto split: option.splits prod.splits)
  then have "feed_one h cd r jo s (pl, j) e = ((tick h e pl, j1), None)" by (simp add: feed_one_def)
  with Cons.IH [OF f(2)] show ?case by (auto simp: Let_def)
qed

definition tree_is_dir :: "tree \<Rightarrow> bool" where
  "tree_is_dir t \<longleftrightarrow> (case t of Tree info _ _ _ \<Rightarrow> info_is_dir info)"

lemma walk_consumes:
  assumes "walk_scan (set_defaults (sy_num_cpu sy) opts) sy t = (st, None)" and "tree_is_dir t"
    and "consume emit (ws_out st) no_stats w = (sc, None, w')"
  shows "walk opts sy (Inr t) emit w = (sc\<lparr>sc_pruned := ws_pruned st, sc_skipped := ws_skipped st\<rparr>, None, w')"
  using assms by (cases t) (simp add: walk_def Let_def tree_is_dir_def)

definition scanned :: "walk_state \<Rightarrow> scan_stats" where
  "scanned st = (foldl count_entry no_stats (ws_out st))\<lparr>sc_pruned := ws_pruned st, sc_skipped := ws_skipped st\<rparr>"

text \<open>The whole of \<open>compare_join\<close>, when nothing fails.\<close>

lemma compare_join_runs:
  assumes w: "writer_ok h" and rep: "rep_err rep = None"
    and t: "ho_tree h (clean (wo_root opts)) = Inr t" "tree_is_dir t"
      "walk_scan (set_defaults (sy_num_cpu (ho_system h)) opts) (ho_system h) t = (st, None)"
    and base: "drain (cd_dec cd) r (reader_cursor r) = (base, End)" and live: "increasing (ws_out st)"
  obtains rep' out st' n where "compare_join h cd r as opts jo s rep = (rep', out, Inr (st', n))"
    and "\<exists>re. foldl (core_event jo (report_one h s)) ((rep, 0), zero_stats) (merge_events base (ws_out st)) = (re, st') \<and>
      snd re = n \<and> rep_close (ho_writer h)
        \<lparr>rs_diff = st', rs_scan = scanned st, rs_elapsed = ho_elapsed h, rs_expected = n\<rparr> (fst re) = (rep', None)"
proof -
  let ?nxt = "cursor_next (cd_dec cd) r" and ?emit = "report_one h s"
  note ok = report_one_succeeds [OF w, of s]
  have "reporting (rep, 0)" using rep by simp
  from cursor_join_core [OF ok this base live, of jo] obtain j3 where
    j: "join_streams ?nxt jo ?emit (reader_cursor r) (ws_out st) (rep, 0) = Some (j3, None)"
      "core j3 = foldl (core_event jo ?emit) ((rep, 0), zero_stats) (merge_events base (ws_out st))" by blast
  from j(1) obtain j1 j2 where
    n: "new_joiner ?nxt (reader_cursor r) (rep, 0) = (j1, None :: string join_error option)"
      "feed_all ?nxt jo ?emit (ws_out st) j1 = Some (j2, None)" "finish ?nxt jo ?emit j2 = Some (j3, None)"
    by (auto simp: join_streams_def split: prod.splits option.splits)
  obtain p out where c: "consume (feed_one h cd r jo s) (ws_out st) no_stats
      ((new_progress h (verbose_flag as), []), j1) = (foldl count_entry no_stats (ws_out st), None, ((p, out), j2))"
    using consume_feeds [OF n(2), of no_stats "(new_progress h (verbose_flag as), [])"] by auto
  from walk_consumes [OF t(3,2) c] have
    wk: "walk opts (ho_system h) (ho_tree h (clean (wo_root opts))) (feed_one h cd r jo s)
      ((new_progress h (verbose_flag as), []), j1) = (scanned st, None, ((p, out), j2))"
    using t(1) by (simp add: scanned_def)
  let ?sum = "\<lparr>rs_diff = j_stats j3, rs_scan = scanned st, rs_elapsed = ho_elapsed h, rs_expected = snd (j_out j3)\<rparr>"
  have "fst (core j3) = j_out j3" by (simp add: core_def)
  then have "rep_err (fst (j_out j3)) = None"
    using core_events_keep [OF ok, of "((rep, 0), zero_stats)" jo "merge_events base (ws_out st)"] rep j(2) by simp
  from rep_close_succeeds [OF w this, of ?sum] obtain rep' where
    cl: "rep_close (ho_writer h) ?sum (fst (j_out j3)) = (rep', None)" by (metis prod.collapse)
  have "compare_join h cd r as opts jo s rep =
      (rep', out @ progress_done p, Inr (j_stats j3, snd (j_out j3)))"
    by (simp add: compare_join_def n(1) wk n(3) cl)
  moreover have "foldl (core_event jo ?emit) ((rep, 0), zero_stats) (merge_events base (ws_out st)) =
      (j_out j3, j_stats j3)" using j(2) by (simp add: core_def)
  ultimately show thesis using that cl by auto
qed

section \<open>The counters\<close>

lemma stats_total_bump:
  "stats_total (st\<lparr>st_counts := (st_counts st)(o' := st_counts st o' + 1)\<rparr>) = Suc (stats_total st)"
  by (cases o') (simp_all add: stats_total_def all_ops_def)

lemma stats_total_update [simp]:
  "stats_total (st\<lparr>st_ignored := i\<rparr>) = stats_total st" "stats_total (st\<lparr>st_hidden := k\<rparr>) = stats_total st"
  "stats_total (st\<lparr>st_compared := q\<rparr>) = stats_total st" "stats_total zero_stats = 0"
  by (simp_all add: stats_total_def zero_stats_def all_ops_def)

lemma summed_path [simp]: "c_path (summed opts c) = c_path c"
  by (simp add: summed_def split: option.split)

lemma report_one_count:
  "snd (fst (report_one h s re c)) = snd re + (if set_volatile s (c_path c) then 1 else 0)"
  by (simp add: report_one_def Let_def split: prod.splits)

lemma core_change_counts:
  "snd (fst (core_change jo (report_one h s) cs c)) =
     snd (fst cs) + (if shown jo c \<and> set_volatile s (c_path c) then 1 else 0) \<and>
   stats_total (snd (core_change jo (report_one h s) cs c)) = stats_total (snd cs) + (if shown jo c then 1 else 0)"
  by (simp add: core_change_def shown_def report_one_count stats_total_bump [simplified])

lemma core_event_counts:
  "snd (fst (core_event jo (report_one h s) cs ev)) = snd (fst cs) +
     (case snd ev of None \<Rightarrow> 0 | Some c \<Rightarrow> if shown jo c \<and> set_volatile s (c_path c) then 1 else 0) \<and>
   stats_total (snd (core_event jo (report_one h s) cs ev)) = stats_total (snd cs) +
     (case snd ev of None \<Rightarrow> 0 | Some c \<Rightarrow> if shown jo c then 1 else 0)"
  by (cases "snd ev") (simp_all add: core_event_def Let_def core_change_counts)

lemma core_counts:
  "snd (fst (foldl (core_event jo (report_one h s)) cs evs)) = snd (fst cs) +
     length (filter (\<lambda>c. shown jo c \<and> set_volatile s (c_path c)) (List.map_filter snd evs)) \<and>
   stats_total (snd (foldl (core_event jo (report_one h s)) cs evs)) = stats_total (snd cs) +
     length (filter (shown jo) (List.map_filter snd evs))"
proof (induction evs arbitrary: cs)
  case Nil
  then show ?case by (simp add: List.map_filter_def)
next
  case (Cons ev evs)
  show ?case
    using Cons.IH [of "core_event jo (report_one h s) cs ev"] core_event_counts [of jo h s cs ev]
    by (cases "snd ev") (simp_all add: List.map_filter_def)
qed

text \<open>What the reporter is sent, and the counters, which do not depend on the reporter.\<close>

lemma core_reports:
  "fst (fst (foldl (core_event jo (report_one h s)) cs evs)) =
     fold (\<lambda>c r. fst (rep_change (ho_writer h) c r))
       (map (summed jo) (filter (shown jo) (List.map_filter snd evs))) (fst (fst cs))"
proof (induction evs arbitrary: cs)
  case Nil
  then show ?case by (simp add: List.map_filter_def)
next
  case (Cons ev evs)
  have "fst (fst (core_change jo (report_one h s) cs c)) =
      (if shown jo c then fst (rep_change (ho_writer h) (summed jo c) (fst (fst cs))) else fst (fst cs))" for cs c
    by (auto simp: core_change_def shown_def report_one_def Let_def split: prod.splits)
  then show ?case
    using Cons.IH [of "core_event jo (report_one h s) cs ev"]
    by (cases "snd ev") (simp_all add: List.map_filter_def core_event_def Let_def)
qed

lemma core_stats: "snd (foldl (core_event jo emit) cs evs) = snd (foldl (core_event jo emit') (w, snd cs) evs)"
proof (induction evs arbitrary: cs w)
  case (Cons ev evs)
  have "snd (core_event jo emit cs ev) = snd (core_event jo emit' (w, snd cs) ev)"
    by (simp add: core_event_def core_change_def Let_def split: option.split)
  with Cons.IH [of "core_event jo emit cs ev" "fst (core_event jo emit' (w, snd cs) ev)"] show ?case by simp
qed simp

definition drift_stats :: "join_options \<Rightarrow> entry list \<Rightarrow> entry list \<Rightarrow> stats" where
  "drift_stats jo base live =
     (let cs = changes_of base live in
      \<lparr>st_counts = (\<lambda>o'. length (filter (\<lambda>c. shown jo c \<and> c_op c = o') cs)),
       st_ignored = length (filter (ignored_by jo) cs),
       st_hidden = length (filter (\<lambda>c. \<not> ignored_by jo c \<and> \<not> shown jo c) cs),
       st_compared = card (e_path ` set base \<inter> e_path ` set live)\<rparr>)"

lemma core_drift_stats:
  assumes "increasing base" and "increasing live"
  shows "snd (foldl (core_event jo emit) (w, zero_stats) (merge_events base live)) = drift_stats jo base live"
  unfolding core_stats [of jo emit "(w, zero_stats)" "merge_events base live" collect "[]"]
  by (simp add: core_events_collect map_filter_changes [OF assms] count_common [OF assms] zero_stats_def
      drift_stats_def Let_def)

lemma fewer_filtered:
  "length (filter (\<lambda>x. P x \<and> Q x) xs) < length (filter P xs) \<longleftrightarrow> (\<exists>x\<in>set xs. P x \<and> \<not> Q x)"
proof (induction xs)
  case (Cons x xs)
  have "length (filter (\<lambda>x. P x \<and> Q x) xs) \<le> length (filter P xs)"
    by (induction xs) auto
  with Cons show ?case by auto
qed simp

lemma walk_increasing:
  assumes "walk_scan (set_defaults n opts) sy t = (st, r)" and "tree_ok t" and "absolute (wo_root opts)"
  shows "increasing (ws_out st)"
proof -
  have "wo_root opts \<noteq> []" using assms(3) by (auto simp: absolute_def has_prefix_def)
  then have "absolute (wo_root (set_defaults n opts))" using assms(3) by (simp add: set_defaults_root)
  from walk_scan_emits [OF assms(1,2) this set_defaults_depth] show ?thesis by simp
qed

end
