(* ===== verification/Cmd_Contract.thy ===== *)
theory Cmd_Contract
  imports Cmd_Result
begin

text \<open>
  What every run of the program promises, whatever the host answers: which exit codes there
  are and what decides them, that nothing happens without privileges, and that a run that
  fails leaves the files as they were.
\<close>

section \<open>The end of a comparison\<close>

lemma compare_walk_error_code: "cmd_code (compare_walk_error h x) \<in> {exit_error, exit_interrupted}"
  by (simp add: compare_walk_error_def)

lemma compare_join_code:
  assumes "compare_join h cd r as opts jo s rep = (rep', out, Inl e)"
  shows "cmd_code e \<in> {exit_error, exit_interrupted}"
  using assms compare_walk_error_code [of h]
  by (auto simp: compare_join_def split: prod.splits option.splits)

lemma compare_report_code:
  assumes "compare_report h cd as r info policy mode autos fs = (rep, out, Inl e)"
  shows "cmd_code e \<in> {exit_error, exit_interrupted}"
  using assms
  by (auto simp: compare_report_def Let_def dest: compare_join_code
      split: sum.splits prod.splits option.splits bool.splits)

text \<open>A report destination that is open: the standard output, or an open file.\<close>

definition dest_open :: "file_system \<Rightarrow> atomic_file option \<Rightarrow> file_system \<Rightarrow> bool" where
  "dest_open fs0 d fs \<longleftrightarrow> (case d of None \<Rightarrow> fs = fs0 | Some a \<Rightarrow> af_open fs0 a fs)"

lemma open_report_open:
  "open_report_file h path fs = Inr (d, autos, fs') \<Longrightarrow> no_links fs \<Longrightarrow> dest_open fs d fs'"
  using create_open by (auto simp: open_report_file_def dest_open_def split: if_splits sum.splits)

lemma dest_write_open:
  assumes "dest_write s d c = (d', c')" and "dest_open fs0 d (co_fs c)"
  shows "dest_open fs0 d' (co_fs c')"
  using assms write_open(1)
  by (auto simp: dest_write_def dest_open_def split: option.splits prod.splits if_splits)

lemma dest_abort_same: "dest_open fs0 d (co_fs c) \<Longrightarrow> same_files fs0 (co_fs (dest_abort h d c))"
  using abort_same by (auto simp: dest_abort_def dest_open_def split: option.splits)

lemma dest_commit_same:
  "dest_commit h d c = (c', Some x) \<Longrightarrow> dest_open fs0 d (co_fs c) \<Longrightarrow> dir_syncs (ho_io h) \<Longrightarrow>
   same_files fs0 (co_fs c')"
  by (auto simp: dest_commit_def dest_open_def split: option.splits prod.splits dest: commit_fails_same)

lemma compare_checked_cases:
  assumes "compare_checked h cd as mode r policy info c = (c', e)"
  obtains (failed) err where "e = Some err" and "cmd_code err \<in> {exit_error, exit_interrupted}"
      and "no_links (co_fs c) \<Longrightarrow> dir_syncs (ho_io h) \<Longrightarrow> same_files (co_fs c) (co_fs c')"
  | (finished) d autos fs body out st n d' c2 where
      "open_report_file h (string_flag as ''o'' []) (co_fs c) = Inr (d, autos, fs)"
      and "compare_report h cd as r info policy mode autos fs = (body, out, Inr (st, n))"
      and "dest_write body d (fold print_err out (c\<lparr>co_fs := fs\<rparr>)) = (d', c2)"
      and "dest_commit h d' c2 = (c', None)" and "e = compare_exit as st n"
proof (cases "open_report_file h (string_flag as ''o'' []) (co_fs c)")
  case (Inl x)
  with assms have "e = Some (PlainError x)" "co_fs c' = co_fs c" by (auto simp: compare_checked_def)
  then show ?thesis by (intro failed [of "PlainError x"]) simp_all
next
  case (Inr y)
  obtain d autos fs where o: "open_report_file h (string_flag as ''o'' []) (co_fs c) = Inr (d, autos, fs)"
    using Inr by (cases y) simp
  obtain body out res where rep: "compare_report h cd as r info policy mode autos fs = (body, out, res)"
    by (metis surj_pair)
  obtain d' c2 where w: "dest_write body d (fold print_err out (c\<lparr>co_fs := fs\<rparr>)) = (d', c2)" by (metis surj_pair)
  have dest: "dest_open (co_fs c) d' (co_fs c2)" if "no_links (co_fs c)"
    using dest_write_open [OF w] open_report_open [OF o that] by simp
  have run: "(case res of Inl e \<Rightarrow> (dest_abort h d' c2, Some e)
      | Inr (st, n) \<Rightarrow> (case dest_commit h d' c2 of
            (c, Some x) \<Rightarrow> (c, Some (PlainError (IoFailed x)))
          | (c, None) \<Rightarrow> (c, compare_exit as st n))) = (c', e)"
    using assms by (simp add: compare_checked_def o rep w)
  show ?thesis
  proof (cases res)
    case (Inl x)
    from compare_report_code [OF rep [unfolded Inl]] run Inl dest_abort_same [OF dest]
    show ?thesis by (intro failed [of x]) auto
  next
    case (Inr sn)
    obtain st n where sn: "res = Inr (st, n)" using Inr by (cases sn) simp
    obtain c3 x where m: "dest_commit h d' c2 = (c3, x)" by (metis surj_pair)
    show ?thesis
    proof (cases x)
      case None
      with run sn m have "c' = c3" "e = compare_exit as st n" by simp_all
      with finished [OF o rep [unfolded sn] w] m None show ?thesis by simp
    next
      case (Some y)
      with run sn m have e: "c' = c3" "e = Some (PlainError (IoFailed y))" by simp_all
      from dest_commit_same [OF m [unfolded Some] dest] e
      show ?thesis by (intro failed [of "PlainError (IoFailed y)"]) auto
    qed
  qed
qed

section \<open>Exit codes\<close>

lemma run_baseline_code: "run_baseline h cd args c = (c', Some e) \<Longrightarrow> cmd_code e \<in> {exit_error, exit_privilege, exit_interrupted}"
  by (erule run_baseline_cases) (auto elim!: baseline_file_cases)

lemma run_reading_code:
  "run_info h cd args c = (c', Some e) \<Longrightarrow> cmd_code e = exit_error"
  "run_verify h cd args c = (c', Some e) \<Longrightarrow> cmd_code e = exit_error"
  "run_version h args c = (c', Some e) \<Longrightarrow> cmd_code e = exit_error"
  by (auto simp: run_info_def run_verify_def run_version_def Let_def split: sum.splits if_splits)

text \<open>What the exit code of a comparison says.\<close>

definition counted_result :: "host \<Rightarrow> codec \<Rightarrow> string list \<Rightarrow> assignments \<Rightarrow> stats \<Rightarrow> nat \<Rightarrow> bool" where
  "counted_result h cd args as st n \<longleftrightarrow> parse_flags compare_flags [] args = Inr (as, []) \<and>
     (\<exists>r policy mode autos fs body out.
        compare_report h cd as r (fst (detect (ho_env h))) policy mode autos fs = (body, out, Inr (st, n)))"

lemma run_compare_code:
  assumes "run_compare h cd args c = (c', e)"
  shows "(\<exists>x. e = Some x \<and> cmd_code x \<in> {exit_error, exit_privilege, exit_interrupted}) \<or>
    (\<exists>as st n. counted_result h cd args as st n \<and> e = compare_exit as st n)"
  using assms
proof (cases rule: run_compare_cases)
  case (early err)
  then show ?thesis by auto
next
  case (checked as mode r policy c1)
  from checked(10) show ?thesis
  proof (cases rule: compare_checked_cases)
    case (failed err)
    then show ?thesis by auto
  next
    case (finished d autos fs body out st n d' c2)
    with checked(1) have "counted_result h cd args as st n" unfolding counted_result_def by blast
    with finished(5) show ?thesis by blast
  qed
qed

lemma run_command_code:
  assumes "run_command_of h cd cmd args c = (c', Some e)"
  shows "cmd_code e \<in> {exit_diff, exit_error, exit_privilege, exit_interrupted} \<and> (cmd_code e = exit_diff \<longrightarrow> cmd = Compare)"
proof (cases cmd)
  case Compare
  with assms have "run_compare h cd args c = (c', Some e)" by (simp add: run_command_of_def)
  from run_compare_code [OF this] Compare show ?thesis by (auto simp: compare_exit_def split: if_splits)
next
  case Baseline
  with assms have "run_baseline h cd args c = (c', Some e)" by (simp add: run_command_of_def)
  from run_baseline_code [OF this] show ?thesis by (auto simp: exit_codes)
next
  case Info
  with assms run_reading_code(1) show ?thesis by (auto simp: run_command_of_def exit_codes)
next
  case Verify
  with assms run_reading_code(2) show ?thesis by (auto simp: run_command_of_def exit_codes)
next
  case Version
  with assms run_reading_code(3) show ?thesis by (auto simp: run_command_of_def exit_codes)
qed

section \<open>The whole program\<close>

lemma co_fs_start [simp]: "co_fs (console_start fs) = fs"
  by (simp add: console_start_def)

lemma osfp_command:
  "osfp h cd (''baseline'' # args) fs =
     (case run_baseline h cd args (console_start fs) of (c, e) \<Rightarrow> (c, outcome Baseline e))"
  "osfp h cd (''compare'' # args) fs =
     (case run_compare h cd args (console_start fs) of (c, e) \<Rightarrow> (c, outcome Compare e))"
  by (simp_all add: osfp_def dispatch_def lookup_command_cases run_command_of_def)

lemma osfp_baseline_ok:
  "osfp h cd (''baseline'' # args) fs = (c', 0, d) \<Longrightarrow> run_baseline h cd args (console_start fs) = (c', None)"
proof -
  assume run: "osfp h cd (''baseline'' # args) fs = (c', 0, d)"
  obtain c1 e where b: "run_baseline h cd args (console_start fs) = (c1, e)" by (metis surj_pair)
  with run have "c1 = c'" "fst (outcome Baseline e) = 0" by (simp_all add: osfp_command)
  with b run_baseline_code [of h cd args "console_start fs" c1] show ?thesis
    by (cases e) (auto simp: outcome_code exit_codes)
qed

lemma osfp_ok:
  "run_baseline h cd args (console_start fs) = (c', None) \<Longrightarrow> osfp h cd (''baseline'' # args) fs = (c', 0, NoDiagnosis)"
  "run_compare h cd args (console_start fs) = (c', None) \<Longrightarrow> osfp h cd (''compare'' # args) fs = (c', 0, NoDiagnosis)"
  by (simp_all add: osfp_command outcome_def exit_codes)

end
