(* ===== verification/Exclude_Replay.thy ===== *)
theory Exclude_Replay
  imports Exclude
begin

text \<open>
  The perimeter of a later run: a set that obeys the invariant is determined by the set of its
  patterns, so compiling recorded patterns and then the automatic paths of the same program
  again excludes what was excluded before.
\<close>

section \<open>A set as the patterns it has\<close>

definition pattern_match :: "string \<Rightarrow> string \<Rightarrow> bool" where
  "pattern_match p path \<longleftrightarrow>
     (if \<not> absolute p then go_match p (base_name path) = Some True
      else if is_glob p then go_match p path = Some True
      else is_under path (clean p))"

lemma set_match_patterns:
  assumes "set_inv s"
  shows "set_match s path \<longleftrightarrow> (\<exists>p\<in>set (xs_patterns s). pattern_match p path)"
proof -
  let ?P = "xs_patterns s"
  have l: "(xs \<noteq> [] \<and> list_ex Q xs) = list_ex Q xs" for xs :: "string list" and Q by (cases xs) simp_all
  have inv: "xs_prefixes s = map clean (filter (\<lambda>p. absolute p \<and> \<not> is_glob p) ?P)"
    "xs_path_globs s = filter (\<lambda>p. absolute p \<and> is_glob p) ?P" "xs_name_globs s = filter (\<lambda>p. \<not> absolute p) ?P"
    using assms by (simp_all add: set_inv_def)
  have "list_ex (\<lambda>p. is_under path p) (xs_prefixes s) \<longleftrightarrow>
      (\<exists>p\<in>set ?P. absolute p \<and> \<not> is_glob p \<and> is_under path (clean p))"
    unfolding inv by (auto simp: list_ex_iff)
  moreover have "list_ex (\<lambda>g. go_match g path = Some True) (xs_path_globs s) \<longleftrightarrow>
      (\<exists>p\<in>set ?P. absolute p \<and> is_glob p \<and> go_match p path = Some True)"
    unfolding inv by (simp only: list_ex_iff set_filter) blast
  moreover have "(xs_name_globs s \<noteq> [] \<and> list_ex (\<lambda>g. go_match g (base_name path) = Some True) (xs_name_globs s)) \<longleftrightarrow>
      (\<exists>p\<in>set ?P. \<not> absolute p \<and> go_match p (base_name path) = Some True)"
    unfolding l inv by (simp only: list_ex_iff set_filter) blast
  ultimately have "set_match s path \<longleftrightarrow>
      (\<exists>p\<in>set ?P. absolute p \<and> \<not> is_glob p \<and> is_under path (clean p)) \<or>
      (\<exists>p\<in>set ?P. absolute p \<and> is_glob p \<and> go_match p path = Some True) \<or>
      (\<exists>p\<in>set ?P. \<not> absolute p \<and> go_match p (base_name path) = Some True)"
    unfolding set_match_def by simp
  also have "\<dots> \<longleftrightarrow> (\<exists>p\<in>set ?P. pattern_match p path)"
    unfolding pattern_match_def by auto
  finally show ?thesis .
qed

lemma set_match_mono:
  "set_inv s \<Longrightarrow> set_inv s' \<Longrightarrow> set (xs_patterns s) \<subseteq> set (xs_patterns s') \<Longrightarrow> set_match s path \<Longrightarrow> set_match s' path"
  by (auto simp: set_match_patterns)

lemma set_match_same:
  "set_inv s \<Longrightarrow> set_inv s' \<Longrightarrow> set (xs_patterns s) = set (xs_patterns s') \<Longrightarrow> set_match s = set_match s'"
  by (rule ext) (simp add: set_match_patterns)

section \<open>Automatic paths, again\<close>

text \<open>What has become of a path that was added automatically.\<close>

definition settled_path :: "exclude_set \<Rightarrow> string \<Rightarrow> bool" where
  "settled_path s p \<longleftrightarrow> p = [] \<or> set_match s p \<or> p \<in> set (xs_patterns s) \<or>
     \<not> is_glob p \<and> absolute p \<and> xs_root s \<noteq> [] \<and> is_under (xs_root s) (clean p)"

lemma settled_mono:
  "settled_path s p \<Longrightarrow> set_inv s \<Longrightarrow> set_inv s' \<Longrightarrow> xs_root s' = xs_root s \<Longrightarrow>
   set (xs_patterns s) \<subseteq> set (xs_patterns s') \<Longrightarrow> settled_path s' p"
  using set_match_mono [of s s' p] by (auto simp: settled_path_def)

lemma add_one_settles:
  assumes "add_one s p = Inr s'"
  shows "settled_path s' p"
proof (cases "\<not> is_glob p \<and> absolute p \<and> xs_root s \<noteq> [] \<and> is_under (xs_root s) (clean p)")
  case True
  with assms have "xs_root s' = xs_root s" by (auto simp: add_one_def Let_def)
  with True show ?thesis by (simp add: settled_path_def)
next
  case False
  with assms have "p \<in> set (xs_patterns s')" by (auto simp: add_one_def Let_def split: if_splits)
  then show ?thesis by (simp add: settled_path_def)
qed

lemma add_one_patterns: "add_one s p = Inr s' \<Longrightarrow> set (xs_patterns s) \<subseteq> set (xs_patterns s')"
  by (erule add_one_cases) auto

lemma add_auto_settles:
  "add_auto s ps = Inr s' \<Longrightarrow> set_inv s \<Longrightarrow>
   set (xs_patterns s) \<subseteq> set (xs_patterns s') \<and> (\<forall>p\<in>set ps. settled_path s' (trim_space p))"
proof (induction s ps rule: add_auto.induct)
  case (2 s p ps)
  let ?p = "trim_space p"
  show ?case
  proof (cases "?p = [] \<or> set_match s ?p")
    case True
    with "2.prems" have next': "add_auto s ps = Inr s'" by (simp add: Let_def)
    have "settled_path s ?p" using True by (auto simp: settled_path_def)
    with "2.IH"(1) [OF refl True next' "2.prems"(2)] settled_mono [OF this "2.prems"(2)]
      add_auto_inv [OF next' "2.prems"(2)]
    show ?thesis by auto
  next
    case False
    with "2.prems" obtain s1 where s1: "add_one s ?p = Inr s1" "add_auto s1 ps = Inr s'"
      by (auto simp: Let_def split: sum.splits)
    have inv: "set_inv s1" using add_one_inv [OF s1(1) "2.prems"(2)] False by simp
    from "2.IH"(2) [OF refl False s1] inv
    have ih: "set (xs_patterns s1) \<subseteq> set (xs_patterns s')" "\<forall>p\<in>set ps. settled_path s' (trim_space p)" by auto
    have "settled_path s' ?p"
      using settled_mono [OF add_one_settles [OF s1(1)] inv] add_auto_inv [OF s1(2) inv] ih(1) by simp
    with ih add_one_patterns [OF s1(1)] show ?thesis by auto
  qed
qed simp

lemma add_one_again:
  assumes "set_inv s" and "settled_path s p" and "p \<noteq> []" and "\<not> set_match s p"
  shows "\<exists>s'. add_one s p = Inr s' \<and> set (xs_patterns s') = set (xs_patterns s)"
proof (cases "\<not> is_glob p \<and> absolute p \<and> xs_root s \<noteq> [] \<and> is_under (xs_root s) (clean p)")
  case True
  then show ?thesis by (simp add: add_one_def Let_def)
next
  case False
  then have p: "p \<in> set (xs_patterns s)" using assms by (auto simp: settled_path_def)
  then have "recorded (xs_root s) p" using assms(1) by (simp add: set_inv_def)
  with False p show ?thesis
    by (cases "is_glob p"; cases "absolute p")
      (auto simp: add_one_def Let_def recorded_def go_match_bad_pattern)
qed

lemma add_auto_again:
  "set_inv s \<Longrightarrow> \<forall>p\<in>set ps. settled_path s (trim_space p) \<Longrightarrow>
   \<exists>s'. add_auto s ps = Inr s' \<and> set_inv s' \<and> set (xs_patterns s') = set (xs_patterns s) \<and> xs_root s' = xs_root s"
proof (induction ps arbitrary: s)
  case Nil
  then show ?case by simp
next
  case (Cons p ps)
  let ?p = "trim_space p"
  show ?case
  proof (cases "?p = [] \<or> set_match s ?p")
    case True
    with Cons show ?thesis by (simp add: Let_def)
  next
    case False
    with Cons.prems add_one_again [of s ?p] obtain s1 where
      s1: "add_one s ?p = Inr s1" "set (xs_patterns s1) = set (xs_patterns s)" by auto
    have inv: "set_inv s1" "xs_root s1 = xs_root s"
      using add_one_inv [OF s1(1) Cons.prems(1)] False by simp_all
    have "\<forall>p\<in>set ps. settled_path s1 (trim_space p)"
      using Cons.prems settled_mono [OF _ Cons.prems(1) inv] s1(2) by auto
    with Cons.IH [OF inv(1)] s1 inv(2) False show ?thesis by (auto simp: Let_def)
  qed
qed

text \<open>The set of a later run of the program on the same host.\<close>

lemma new_set_again:
  assumes s: "new_set opts = Inr s" and c: "\<forall>p\<in>set (xo_auto opts). \<not> has_prefix (trim_space p) ''#''"
    and r: "r \<noteq> []" "xo_root opts \<noteq> []" "clean r = clean (xo_root opts)"
    and a: "set autos \<subseteq> set (xo_auto opts)"
  shows "\<exists>s'. new_set \<lparr>xo_goos = goos, xo_root = r, xo_no_defaults = True, xo_patterns = xs_patterns s,
      xo_auto = autos, xo_no_volatiles = nv\<rparr> = Inr s' \<and> set_match s' = set_match s"
proof -
  let ?s0 = "start_set r"
  have inv: "set_inv s" "no_comment s" "xs_root s = xs_root ?s0"
    using new_set_inv [OF s] c r by (auto simp: set_inv_start)
  then have "\<forall>p\<in>set (xs_patterns s). recorded (xs_root ?s0) p \<and> \<not> has_prefix p ''#''"
    by (simp add: set_inv_def no_comment_def)
  from add_recorded [OF set_inv_start(1) this] obtain s1 where
    s1: "add_patterns ?s0 (xs_patterns s) = Inr s1" "xs_patterns s1 = xs_patterns s" "set_inv s1"
      "xs_root s1 = xs_root s"
    using inv(3) by (auto simp: set_inv_start)
  obtain s2 s3 where s3: "add_auto s2 (xo_auto opts) = Inr s3" "set_inv s2"
    and eq: "xs_patterns s3 = xs_patterns s" "xs_root s3 = xs_root s" "set_inv s3"
  proof -
    let ?a0 = "start_set (xo_root opts)"
    obtain b1 b2 b3 where b: "(if xo_no_defaults opts then Inr ?a0 else add_patterns ?a0 (defaults (xo_goos opts))) = Inr b1"
        "add_patterns b1 (xo_patterns opts) = Inr b2" "add_auto b2 (xo_auto opts) = Inr b3"
        "s = (if xo_no_volatiles opts then b3 else b3\<lparr>xs_volatile := volatile_paths (xo_goos opts)\<rparr>)"
      using s by (auto simp: new_set_def Let_def split: sum.splits)
    have "set_inv b1" using b(1) add_patterns_inv [of ?a0] set_inv_start by (auto split: if_splits)
    with add_patterns_inv [OF b(2)] have "set_inv b2" by simp
    with that [OF b(3)] add_auto_inv [OF b(3)] b(4) show thesis by (auto split: if_splits)
  qed
  have m: "set_match s3 = set_match s1" using set_match_cong [OF eq(3) s1(3)] eq(1) s1(2) by simp
  have "settled_path s1 (trim_space p)" if "p \<in> set autos" for p
  proof -
    have "settled_path s3 (trim_space p)" using add_auto_settles [OF s3] that a by auto
    from settled_mono [OF this eq(3) s1(3)] eq(1,2) s1(2,4) show ?thesis by simp
  qed
  with add_auto_again [OF s1(3)] obtain s4 where
    s4: "add_auto s1 autos = Inr s4" "set_inv s4" "set (xs_patterns s4) = set (xs_patterns s1)" by blast
  let ?s' = "if nv then s4 else s4\<lparr>xs_volatile := volatile_paths goos\<rparr>"
  have "set_match s4 = set_match s"
    using set_match_same [OF s4(2) inv(1)] s4(3) s1(2) by simp
  moreover have "set_match (s4\<lparr>xs_volatile := v\<rparr>) = set_match s4" for v by (rule ext) (simp add: set_match_def)
  ultimately have "set_match ?s' = set_match s" by simp
  moreover have "new_set \<lparr>xo_goos = goos, xo_root = r, xo_no_defaults = True, xo_patterns = xs_patterns s,
      xo_auto = autos, xo_no_volatiles = nv\<rparr> = Inr ?s'"
    using s1(1) s4(1) by (simp add: new_set_def)
  ultimately show ?thesis by blast
qed

text \<open>An absolute path is no comment.\<close>

lemma absolute_no_comment:
  assumes "absolute p"
  shows "\<not> has_prefix (trim_space p) ''#''"
proof -
  obtain q where p: "p = CHR ''/'' # q" using assms by (auto simp: absolute_def has_prefix_iff)
  have "trim_left_of spaces p = p"
  proof (rule trim_left_of_fix, unfold find_None_iff, clarify)
    fix q assume "q \<in> set spaces" "has_prefix p q" "q \<noteq> []"
    then obtain r where "p = q @ r" by (auto simp: has_prefix_iff)
    with \<open>q \<noteq> []\<close> have "hd q = CHR ''/''" by (cases q) (simp_all add: p)
    with \<open>q \<in> set spaces\<close> \<open>q \<noteq> []\<close> spaces_not_plain show False by (fastforce simp: plain_def)
  qed
  moreover obtain x where "rev p = x @ trim_left_of (map rev spaces) (rev p)"
    using trim_left_of_done by blast
  ultimately have "rev p = x @ rev (trim_space p)" by (simp add: trim_space_def)
  then have "p = trim_space p @ rev x" by (metis rev_append rev_rev_ident)
  then show ?thesis by (auto simp: p has_prefix_iff)
qed

end
