(* ===== verification/Cmd_Drift.thy ===== *)
theory Cmd_Drift
  imports Cmd_Session Cmd_Join Cmd_Contract Exclude_Replay
begin

text \<open>
  A comparison after a baseline, on a later state of the same host: the perimeter is compiled
  again from the record and excludes the same paths, the directories that the fingerprint knows
  are entered again, and what is counted are the changes between what the baseline recorded and
  what the walk finds now.
\<close>

section \<open>The known directories\<close>

lemma iterate_drain:
  "drain dec r c = (es, End) \<Longrightarrow> iterate dec r (\<lambda>s e. (g s e, None)) s0 c = (foldl g s0 es, Ret ())"
proof (induction dec r c arbitrary: es s0 rule: drain.induct)
  case (1 dec r c)
  obtain p c' where p: "cursor_next dec r c = (p, c')" by (metis surj_pair)
  show ?case
  proof (cases p)
    case (Got e)
    obtain es' q where d: "drain dec r c' = (es', q)" by (metis surj_pair)
    with "1.prems" p Got have "es = e # es'" "q = End" by (auto simp: drain.simps [of dec r c])
    with "1.IH" [OF p [symmetric] Got] d p Got show ?thesis by (simp add: iterate.simps [of dec r _ _ c])
  qed (use "1.prems" p in \<open>auto simp: drain.simps [of dec r c] iterate.simps [of dec r _ _ c]\<close>)
qed

lemma load_dirs_drain:
  assumes "drain (cd_dec cd) r (reader_cursor r) = (es, End)"
  shows "\<exists>ds. load_dirs cd r = Inr ds \<and> set ds = e_path ` {e \<in> set es. is_dir e}"
proof -
  let ?g = "\<lambda>ds e. if is_dir e then e_path e # ds else ds"
  have l: "(\<lambda>ds e. (if is_dir e then e_path e # ds else ds, None)) = (\<lambda>ds e. (?g ds e, None))" by simp
  have "set (foldl ?g ds es) = set ds \<union> e_path ` {e \<in> set es. is_dir e}" for ds
    by (induction es arbitrary: ds) auto
  with iterate_drain [OF assms, of ?g "[]"] show ?thesis by (simp add: load_dirs_def)
qed

section \<open>The second walk\<close>

lemma walk_scan_expected:
  assumes "\<forall>k. \<not> sy_cancelled sy k" and "wo_mounts opts = MountAll \<or> one_device d t"
  shows "\<exists>st. walk_scan opts sy t = (st, None) \<and> ws_out st = expected opts sy (clean (wo_root opts)) t 0 d"
proof -
  obtain info link ls err where t: "t = Tree info link ls err" by (cases t)
  have "wo_mounts opts = MountAll \<or> one_device d t \<and> probe_dev info = d \<and> d = d"
    using assms(2) t by auto
  from visit_expected(1) [OF assms(1) this, of "clean (wo_root opts)" 0 walk_start]
  show ?thesis by (auto simp: t walk_scan_def walk_start_def)
qed

text \<open>Two walks that differ in \<open>Descend\<close> and the number of workers only.\<close>

definition same_walk :: "walk_options \<Rightarrow> walk_options \<Rightarrow> bool" where
  "same_walk o1 o2 \<longleftrightarrow> wo_mounts o2 = wo_mounts o1 \<and> wo_max_depth o2 = wo_max_depth o1 \<and>
     wo_max_file_size o2 = wo_max_file_size o1 \<and> wo_no_hash o2 = wo_no_hash o1 \<and> excluded o2 = excluded o1"

lemma finished_dir [simp]:
  "is_dir (finished opts sy e) = is_dir e" "is_dir (with_list_error d le e) = is_dir e"
  by (simp_all add: finished_def hash_entry_def is_dir_def with_list_error_def split: sum.splits option.splits)

lemma expected_known:
  assumes same: "same_walk o1 o2" and d: "wo_descend o1 = None" "wo_descend o2 = Some f"
    and f: "\<And>e. e_path e \<in> D \<Longrightarrow> f e"
  shows "(\<forall>x\<in>set (expected o1 sy path t depth dev). is_dir x \<longrightarrow> e_path x \<in> D) \<Longrightarrow>
      expected o2 sy path t depth dev = expected o1 sy path t depth dev"
    and "(\<forall>x\<in>set (expected_children o1 sy path ls depth dev). is_dir x \<longrightarrow> e_path x \<in> D) \<Longrightarrow>
      expected_children o2 sy path ls depth dev = expected_children o1 sy path ls depth dev"
proof (induction t and ls arbitrary: path depth dev and path depth dev rule: tree.induct listing.induct)
  case (Tree info link ls err)
  let ?e = "fill_entry path info link"
  have fin: "finished o2 sy e = finished o1 sy e" for e
    using same by (simp add: finished_def wants_hash_def same_walk_def)
  have "is_dir ?e \<longrightarrow> path \<in> D" using Tree.prems by (auto simp: Let_def)
  then have "enters o2 sy ?e depth dev = enters o1 sy ?e depth dev"
    using same d f [of ?e] by (auto simp: enters_def crosses_def same_walk_def)
  with Tree fin show ?case by (simp add: Let_def split: if_splits)
next
  case NoMore
  then show ?case by simp
next
  case (Gone n err ls)
  have ex: "excluded o2 = excluded o1" using same by (simp add: same_walk_def)
  from Gone.IH Gone.prems show ?case by (simp add: Let_def ex)
next
  case (Child n t ls)
  have ex: "excluded o2 = excluded o1" using same by (simp add: same_walk_def)
  from Child.prems have a: "\<not> excluded o1 (filepath_join path n) \<longrightarrow>
      (\<forall>x\<in>set (expected o1 sy (filepath_join path n) t (Suc depth) dev). is_dir x \<longrightarrow> e_path x \<in> D)"
    and b: "\<forall>x\<in>set (expected_children o1 sy path ls depth dev). is_dir x \<longrightarrow> e_path x \<in> D"
    by (auto simp: Let_def)
  from Child.IH(1) [of "filepath_join path n" "Suc depth" dev] a Child.IH(2) [OF b] show ?case
    by (auto simp: Let_def ex)
qed

lemma expected_cong:
  assumes same: "same_walk o1 o2" and d: "wo_descend o2 = wo_descend o1"
  shows "expected o2 sy path t depth dev = expected o1 sy path t depth dev"
    and "expected_children o2 sy path ls depth dev = expected_children o1 sy path ls depth dev"
proof (induction t and ls arbitrary: path depth dev and path depth dev rule: tree.induct listing.induct)
  case (Tree info link ls err)
  have "finished o2 sy e = finished o1 sy e" "enters o2 sy e depth dev = enters o1 sy e depth dev" for e
    using same d by (auto simp: finished_def wants_hash_def same_walk_def enters_def crosses_def)
  with Tree show ?case by (simp add: Let_def)
qed (use same in \<open>simp_all add: Let_def same_walk_def\<close>)

section \<open>The perimeter of the comparison\<close>

lemma clean_clean: "absolute p \<Longrightarrow> clean (clean p) = clean p" "absolute p \<Longrightarrow> absolute (clean p)" "absolute p \<Longrightarrow> clean p \<noteq> []"
  using clean_absolute [of p] clean_abs_path clean_abs_nonempty
  by (auto simp: clean_abs_def) (auto simp: abs_path_def absolute_def has_prefix_def)

lemma abs_name_absolute:
  assumes "abs_name o' path = Inr final" and "absolute (io_cwd o')"
  shows "absolute final"
proof -
  have "absolute (io_cwd o' @ ''/'' @ path)" using assms(2) by (auto simp: absolute_def has_prefix_iff)
  with assms(1) clean_clean(2) show ?thesis
    by (auto simp: abs_name_def absolute_def split: if_splits option.splits)
qed

lemma new_set_volatile:
  "new_set opts = Inr s \<Longrightarrow> \<not> xo_no_volatiles opts \<Longrightarrow> xs_volatile s = volatile_paths (xo_goos opts)"
  by (auto simp: new_set_def Let_def split: sum.splits if_splits)

lemma compare_set_again:
  assumes s: "baseline_set h bas info a fs = Inr s" and c: "create_atomic (ho_io h) path fs0 = Inr (a, fs)"
    and cwd: "absolute (io_cwd (ho_io h))" and self: "\<forall>p\<in>set (self_paths h). absolute p"
    and root: "absolute (string_flag bas ''root'' ''/'')"
    and m: "m_exclusions m = xs_patterns s" "m_system m = info" "so_root (m_scan m) = clean (string_flag bas ''root'' ''/'')"
  shows "\<exists>s'. compare_set h m [] [] = Inr s' \<and> set_match s' = set_match s \<and> set_volatile s' = set_volatile s"
proof -
  obtain ps where ns: "new_set \<lparr>xo_goos = oi_os info, xo_root = string_flag bas ''root'' ''/'',
      xo_no_defaults = bool_flag bas ''no-default-excludes'', xo_patterns = ps,
      xo_auto = self_paths h @ af_paths a, xo_no_volatiles = False\<rparr> = Inr s" (is "new_set ?o = _")
    using s by (auto simp: baseline_set_def split: sum.splits)
  have "absolute (af_final a)" "af_tmp a = af_final a @ ''.tmp''"
    using c abs_name_absolute [OF _ cwd, of path]
    by (auto simp: create_atomic_def Let_def split: sum.splits option.splits prod.splits)
  then have "\<forall>p\<in>set (xo_auto ?o). absolute p"
    using self by (auto simp: af_paths_def absolute_def has_prefix_iff)
  then have nc: "\<forall>p\<in>set (xo_auto ?o). \<not> has_prefix (trim_space p) ''#''"
    using absolute_no_comment by blast
  have r: "string_flag bas ''root'' ''/'' \<noteq> []" using root by (auto simp: absolute_def has_prefix_def)
  obtain s' where s': "new_set \<lparr>xo_goos = oi_os info, xo_root = clean (string_flag bas ''root'' ''/''), xo_no_defaults = True,
      xo_patterns = xs_patterns s, xo_auto = self_paths h, xo_no_volatiles = False\<rparr> = Inr s'" "set_match s' = set_match s"
    using new_set_again [OF ns nc, of "clean (string_flag bas ''root'' ''/'')" "self_paths h" "oi_os info" False]
      clean_clean [OF root] r by auto
  have "set_volatile s' = set_volatile s"
    using new_set_volatile [OF ns] new_set_volatile [OF s'(1)] by (auto simp: set_volatile_def)
  with s' show ?thesis by (auto simp: compare_set_def m)
qed

section \<open>The two runs\<close>

text \<open>
  A comparison with the file of that baseline, in a known format, with the privileges and the
  system that the baseline had.
\<close>

definition repeats :: "host \<Rightarrow> assignments \<Rightarrow> string \<Rightarrow> assignments \<Rightarrow> bool" where
  "repeats h bas key cas \<longleftrightarrow>
     string_flag cas ''b'' [] = baseline_target bas key \<and>
     string_flag cas ''format'' ''text'' \<in> {''text'', ''json''} \<and>
     (ho_euid h = 0 \<or> bool_flag cas ''allow-non-root'') \<and>
     (bool_flag cas ''allow-os-mismatch'' \<or> string_flag bas ''os-id'' [] = [])"

text \<open>
  What the command line of a comparison with a fingerprint of metadata \<open>m\<close> amounts to, if it is
  a valid one: the mode, the filters, the destination, the perimeter with the extra exclusions,
  and the files once the destination is open.
\<close>

definition compare_parts ::
  "host \<Rightarrow> string list \<Rightarrow> file_system \<Rightarrow> meta \<Rightarrow> assignments \<Rightarrow> new_dir_mode \<Rightarrow> join_options
     \<Rightarrow> atomic_file option \<Rightarrow> exclude_set \<Rightarrow> file_system \<Rightarrow> bool" where
  "compare_parts h args fs m cas mode jo d s fs' \<longleftrightarrow>
     parse_flags compare_flags [] args = Inr (cas, []) \<and>
     parse_new_dir_mode (string_flag cas ''new-dir-mode'' ''summary'') = Some mode \<and>
     (\<exists>autos opts. open_report_file h (string_flag cas ''o'' []) fs = Inr (d, autos, fs') \<and>
        compare_set h m (list_flag cas ''exclude'') autos = Inr s \<and>
        compare_join_options h cas opts mode fs' = Inr jo)"

text \<open>The report goes to the standard output, or to a file on a disk that works.\<close>

definition takes_report :: "host \<Rightarrow> assignments \<Rightarrow> file_system \<Rightarrow> bool" where
  "takes_report h cas fs \<longleftrightarrow>
     string_flag cas ''o'' [] = [] \<or> (no_links fs \<and> (\<forall>k. io_error (ho_io h) k = None))"

text \<open>Where a report ends up.\<close>

definition delivered :: "atomic_file option \<Rightarrow> console \<Rightarrow> console \<Rightarrow> string \<Rightarrow> bool" where
  "delivered d c c' rpt \<longleftrightarrow>
     (case d of
        None \<Rightarrow> co_fs c' = co_fs c \<and> concat (co_out c') = concat (co_out c) @ rpt
      | Some a \<Rightarrow> co_out c' = co_out c \<and> fs_read (co_fs c') (af_final a) = Some (bytes_of rpt) \<and>
          (\<forall>n. n \<noteq> af_final a \<and> n \<noteq> af_tmp a \<longrightarrow> fs_read (co_fs c') n = fs_read (co_fs c) n))"

lemma parse_policy_string [simp]: "parse_mount_policy (mount_policy_string p) = Inr p"
  by (cases p) (simp_all add: parse_mount_policy_def mount_policy_string_def)

lemma set_defaults_sel [simp]:
  "wo_mounts (set_defaults n o') = wo_mounts o'" "wo_max_file_size (set_defaults n o') = wo_max_file_size o'"
  "wo_no_hash (set_defaults n o') = wo_no_hash o'" "wo_descend (set_defaults n o') = wo_descend o'"
  "wo_max_depth (set_defaults n o') = (if wo_max_depth o' \<le> 0 then default_max_depth else wo_max_depth o')"
  by (simp_all add: set_defaults_def Let_def)

text \<open>A later state of the host of the baseline: the same machine, user and program.\<close>

definition later_host :: "host \<Rightarrow> host \<Rightarrow> bool" where
  "later_host h h' \<longleftrightarrow> ho_euid h' = ho_euid h \<and> ho_env h' = ho_env h \<and>
     io_cwd (ho_io h') = io_cwd (ho_io h) \<and> self_paths h' = self_paths h"

text \<open>A host whose scan runs undisturbed over the tree \<open>t\<close>, and which takes the report.\<close>

definition scannable :: "host \<Rightarrow> assignments \<Rightarrow> mount_policy \<Rightarrow> tree \<Rightarrow> bool" where
  "scannable h bas policy t \<longleftrightarrow>
     (\<forall>k. \<not> sy_cancelled (ho_system h) k) \<and> writer_ok h \<and>
     ho_stat h (clean (string_flag bas ''root'' ''/'')) = Inr True \<and>
     ho_tree h (clean (string_flag bas ''root'' ''/'')) = Inr t \<and> tree_is_dir t \<and> tree_ok t \<and>
     (policy = MountAll \<or> (\<exists>d. one_device d t)) \<and>
     absolute (io_cwd (ho_io h)) \<and> (\<forall>p\<in>set (self_paths h). absolute p)"

definition tree_dev :: "tree \<Rightarrow> u64" where
  "tree_dev t = (case t of Tree info _ _ _ \<Rightarrow> probe_dev info)"

text \<open>
  What a comparison sees: the intended entries of the tree under the perimeter of the baseline,
  entering only the directories that the baseline had, unless the mode is \<open>deep\<close>.
\<close>

definition live_options :: "host \<Rightarrow> assignments \<Rightarrow> mount_policy \<Rightarrow> exclude_set \<Rightarrow> entry list \<Rightarrow> new_dir_mode \<Rightarrow> walk_options" where
  "live_options h bas policy s base mode =
     set_defaults (sy_num_cpu (ho_system h)) ((baseline_options h bas policy s)
       \<lparr>wo_descend := Some (\<lambda>e. e_path e \<in> e_path ` {x \<in> set base. is_dir x} \<or> mode = DirDeep)\<rparr>)"

definition live_entries ::
  "host \<Rightarrow> assignments \<Rightarrow> mount_policy \<Rightarrow> exclude_set \<Rightarrow> entry list \<Rightarrow> new_dir_mode \<Rightarrow> tree \<Rightarrow> entry list" where
  "live_entries h bas policy s base mode t =
     expected (live_options h bas policy s base mode) (ho_system h) (clean (string_flag bas ''root'' ''/'')) t 0 (tree_dev t)"

lemma scan_dev: "scannable h bas policy t \<Longrightarrow> policy = MountAll \<or> one_device (tree_dev t) t"
  by (cases t) (auto simp: scannable_def tree_dev_def)

lemma live_walk:
  assumes st: "scannable h bas policy t" and root: "absolute (string_flag bas ''root'' ''/'')"
    and dirs: "set ds = e_path ` {e \<in> set base. is_dir e}" and m: "m_scan m = m_scan (parts_meta h0 bas policy info key s0)"
  shows "(\<exists>w. walk_scan (set_defaults n (compare_options m s policy jobs ds mode)) (ho_system h) t = (w, None) \<and>
    ws_out w = live_entries h bas policy s base mode t \<and> increasing (ws_out w)) \<and>
    same_walk (live_options h bas policy s base mode) (set_defaults n (compare_options m s policy jobs ds mode))"
proof -
  let ?o1 = "live_options h bas policy s base mode"
  let ?o2 = "set_defaults n (compare_options m s policy jobs ds mode)"
  have live: "\<forall>k. \<not> sy_cancelled (ho_system h) k" and ok: "tree_ok t" using st by (simp_all add: scannable_def)
  have r: "string_flag bas ''root'' ''/'' \<noteq> []" using root by (auto simp: absolute_def has_prefix_def)
  have roots: "wo_root (compare_options m s policy jobs ds mode) = clean (string_flag bas ''root'' ''/'')"
    using r m by (simp add: compare_options_def baseline_meta_def)
  have pol: "wo_mounts ?o2 = policy" by (simp add: compare_options_def)
  have same: "same_walk ?o1 ?o2"
    using m
    by (simp add: same_walk_def live_options_def compare_options_def baseline_options_def baseline_meta_def Let_def
        excluded_def fun_eq_iff)
  have desc: "wo_descend ?o2 = wo_descend ?o1"
    using dirs by (simp add: live_options_def compare_options_def descend_known_def fun_eq_iff)
  obtain w where w: "walk_scan ?o2 (ho_system h) t = (w, None)"
      "ws_out w = expected ?o2 (ho_system h) (clean (wo_root ?o2)) t 0 (tree_dev t)"
    using walk_scan_expected [OF live, of ?o2 "tree_dev t" t] scan_dev [OF st] unfolding pol by blast
  have root2: "clean (wo_root ?o2) = clean (string_flag bas ''root'' ''/'')"
    using roots r clean_clean [OF root] by (simp add: set_defaults_root)
  have "ws_out w = live_entries h bas policy s base mode t"
    unfolding w(2) root2 live_entries_def by (rule expected_cong(1) [OF same desc])
  moreover have "increasing (ws_out w)"
    by (rule walk_increasing [OF w(1) ok]) (use roots clean_clean [OF root] in simp)
  ultimately show ?thesis using w(1) same by blast
qed

text \<open>The filters of a command line do not depend on the options of the scan.\<close>

lemma join_options_again:
  "compare_join_options h cas o1 mode fs = Inr jo \<Longrightarrow>
   compare_join_options h cas o2 mode fs =
     Inr (jo\<lparr>jo_summarize := if mode = DirSummary then Some (summarize_dir h o2) else None\<rparr>)"
  unfolding compare_join_options_def Let_def by (auto split: sum.splits split del: if_split)

lemma shown_summarize [simp]:
  "shown (jo\<lparr>jo_summarize := f\<rparr>) = shown jo" "ignored_by (jo\<lparr>jo_summarize := f\<rparr>) = ignored_by jo"
  by (simp_all add: shown_def ignored_by_def fun_eq_iff)

lemma drift_stats_summarize [simp]: "drift_stats (jo\<lparr>jo_summarize := f\<rparr>) = drift_stats jo"
  by (simp add: drift_stats_def fun_eq_iff)

text \<open>What the report says of the two lists of entries.\<close>

definition drift_changes :: "join_options \<Rightarrow> entry list \<Rightarrow> entry list \<Rightarrow> change list" where
  "drift_changes jo base live = filter (shown jo) (changes_of base live)"

definition drift_summary :: "host \<Rightarrow> join_options \<Rightarrow> exclude_set \<Rightarrow> entry list \<Rightarrow> entry list \<Rightarrow> scan_stats \<Rightarrow> report_summary" where
  "drift_summary h jo s base live sc =
     \<lparr>rs_diff = drift_stats jo base live, rs_scan = sc, rs_elapsed = ho_elapsed h,
      rs_expected = length (filter (\<lambda>c. set_volatile s (c_path c)) (drift_changes jo base live))\<rparr>"

definition drift_text :: "(json_value \<Rightarrow> string) \<Rightarrow> host \<Rightarrow> assignments \<Rightarrow> meta \<Rightarrow> os_info \<Rightarrow> join_options \<Rightarrow> exclude_set
    \<Rightarrow> entry list \<Rightarrow> entry list \<Rightarrow> scan_stats \<Rightarrow> string" where
  "drift_text enc h cas m info jo s base live sc =
     (let fmt = string_flag cas ''format'' ''text'' in
      report_text enc fmt
        \<lparr>ro_color = use_color h fmt (string_flag cas ''o'' []) (bool_flag cas ''no-color''),
         ro_volatile = Some (set_volatile s)\<rparr>
        (compare_header h (string_flag cas ''b'' []) m info (list_flag cas ''exclude'') jo
           (string_flag cas ''new-dir-mode'' ''summary''))
        (map (summed jo) (drift_changes jo base live)) (drift_summary h jo s base live sc))"

text \<open>The counters of the scan: those of the live entries, and whatever was pruned.\<close>

definition counts_entries :: "scan_stats \<Rightarrow> entry list \<Rightarrow> bool" where
  "counts_entries sc es \<longleftrightarrow>
     (\<exists>pruned skipped. sc = (foldl count_entry no_stats es)\<lparr>sc_pruned := pruned, sc_skipped := skipped\<rparr>)"

lemma volatile_shown:
  "filter (\<lambda>c. shown jo c \<and> set_volatile s (c_path c)) cs = filter (\<lambda>c. set_volatile s (c_path c)) (filter (shown jo) cs)"
  by (simp add: conj_commute)

text \<open>The \<open>Summarize\<close> callback of a comparison walks the way the comparison does.\<close>

definition summarizes :: "host \<Rightarrow> new_dir_mode \<Rightarrow> walk_options \<Rightarrow> (string \<Rightarrow> dir_summary option) option \<Rightarrow> bool" where
  "summarizes h mode opts f \<longleftrightarrow>
     (if mode = DirSummary
      then \<exists>o2. f = Some (summarize_dir h o2) \<and> same_walk opts (set_defaults (sy_num_cpu (ho_system h)) o2)
      else f = None)"

lemma drift_report:
  assumes r: "drain (cd_dec cd) r (reader_cursor r) = (base, End)" and inc: "increasing base"
    and meta: "r_meta r = counted_meta (parts_meta h0 bas policy info key s0) base"
    and root: "absolute (string_flag bas ''root'' ''/'')"
    and rep: "repeats h bas key cas" and st: "scannable h bas policy t"
    and s: "compare_set h (r_meta r) (list_flag cas ''exclude'') autos = Inr s"
    and jo: "compare_join_options h cas opts mode fs = Inr jo" and live: "live = live_entries h bas policy s base mode t"
  shows "\<exists>body out f sc. compare_report h cd cas r info policy mode autos fs =
      (body, out, Inr (drift_stats jo base live, rs_expected (drift_summary h jo s base live sc))) \<and>
    stats_total (drift_stats jo base live) = length (drift_changes jo base live) \<and>
    summarizes h mode (live_options h bas policy s base mode) f \<and> counts_entries sc live \<and>
    (\<forall>enc. takes_all (ho_writer h) enc \<longrightarrow>
      body = drift_text enc h cas (r_meta r) info (jo\<lparr>jo_summarize := f\<rparr>) s base live sc)"
proof -
  let ?m = "r_meta r" and ?root = "clean (string_flag bas ''root'' ''/'')"
  have msel: "m_scan ?m = m_scan (parts_meta h0 bas policy info key s0)" "so_root (m_scan ?m) = ?root"
    by (simp_all add: meta counted_meta_def baseline_meta_def)
  obtain ds where ds: "load_dirs cd r = Inr ds" "set ds = e_path ` {e \<in> set base. is_dir e}"
    using load_dirs_drain [OF r] by blast
  let ?fmt = "string_flag cas ''format'' ''text''"
  let ?ro = "\<lparr>ro_color = use_color h ?fmt (string_flag cas ''o'' []) (bool_flag cas ''no-color''), ro_volatile = Some (set_volatile s)\<rparr>"
  obtain rp where rp: "new_reporter ?fmt [] ?ro = Inr (rp :: (string, string) reporter)" "rep_err rp = None"
  proof -
    obtain rp where n: "new_reporter ?fmt [] ?ro = Inr (rp :: (string, string) reporter)"
      using rep by (auto simp: repeats_def new_reporter_def)
    from that [OF n new_reporter_fresh [OF n]] show thesis .
  qed
  let ?o = "compare_options ?m s policy (int_flag cas ''jobs'' 0) ds mode"
  let ?f = "if mode = DirSummary then Some (summarize_dir h ?o) else None"
  let ?jo = "jo\<lparr>jo_summarize := ?f\<rparr>"
  note jo' = join_options_again [OF jo, of ?o]
  let ?hd = "compare_header h (string_flag cas ''b'' []) ?m info (list_flag cas ''exclude'') ?jo
    (string_flag cas ''new-dir-mode'' ''summary'')"
  have w: "writer_ok h" using st by (simp add: scannable_def)
  obtain rh where rh: "rep_header (ho_writer h) ?hd rp = (rh, None)" "rep_err rh = None"
    using rep_header_succeeds [OF w rp(2), of ?hd] by (metis prod.collapse)
  obtain w2 where w2: "walk_scan (set_defaults (sy_num_cpu (ho_system h)) ?o) (ho_system h) t = (w2, None)"
    "ws_out w2 = live" "increasing live"
    and same: "same_walk (live_options h bas policy s base mode) (set_defaults (sy_num_cpu (ho_system h)) ?o)"
    using live_walk [OF st root ds(2) msel(1)] unfolding live by metis
  have live': "increasing (ws_out w2)" using w2 by simp
  have t: "ho_tree h (clean (wo_root ?o)) = Inr t" "tree_is_dir t"
    using st clean_clean [OF root] msel(2) by (simp_all add: compare_options_def scannable_def)
  obtain rep' out st' n re where
    run: "compare_join h cd r cas ?o ?jo s rh = (rep', out, Inr (st', n))"
      "foldl (core_event ?jo (report_one h s)) ((rh, 0), zero_stats) (merge_events base live) = (re, st')"
      "snd re = n"
      "rep_close (ho_writer h) \<lparr>rs_diff = st', rs_scan = scanned w2, rs_elapsed = ho_elapsed h, rs_expected = n\<rparr> (fst re) =
        (rep', None)"
    by (rule compare_join_runs [OF w rh(2) t w2(1) r live', of cas ?jo s]) (auto simp: w2(2))
  have cs: "List.map_filter snd (merge_events base live) = changes_of base live"
    by (rule map_filter_changes [OF inc w2(3)])
  have sent: "fst re = fold (\<lambda>c r. fst (rep_change (ho_writer h) c r)) (map (summed ?jo) (drift_changes jo base live)) rh"
    using core_reports [of ?jo h s "((rh, 0), zero_stats)" "merge_events base live"] run(2)
    by (simp add: cs drift_changes_def)
  have stats: "st' = drift_stats jo base live"
    using core_drift_stats [OF inc w2(3), of ?jo "report_one h s" "(rh, 0)"] run(2) by simp
  have n: "n = rs_expected (drift_summary h jo s base live (scanned w2))"
    "stats_total st' = length (drift_changes jo base live)"
    using core_counts [of ?jo h s "((rh, 0), zero_stats)" "merge_events base live"] run(2,3)
    by (simp_all add: cs drift_summary_def drift_changes_def conj_commute)
  have scan: "counts_entries (scanned w2) live"
    unfolding counts_entries_def scanned_def w2(2) by blast
  have sum: "\<lparr>rs_diff = st', rs_scan = scanned w2, rs_elapsed = ho_elapsed h, rs_expected = n\<rparr> =
      drift_summary h ?jo s base live (scanned w2)"
    by (simp add: drift_summary_def stats n(1) drift_changes_def)
  have body: "rep_writer rep' = drift_text enc h cas ?m info ?jo s base live (scanned w2)" if "takes_all (ho_writer h) enc" for enc
    using report_run [OF that rp(1) rh(1) run(4) [unfolded sum sent]]
    by (simp add: drift_text_def Let_def drift_changes_def)
  have f: "summarizes h mode (live_options h bas policy s base mode) ?f" using same by (auto simp: summarizes_def)
  have "ho_stat h (so_root (m_scan ?m)) = Inr True" using st msel(2) by (simp add: scannable_def)
  then have "compare_report h cd cas r info policy mode autos fs =
      (rep_writer rep', out, Inr (drift_stats jo base live, rs_expected (drift_summary h jo s base live (scanned w2))))"
    by (simp add: compare_report_def Let_def ds(1) s rp(1) jo' rh(1) run(1) stats n(1))
  then show ?thesis
    using body scan n(2) f unfolding stats
    by (intro exI [of _ "rep_writer rep'"] exI [of _ out] exI [of _ ?f] exI [of _ "scanned w2"]) simp
qed

lemma same_system:
  assumes id: "identify h (string_flag bas ''os-id'' []) = Inr (info, key)" and "repeats h bas key cas"
  shows "fst (detect (ho_env h)) = info"
    and "bool_flag cas ''allow-os-mismatch'' \<or> snd (detect (ho_env h)) = None"
    and "m_key m = key \<Longrightarrow> m_privileged m = privileged h \<Longrightarrow>
      check_comparable h m info (bool_flag cas ''allow-os-mismatch'') = None"
proof -
  from id show "fst (detect (ho_env h)) = info"
    "bool_flag cas ''allow-os-mismatch'' \<or> snd (detect (ho_env h)) = None"
    "m_key m = key \<Longrightarrow> m_privileged m = privileged h \<Longrightarrow>
      check_comparable h m info (bool_flag cas ''allow-os-mismatch'') = None"
    using assms(2)
    by (auto simp: identify_def repeats_def check_comparable_def split: prod.splits option.splits sum.splits if_splits)
qed

lemma later_reads: "later_host h0 h \<Longrightarrow> open_verified h cd fs path = open_verified h0 cd fs path"
  by (simp add: later_host_def open_verified_def open_fingerprint_def read_file_def resolve_def)

lemma co_out_print [simp]: "co_out (print_err x c) = co_out c" "co_out (fold print_err out c) = co_out c"
proof -
  show one: "co_out (print_err x c) = co_out c" for x c by (simp add: print_err_def)
  show "co_out (fold print_err out c) = co_out c" by (induction out arbitrary: c) (simp_all add: one)
qed

text \<open>The end of a comparison whose report is complete: it is committed, or already printed.\<close>

lemma report_delivered:
  assumes o: "open_report_file h path (co_fs c) = Inr (d, autos, fs)"
    and io: "path = [] \<or> (no_links (co_fs c) \<and> (\<forall>k. io_error (ho_io h) k = None))"
  shows "\<exists>d' c1 c2. dest_write rpt d (fold print_err out (c\<lparr>co_fs := fs\<rparr>)) = (d', c1) \<and>
    dest_commit h d' c1 = (c2, None) \<and> delivered d c c2 rpt"
proof (cases "path = []")
  case True
  with o have "d = None" "c\<lparr>co_fs := fs\<rparr> = c" by (auto simp: open_report_file_def)
  then show ?thesis by (simp add: dest_write_def dest_commit_def delivered_def print_out_def)
next
  case False
  with o obtain a where a: "create_atomic (ho_io h) path (co_fs c) = Inr (a, fs)" "d = Some a"
    by (auto simp: open_report_file_def split: sum.splits)
  have io': "no_links (co_fs c)" "\<forall>k. io_error (ho_io h) k = None" using io False by simp_all
  note op = create_open [OF a(1) io'(1)]
  then have op': "af_open (co_fs c) a fs" "fs_data fs (af_inode a) = []" "af_buf a = []" by simp_all
  obtain a1 fs1 where w: "af_write (bytes_of rpt) 0 a fs = (a1, fs1)" by (metis surj_pair)
  note wo = write_open [OF op'(1) w]
  have tmp: "af_tmp a1 = af_tmp a" using w by (auto simp: af_write_def Let_def)
  have "snd (snd (af_commit (ho_io h) a1 fs1)) = None" using io'(2) by (simp add: af_commit_def sync_dir_def Let_def)
  then obtain a2 fs2 where m: "af_commit (ho_io h) a1 fs1 = (a2, fs2, None)" by (metis prod.collapse)
  note rd = commit_ok_reads [OF wo(1) m]
  have "fs_read fs2 (af_final a) = Some (bytes_of rpt)" using rd(1) wo(2,3) op'(2,3) by simp
  moreover have "fs_read fs2 n = fs_read (co_fs c) n" if "n \<noteq> af_final a" "n \<noteq> af_tmp a" for n
    using rd(2) [of n] that wo(2) tmp by simp
  ultimately show ?thesis using w m by (simp add: a(2) dest_write_def dest_commit_def delivered_def)
qed

text \<open>
  A comparison after a baseline: it ends, delivers its report and touches no other file, counts
  the changes between the entries of the baseline and those that are there now that pass the
  filters, and the exit code follows from them.
\<close>

lemma drift_compare:
  assumes "run_baseline h0 cd bargs c = (c1, None)" and p: "baseline_parts h0 bargs (co_fs c) bas policy info key s0 t0 ws"
    and "codec_ok cd" and "no_links (co_fs c)" and root: "absolute (string_flag bas ''root'' ''/'')" and tree: "tree_ok t0"
    and "within_limits cd (parts_meta h0 bas policy info key s0) (ws_out ws)"
    and m: "m = counted_meta (parts_meta h0 bas policy info key s0) (ws_out ws)"
    and parts: "compare_parts h cargs (co_fs c1) m cas mode jo d s fs'" and rep: "repeats h bas key cas"
    and takes: "takes_report h cas (co_fs c1)" and later: "later_host h0 h" and scan: "scannable h bas policy t"
    and live: "live = live_entries h bas policy s (ws_out ws) mode t" and fresh: "co_fs cc = co_fs c1"
  shows "\<exists>c2 body f sc n. run_compare h cd cargs cc = (c2, compare_exit cas (drift_stats jo (ws_out ws) live) n) \<and>
    delivered d cc c2 body \<and> counted_result h cd cargs cas (drift_stats jo (ws_out ws) live) n \<and>
    n = length (filter (\<lambda>c. set_volatile s (c_path c)) (drift_changes jo (ws_out ws) live)) \<and>
    stats_total (drift_stats jo (ws_out ws) live) = length (drift_changes jo (ws_out ws) live) \<and>
    summarizes h mode (live_options h bas policy s (ws_out ws) mode) f \<and> counts_entries sc live \<and>
    (\<forall>enc. takes_all (ho_writer h) enc \<longrightarrow>
      body = drift_text enc h cas m info (jo\<lparr>jo_summarize := f\<rparr>) s (ws_out ws) live sc)"
proof -
  let ?st = "drift_stats jo (ws_out ws) live"
  obtain r where walk: "baseline_walk h0 bas policy s0 t0 = (ws, None)"
    and op: "open_verified h cd (co_fs c1) (baseline_target bas key) = Inr r"
    and dr: "drain (cd_dec cd) r (reader_cursor r) = (ws_out ws, End)"
    and meta: "r_meta r = m"
    using baseline_reads_back [OF assms(1-7)] later_reads [OF later] m by auto
  have inc: "increasing (ws_out ws)" using baseline_walk_emits [OF walk tree root] by simp
  obtain autos opts where cp: "parse_flags compare_flags [] cargs = Inr (cas, [])"
    "parse_new_dir_mode (string_flag cas ''new-dir-mode'' ''summary'') = Some mode"
    "open_report_file h (string_flag cas ''o'' []) (co_fs c1) = Inr (d, autos, fs')"
    "compare_set h m (list_flag cas ''exclude'') autos = Inr s" "compare_join_options h cas opts mode fs' = Inr jo"
    using parts by (auto simp: compare_parts_def)
  obtain body out f sc where run: "compare_report h cd cas r info policy mode autos fs' =
      (body, out, Inr (?st, rs_expected (drift_summary h jo s (ws_out ws) live sc)))"
    and rest: "stats_total ?st = length (drift_changes jo (ws_out ws) live)"
      "summarizes h mode (live_options h bas policy s (ws_out ws) mode) f" "counts_entries sc live"
    and printed: "\<forall>enc. takes_all (ho_writer h) enc \<longrightarrow>
      body = drift_text enc h cas m info (jo\<lparr>jo_summarize := f\<rparr>) s (ws_out ws) live sc"
    using drift_report [OF dr inc meta [unfolded m] root rep scan cp(4) [folded meta] cp(5) live] unfolding meta by blast
  let ?n = "rs_expected (drift_summary h jo s (ws_out ws) live sc)"
  have env: "ho_env h = ho_env h0" "privileged h = privileged h0" using later by (simp_all add: later_host_def privileged_def)
  have id: "identify h (string_flag bas ''os-id'' []) = Inr (info, key)"
    using p env(1) by (simp add: baseline_parts_def identify_def)
  note sys = same_system [OF id rep]
  obtain cr where cr: "require_root h (bool_flag cas ''allow-non-root'') cc = (cr, None)" "co_fs cr = co_fs c1"
      "co_out cr = co_out cc"
    using rep fresh by (cases "ho_euid h = 0") (auto simp: require_root_def repeats_def)
  have fl: "string_flag cas ''b'' [] = baseline_target bas key" using rep by (simp add: repeats_def)
  have target: "baseline_target bas key \<noteq> []" by (simp add: baseline_target_def Let_def)
  obtain d' ca c2 where dest: "dest_write body d (fold print_err out (cr\<lparr>co_fs := fs'\<rparr>)) = (d', ca)"
    "dest_commit h d' ca = (c2, None)" "delivered d cr c2 body"
    using report_delivered [of h _ cr, unfolded cr(2), OF cp(3)] takes unfolding takes_report_def by blast
  have "compare_checked h cd cas mode r policy info cr = (c2, compare_exit cas ?st ?n)"
    using run cr(2) cp(3) dest(1,2) by (simp add: compare_checked_def)
  moreover have "check_comparable h (r_meta r) info (bool_flag cas ''allow-os-mismatch'') = None"
    by (rule sys(3)) (simp_all add: meta m counted_meta_def baseline_meta_def env(2))
  moreover have "parse_mount_policy (so_mounts (m_scan (r_meta r))) = Inr policy"
    by (simp add: meta m counted_meta_def baseline_meta_def baseline_options_def Let_def)
  ultimately have "run_compare h cd cargs cc = (c2, compare_exit cas ?st ?n)"
    using fresh sys(1,2) cp(1,2) cr op fl target
    by (auto simp: run_compare_def Let_def split: prod.splits split del: if_split)
  moreover have "counted_result h cd cargs cas ?st ?n"
    using cp(1) run sys(1) unfolding counted_result_def by blast
  moreover have "delivered d cc c2 body" using dest(3) cr(2,3) fresh by (simp add: delivered_def split: option.splits)
  moreover have "?n = length (filter (\<lambda>c. set_volatile s (c_path c)) (drift_changes jo (ws_out ws) live))"
    by (simp add: drift_summary_def)
  ultimately show ?thesis using rest printed
    by (intro exI [of _ c2] exI [of _ body] exI [of _ f] exI [of _ sc] exI [of _ ?n]) simp
qed

lemma changes_of_op: "c \<in> set (changes_of base live) \<Longrightarrow> c_op c \<noteq> OpNone"
  by (auto simp: changes_of_def List.map_filter_def event_at_def both_event_def removed_change_def added_change_def
      op_for_missing_def split: option.splits prod.splits if_splits)

lemma summed_op [simp]: "c_op (summed jo c) = c_op c"
  by (simp add: summed_def split: option.split)

text \<open>The same of the whole program, with the exit code.\<close>

lemma drift_osfp:
  assumes "osfp h0 cd (''baseline'' # bargs) fs = (c1, 0, diag)" and "baseline_parts h0 bargs fs bas policy info key s0 t0 ws"
    and "codec_ok cd" and "no_links fs" and "absolute (string_flag bas ''root'' ''/'')" and "tree_ok t0"
    and "within_limits cd (parts_meta h0 bas policy info key s0) (ws_out ws)"
    and m: "m = counted_meta (parts_meta h0 bas policy info key s0) (ws_out ws)"
    and "compare_parts h cargs (co_fs c1) m cas mode jo d s fs'" and "repeats h bas key cas"
    and "takes_report h cas (co_fs c1)" and "later_host h0 h" and "scannable h bas policy t"
    and live: "live = live_entries h bas policy s (ws_out ws) mode t" and cs: "cs = drift_changes jo (ws_out ws) live"
  shows "\<exists>c2 rpt f sc. osfp h cd (''compare'' # cargs) (co_fs c1) =
      (c2, if bool_flag cas ''fail-on-diff'' \<and> (\<exists>c\<in>set cs. \<not> set_volatile s (c_path c)) then 1 else 0, NoDiagnosis) \<and>
    delivered d (console_start (co_fs c1)) c2 rpt \<and> stats_total (drift_stats jo (ws_out ws) live) = length cs \<and>
    counted_result h cd cargs cas (drift_stats jo (ws_out ws) live) (length (filter (\<lambda>c. set_volatile s (c_path c)) cs)) \<and>
    summarizes h mode (live_options h bas policy s (ws_out ws) mode) f \<and> counts_entries sc live \<and>
    (\<forall>enc. takes_all (ho_writer h) enc \<longrightarrow>
      rpt = drift_text enc h cas m info (jo\<lparr>jo_summarize := f\<rparr>) s (ws_out ws) live sc)"
proof -
  let ?st = "drift_stats jo (ws_out ws) live"
  have start: "co_fs (console_start (co_fs c1)) = co_fs c1" by simp
  obtain c2 rpt f sc n where run: "run_compare h cd cargs (console_start (co_fs c1)) = (c2, compare_exit cas ?st n)"
    and n: "n = length (filter (\<lambda>c. set_volatile s (c_path c)) cs)" "stats_total ?st = length cs"
    and rest: "delivered d (console_start (co_fs c1)) c2 rpt" "counted_result h cd cargs cas ?st n"
      "summarizes h mode (live_options h bas policy s (ws_out ws) mode) f" "counts_entries sc live"
      "\<forall>enc. takes_all (ho_writer h) enc \<longrightarrow>
        rpt = drift_text enc h cas m info (jo\<lparr>jo_summarize := f\<rparr>) s (ws_out ws) live sc"
    using drift_compare [OF osfp_baseline_ok [OF assms(1)] _ assms(3) _ assms(5-14) start] assms(2,4)
    unfolding cs start by (simp only: co_fs_start) blast
  have "n < stats_total ?st \<longleftrightarrow> (\<exists>c\<in>set cs. \<not> set_volatile s (c_path c))"
    using fewer_filtered [of "\<lambda>_. True" "\<lambda>c. set_volatile s (c_path c)" cs] n by simp
  then have "outcome Compare (compare_exit cas ?st n) =
      (if bool_flag cas ''fail-on-diff'' \<and> (\<exists>c\<in>set cs. \<not> set_volatile s (c_path c)) then 1 else 0, NoDiagnosis)"
    by (simp add: compare_exit_def with_exit_def outcome_def exit_codes)
  with run have "osfp h cd (''compare'' # cargs) (co_fs c1) =
      (c2, if bool_flag cas ''fail-on-diff'' \<and> (\<exists>c\<in>set cs. \<not> set_volatile s (c_path c)) then 1 else 0, NoDiagnosis)"
    unfolding osfp_command by simp
  with rest n show ?thesis by (intro exI conjI) (assumption | simp)+
qed

section \<open>What the perimeter hides\<close>

lemma live_walk_scan:
  assumes "scannable h bas policy t" and root: "absolute (string_flag bas ''root'' ''/'')"
  shows "\<exists>w. walk_scan (live_options h bas policy s base mode) (ho_system h) t = (w, None) \<and>
    ws_out w = live_entries h bas policy s base mode t \<and>
    clean (wo_root (live_options h bas policy s base mode)) = clean (string_flag bas ''root'' ''/'') \<and>
    absolute (wo_root (live_options h bas policy s base mode))"
proof -
  let ?o = "live_options h bas policy s base mode"
  have live: "\<forall>k. \<not> sy_cancelled (ho_system h) k" using assms(1) by (simp add: scannable_def)
  have pol: "wo_mounts ?o = policy" by (simp add: live_options_def baseline_options_def Let_def)
  have r: "wo_root ?o = string_flag bas ''root'' ''/''"
    using root by (auto simp: live_options_def set_defaults_root absolute_def has_prefix_def)
  obtain w where "walk_scan ?o (ho_system h) t = (w, None)"
      "ws_out w = expected ?o (ho_system h) (clean (wo_root ?o)) t 0 (tree_dev t)"
    using walk_scan_expected [OF live, of ?o "tree_dev t" t] scan_dev [OF assms(1)] unfolding pol by blast
  then show ?thesis using root unfolding r live_entries_def by blast
qed

lemma entry_at_Some: "increasing es \<Longrightarrow> e \<in> set es \<Longrightarrow> entry_at es (e_path e) = Some e"
proof (induction es)
  case (Cons a es)
  show ?case
  proof (cases "e = a")
    case False
    with Cons.prems have "key_less (e_path a) (e_path e)" by auto
    with Cons False show ?thesis by (simp add: entry_at_tail)
  qed (simp add: entry_at_Cons)
qed simp

text \<open>No path at or below an excluded one is live, so the change of a recorded one is its removal.\<close>

lemma hidden_is_removed:
  assumes st: "scannable h bas policy t" and root: "absolute (string_flag bas ''root'' ''/'')" and inc: "increasing base"
    and q: "set_match s q" "clean_abs q" "is_under q (clean (string_flag bas ''root'' ''/''))"
      "q \<noteq> clean (string_flag bas ''root'' ''/'')"
    and e: "e \<in> set base" "is_under (e_path e) q"
  shows "removed_change e \<in> set (changes_of base (live_entries h bas policy s base mode t))"
proof -
  let ?o = "live_options h bas policy s base mode" and ?live = "live_entries h bas policy s base mode t"
  obtain w where w: "walk_scan ?o (ho_system h) t = (w, None)" "ws_out w = ?live"
    "clean (wo_root ?o) = clean (string_flag bas ''root'' ''/'')" "absolute (wo_root ?o)"
    using live_walk_scan [OF st root] by blast
  have "1 \<le> wo_max_depth ?o" by (simp add: live_options_def default_max_depth_def)
  moreover have "tree_ok t" using st by (simp add: scannable_def)
  ultimately have em: "increasing ?live" "\<forall>x\<in>set ?live. emitted_ok ?o (clean (wo_root ?o)) (nat (wo_max_depth ?o)) x"
    using walk_scan_emits [OF w(1) _ w(4)] w(2) by simp_all
  have "excluded ?o q"
    using q(1) by (simp add: excluded_def live_options_def baseline_options_def set_defaults_def Let_def)
  then have "e_path e \<notin> e_path ` set ?live" using em(2) q(2-4) e(2) w(3) by (auto simp: emitted_ok_def)
  then have "entry_at ?live (e_path e) = None" by (auto simp: entry_at_None)
  moreover have "entry_at base (e_path e) = Some e" by (rule entry_at_Some [OF inc e(1)])
  moreover have "e_path e \<in> set (all_paths base ?live)"
    using e(1) by (auto simp: all_paths_eq [OF inc em(1)] set_merge_paths)
  ultimately show ?thesis
    by (force simp: changes_of_def event_at_def List.map_filter_def)
qed

end
