(* ===== verification/Cmd_Unchanged.thy ===== *)
theory Cmd_Unchanged
  imports Cmd_Drift
begin

text \<open>
  A comparison of a system with its own, just taken, baseline: the second walk emits what the
  first one did, and the merge of a stream with itself reports nothing.
\<close>

section \<open>A stream against itself\<close>

lemma merge_events_same:
  "\<forall>e\<in>set es. e_err e = [] \<Longrightarrow> merge_events es es = map (\<lambda>_. (True, None)) es"
proof (induction es)
  case (Cons e es)
  have "fst (classify e e) = OpNone" using Cons.prems by (simp add: fst_classify)
  then have "both_event e e = (True, None)" by (cases "classify e e") (simp add: both_event_def)
  with Cons show ?case by (simp add: canon.irrefl)
qed simp

section \<open>The second walk\<close>

text \<open>A host that does not change between the two runs, can be read, and takes the report.\<close>

definition steady :: "host \<Rightarrow> assignments \<Rightarrow> mount_policy \<Rightarrow> tree \<Rightarrow> walk_state \<Rightarrow> bool" where
  "steady h bas policy t ws \<longleftrightarrow>
     (\<forall>k. \<not> sy_cancelled (ho_system h) k) \<and> writer_ok h \<and>
     ho_stat h (clean (string_flag bas ''root'' ''/'')) = Inr True \<and> tree_is_dir t \<and>
     (policy = MountAll \<or> (\<exists>d. one_device d t)) \<and>
     absolute (io_cwd (ho_io h)) \<and> (\<forall>p\<in>set (self_paths h). absolute p) \<and>
     (\<forall>e\<in>set (ws_out ws). e_err e = [])"

lemma steady_scannable:
  "steady h bas policy t ws \<Longrightarrow> baseline_parts h args fs bas policy info key s t ws \<Longrightarrow> tree_ok t \<Longrightarrow>
   scannable h bas policy t"
  by (simp add: steady_def scannable_def baseline_parts_def)

text \<open>The walk of the comparison emits what the walk of the baseline emitted.\<close>

lemma second_walk:
  assumes walk: "baseline_walk h bas policy s t = (ws, None)" and st: "scannable h bas policy t"
    and root: "absolute (string_flag bas ''root'' ''/'')"
  shows "live_entries h bas policy s (ws_out ws) mode t = ws_out ws"
proof -
  let ?o1 = "set_defaults (sy_num_cpu (ho_system h)) (baseline_options h bas policy s)"
  let ?o2 = "live_options h bas policy s (ws_out ws) mode"
  have live: "\<forall>k. \<not> sy_cancelled (ho_system h) k" using st by (simp add: scannable_def)
  have pol: "wo_mounts ?o1 = policy" by (simp add: baseline_options_def Let_def)
  have same: "same_walk ?o1 ?o2" by (simp add: same_walk_def live_options_def excluded_def fun_eq_iff)
  have desc: "wo_descend ?o1 = None"
    "wo_descend ?o2 = Some (\<lambda>e. e_path e \<in> e_path ` {x \<in> set (ws_out ws). is_dir x} \<or> mode = DirDeep)"
    by (simp_all add: baseline_options_def live_options_def Let_def)
  obtain w1 where w1: "walk_scan ?o1 (ho_system h) t = (w1, None)"
      "ws_out w1 = expected ?o1 (ho_system h) (clean (wo_root ?o1)) t 0 (tree_dev t)"
    using walk_scan_expected [OF live, of ?o1 "tree_dev t" t] scan_dev [OF st] unfolding pol by blast
  have roots: "clean (wo_root ?o1) = clean (string_flag bas ''root'' ''/'')"
    using root by (auto simp: set_defaults_root absolute_def has_prefix_def)
  have ws: "ws_out ws = expected ?o1 (ho_system h) (clean (string_flag bas ''root'' ''/'')) t 0 (tree_dev t)"
    using walk w1 roots by (simp add: baseline_walk_def)
  let ?D = "e_path ` {x \<in> set (ws_out ws). is_dir x}"
  have "\<forall>x\<in>set (expected ?o1 (ho_system h) (clean (string_flag bas ''root'' ''/'')) t 0 (tree_dev t)). is_dir x \<longrightarrow> e_path x \<in> ?D"
    unfolding ws [symmetric] by simp
  from expected_known(1) [OF same desc _ this] show ?thesis by (simp add: live_entries_def ws [symmetric])
qed

lemma later_same: "later_host h h"
  by (simp add: later_host_def)

text \<open>The live entries depend on what the perimeter excludes, not on how it was compiled.\<close>

lemma live_entries_match:
  assumes "set_match s' = set_match s"
  shows "live_entries h bas policy s' base mode t = live_entries h bas policy s base mode t"
proof -
  have "same_walk (live_options h bas policy s base mode) (live_options h bas policy s' base mode)"
    using assms by (simp add: same_walk_def live_options_def baseline_options_def excluded_def Let_def fun_eq_iff)
  then show ?thesis unfolding live_entries_def by (rule expected_cong(1)) (simp add: live_options_def)
qed

lemma unchanged_compare:
  assumes "run_baseline h cd bargs c = (c1, None)" and p: "baseline_parts h bargs (co_fs c) bas policy info key s t ws"
    and "codec_ok cd" and "no_links (co_fs c)" and root: "absolute (string_flag bas ''root'' ''/'')" and "tree_ok t"
    and "within_limits cd (parts_meta h bas policy info key s) (ws_out ws)"
    and m: "m = counted_meta (parts_meta h bas policy info key s) (ws_out ws)"
    and parts: "compare_parts h cargs (co_fs c1) m cas mode jo d s' fs'" and "repeats h bas key cas"
    and plain: "list_flag cas ''exclude'' = []" "string_flag cas ''o'' [] = []"
    and steady: "steady h bas policy t ws" and fresh: "co_fs cc = co_fs c1"
  shows "\<exists>c2 st. run_compare h cd cargs cc = (c2, None) \<and> co_fs c2 = co_fs c1 \<and>
    counted_result h cd cargs cas st 0 \<and> stats_total st = 0 \<and> st_compared st = length (ws_out ws)"
proof -
  have walk: "baseline_walk h bas policy s t = (ws, None)" using baseline_reads_back [OF assms(1-7)] by blast
  have sc: "scannable h bas policy t" by (rule steady_scannable [OF steady p assms(6)])
  obtain a fs0 where a: "create_atomic (ho_io h) (baseline_target bas key) (co_fs c) = Inr (a, fs0)"
    "baseline_set h bas info a fs0 = Inr s" using p by (auto simp: baseline_parts_def)
  have none_out: "d = None" and set': "compare_set h m [] [] = Inr s'"
    using parts plain by (auto simp: compare_parts_def open_report_file_def)
  have "m_exclusions m = xs_patterns s" "m_system m = info" "so_root (m_scan m) = clean (string_flag bas ''root'' ''/'')"
    by (simp_all add: m counted_meta_def baseline_meta_def)
  from compare_set_again [OF a(2,1) _ _ root this] set' sc have match: "set_match s' = set_match s"
    by (auto simp: scannable_def)
  have live: "ws_out ws = live_entries h bas policy s' (ws_out ws) mode t"
    unfolding live_entries_match [OF match] by (rule second_walk [OF walk sc root, symmetric])
  have inc: "increasing (ws_out ws)" using baseline_walk_emits [OF walk assms(6) root] by simp
  have err: "\<forall>e\<in>set (ws_out ws). e_err e = []" using steady by (simp add: steady_def)
  let ?st = "drift_stats jo (ws_out ws) (ws_out ws)"
  have none: "drift_changes jo (ws_out ws) (ws_out ws) = []"
    by (simp add: drift_changes_def join_with_itself [OF inc err])
  have takes: "takes_report h cas (co_fs c1)" by (simp add: takes_report_def plain)
  have "st_compared ?st = length (ws_out ws)"
    using count_common [OF inc inc] by (simp add: drift_stats_def Let_def merge_events_same [OF err])
  moreover obtain c2 rpt n where "run_compare h cd cargs cc = (c2, compare_exit cas ?st n)" "delivered d cc c2 rpt"
    "counted_result h cd cargs cas ?st n" "stats_total ?st = 0" "n = 0"
    using drift_compare [OF assms(1-10) takes later_same sc live fresh] by (auto simp: none)
  ultimately show ?thesis using fresh by (auto simp: compare_exit_def delivered_def none_out)
qed

end
