(* ===== verification/Cmd_Sample.thy ===== *)
theory Cmd_Sample
  imports Cmd_Unchanged
begin

text \<open>
  When \<open>baseline\<close> succeeds, and a host on which it does: root, one directory on one device, a
  file system with one other file, no compression. The properties of the commands are
  instantiated on it.
\<close>

section \<open>A baseline that succeeds\<close>

lemma consume_adds:
  "add_all (cd_enc cd) w es = (w', None) \<Longrightarrow>
   \<exists>sc' pl'. consume (record_entry h cd) es sc (pl, w) = (sc', None, (pl', w'))"
proof (induction es arbitrary: sc pl w)
  case Nil
  then show ?case by simp
next
  case (Cons e es)
  obtain w1 where a: "add (cd_enc cd) w e = (w1, None)" "add_all (cd_enc cd) w1 es = (w', None)"
    using Cons.prems by (auto split: prod.splits option.splits)
  then have "record_entry h cd (pl, w) e = ((tick h e pl, w1), None)" by (simp add: record_entry_def)
  with Cons.IH [OF a(2)] show ?case by (auto simp: Let_def)
qed

lemma baseline_scan_succeeds:
  assumes t: "ho_tree h (clean (wo_root opts)) = Inr t" "tree_is_dir t"
    and walk: "walk_scan (set_defaults (sy_num_cpu (ho_system h)) opts) (ho_system h) t = (ws, None)"
    and wr: "write_fingerprint (cd_enc cd) (cd_marshal cd) (scan_device h) m (ws_out ws) = Inr dev"
  shows "\<exists>out sp. baseline_scan h cd as opts m = (dev_data dev, out, Inr sp)"
proof -
  obtain w w1 w2 where w: "new_writer (cd_marshal cd) (scan_device h) m = Inr w"
      "add_all (cd_enc cd) w (ws_out ws) = (w1, None)" "close_writer (cd_enc cd) w1 = (w2, None)" "dev = w_dev w2"
    using wr by (auto simp: write_fingerprint_def split: sum.splits prod.splits option.splits)
  obtain sc p out where c: "consume (record_entry h cd) (ws_out ws) no_stats
      ((new_progress h (verbose_flag as), []), w) = (sc, None, ((p, out), w1))"
    using consume_adds [OF w(2), of h no_stats "(new_progress h (verbose_flag as), [])"] by auto
  from walk_consumes [OF walk t(2) c]
  have "walk opts (ho_system h) (ho_tree h (clean (wo_root opts))) (record_entry h cd)
      ((new_progress h (verbose_flag as), []), w) =
        (sc\<lparr>sc_pruned := ws_pruned ws, sc_skipped := ws_skipped ws\<rparr>, None, ((p, out), w1))" using t(1) by simp
  with w show ?thesis
    unfolding baseline_scan_def Let_def scan_device_def [symmetric] w(1) sum.case by simp
qed

lemma baseline_succeeds:
  assumes p: "baseline_parts h args (co_fs c) as policy info key s t ws"
    and walk: "baseline_walk h as policy s t = (ws, None)" and t: "tree_is_dir t"
    and wr: "write_fingerprint (cd_enc cd) (cd_marshal cd) (scan_device h) (parts_meta h as policy info key s) (ws_out ws) = Inr dev"
    and root: "ho_euid h = 0" and free: "bool_flag as ''force'' \<or> \<not> stat_exists h (co_fs c) (baseline_target as key)"
    and io: "\<forall>k. io_error (ho_io h) k = None"
  shows "\<exists>c'. run_baseline h cd args c = (c', None)"
proof -
  let ?opts = "baseline_options h as policy s"
  obtain a fs where a: "create_atomic (ho_io h) (baseline_target as key) (co_fs c) = Inr (a, fs)"
    "baseline_set h as info a fs = Inr s" using p by (auto simp: baseline_parts_def)
  obtain out sp where scan: "baseline_scan h cd as ?opts (baseline_meta h info key ?opts s) = (dev_data dev, out, Inr sp)"
    using baseline_scan_succeeds [OF _ t walk [unfolded baseline_walk_def] wr, of as] p
    by (auto simp: baseline_parts_def)
  obtain a1 fs1 where w: "af_write (dev_data dev) 0 a fs = (a1, fs1)" by (metis surj_pair)
  have "snd (snd (af_commit (ho_io h) a1 fs1)) = None" using io by (simp add: af_commit_def sync_dir_def Let_def)
  then obtain a2 fs2 where m: "af_commit (ho_io h) a1 fs1 = (a2, fs2, None)" by (metis prod.collapse)
  have "\<exists>c'. baseline_file h cd as policy info key (baseline_target as key) a (c\<lparr>co_fs := fs\<rparr>) = (c', None)"
    by (cases sp) (simp add: baseline_file_def Let_def a(2) scan w m)
  moreover have "require_root h (bool_flag as ''allow-non-root'') c = (c, None)" using root by (simp add: require_root_def)
  ultimately show ?thesis
    using p a(1) free unfolding run_baseline_def baseline_parts_def baseline_target_def Let_def
    by (auto cong: if_cong split del: if_split)
qed

section \<open>The host\<close>

definition sample_env :: env where
  "sample_env = \<lparr>ev_goos = ''linux'', ev_goarch = ''amd64'', ev_read_file = (\<lambda>_. None), ev_uname = None,
     ev_hostname = None, ev_run = (\<lambda>_ _. None), ev_unicode_lower = (\<lambda>s. s), ev_xml_tokens = (\<lambda>_. [])\<rparr>"

definition sample_host :: host where
  "sample_host = \<lparr>ho_euid = 0, ho_env = sample_env, ho_now = 0, ho_clock = (\<lambda>_. 0), ho_elapsed = 0,
     ho_build = \<lparr>bu_version = ''1'', bu_commit = [], bu_info = None, bu_go = ''go'', bu_cgo = False\<rparr>,
     ho_io = working_io, ho_executable = None, ho_resolved = None, ho_system = nfs_system,
     ho_tree = (\<lambda>p. if p = ''/r'' then Inr (dir_on 1 NoMore) else Inl ''no such file''),
     ho_stat = (\<lambda>_. Inr True), ho_ctx_done = False, ho_room = None,
     ho_writer = \<lparr>wr_text = (\<lambda>w s. (w @ s, None)), wr_json = (\<lambda>w v. (w, None))\<rparr>,
     ho_no_color = True, ho_stdout_tty = False, ho_stderr_tty = False\<rparr>"

text \<open>The same host with another tree at \<open>/r\<close>.\<close>

definition host_with :: "tree \<Rightarrow> host" where
  "host_with t = sample_host\<lparr>ho_tree := \<lambda>p. if p = ''/r'' then Inr t else Inl ''no such file''\<rparr>"

lemma host_with_sample: "host_with (dir_on 1 NoMore) = sample_host"
  by (simp add: host_with_def sample_host_def)

lemma host_with_simps [simp]:
  "ho_euid (host_with t) = 0" "ho_env (host_with t) = sample_env" "ho_io (host_with t) = working_io"
  "ho_system (host_with t) = nfs_system" "self_paths (host_with t) = []" "ho_room (host_with t) = None"
  "ho_writer (host_with t) = \<lparr>wr_text = (\<lambda>w s. (w @ s, None)), wr_json = (\<lambda>w v. (w, None))\<rparr>"
  "ho_stat (host_with t) = (\<lambda>_. Inr True)" "ho_tree (host_with t) ''/r'' = Inr t"
  by (simp_all add: host_with_def sample_host_def self_paths_def)

definition sample_args :: "string list" where
  "sample_args = [''-o'', ''/f.osfp'', ''--os-id'', ''k'', ''--root'', ''/r'', ''--no-default-excludes'']"

definition sample_flags :: assignments where
  "sample_flags = [(''o'', VString ''/f.osfp''), (''os-id'', VString ''k''), (''root'', VString ''/r''),
     (''no-default-excludes'', VBool True)]"

definition sample_again :: "string list" where
  "sample_again = [''-b'', ''/f.osfp'', ''--allow-os-mismatch'', ''--fail-on-diff'']"

definition sample_again_flags :: assignments where
  "sample_again_flags = [(''b'', VString ''/f.osfp''), (''allow-os-mismatch'', VBool True), (''fail-on-diff'', VBool True)]"

lemma sample_parsed: "parse_flags baseline_flags [] sample_args = Inr (sample_flags, [])"
  "parse_flags compare_flags [] sample_again = Inr (sample_again_flags, [])"
  by code_simp+

lemma sample_values:
  "string_flag sample_flags ''mounts'' ''local'' = ''local''" "string_flag sample_flags ''os-id'' [] = ''k''"
  "string_flag sample_flags ''root'' ''/'' = ''/r''" "string_flag sample_flags ''exclude-from'' [] = []"
  "list_flag sample_flags ''exclude'' = []" "bool_flag sample_flags ''no-default-excludes''"
  "baseline_target sample_flags key = ''/f.osfp''"
  by code_simp+

lemma sample_key: "normalize_key ''k'' = Inr ''k''"
  by code_simp

lemma clean_sample: "clean ''/r'' = ''/r''" "clean ''/f.osfp'' = ''/f.osfp''" "clean ''/f.osfp.tmp'' = ''/f.osfp.tmp''"
  by (simp_all add: clean_def clean_step_def has_prefix_def Let_def)

lemma clean_r_x: "clean ''/r/x'' = ''/r/x''"
  by (simp add: clean_def clean_step_def has_prefix_def Let_def)

lemma host_create:
  "\<exists>fs. create_atomic (ho_io (host_with t)) ''/f.osfp'' sample_fs =
     Inr (\<lparr>af_final = ''/f.osfp'', af_tmp = ''/f.osfp.tmp'', af_inode = 1, af_buf = [], af_done = False\<rparr>, fs)"
  by (simp add: create_atomic_def abs_name_def clean_sample has_prefix_def working_io_def
      sample_fs_def sys_open_trunc_def Let_def)

lemmas sample_create = host_create [of "dir_on 1 NoMore", unfolded host_with_sample]

lemma trim_sample: "trim_space ''/f.osfp'' = ''/f.osfp''" "trim_space ''/f.osfp.tmp'' = ''/f.osfp.tmp''"
  "trim_space ''/r/x'' = ''/r/x''"
  by (simp_all add: trim_space_plain plain_def)

lemma sample_not_volatile: "xs_volatile s = volatile_paths goos \<Longrightarrow> \<not> set_volatile s ''/r/x''"
  by (simp add: set_volatile_def volatile_paths_def volatile_defaults_def os_volatile_def is_under_def has_prefix_def)

lemma host_baseline_set:
  "\<exists>s. baseline_set (host_with t) sample_flags info
     \<lparr>af_final = ''/f.osfp'', af_tmp = ''/f.osfp.tmp'', af_inode = 1, af_buf = [], af_done = False\<rparr> fs = Inr s \<and>
     xs_patterns s = [''/f.osfp'', ''/f.osfp.tmp''] \<and> \<not> set_match s ''/r/x'' \<and> \<not> set_volatile s ''/r/x''"
proof -
  have "\<exists>s. new_set \<lparr>xo_goos = g, xo_root = ''/r'', xo_no_defaults = True, xo_patterns = [],
      xo_auto = [''/f.osfp'', ''/f.osfp.tmp''], xo_no_volatiles = False\<rparr> = Inr s \<and>
      xs_patterns s = [''/f.osfp'', ''/f.osfp.tmp''] \<and> \<not> set_match s ''/r/x''" for g
    by (simp add: new_set_def start_set_def empty_set_def add_one_def trim_sample clean_sample Let_def set_match_def
        has_prefix_def is_glob_def contains_any_def absolute_def is_under_def)
  then obtain s where s: "new_set \<lparr>xo_goos = oi_os info, xo_root = ''/r'', xo_no_defaults = True, xo_patterns = [],
      xo_auto = [''/f.osfp'', ''/f.osfp.tmp''], xo_no_volatiles = False\<rparr> = Inr s"
      "xs_patterns s = [''/f.osfp'', ''/f.osfp.tmp''] \<and> \<not> set_match s ''/r/x''" by blast
  have "\<not> set_volatile s ''/r/x''" by (rule sample_not_volatile) (use new_set_volatile [OF s(1)] in simp)
  with s show ?thesis
    by (simp add: baseline_set_def baseline_patterns_def sample_values af_paths_def Let_def)
qed

lemma host_identify: "\<exists>info. identify (host_with t) ''k'' = Inr (info, ''k'')"
  by (cases "detect sample_env") (simp add: identify_def sample_key)

text \<open>What the scan of the sample host emits.\<close>

definition sample_dir :: entry where
  "sample_dir = fill_entry ''/r'' (info_on 1 (mode_dir OR 0x1ED)) (Inr [])"

lemma sample_dir_facts:
  "e_path sample_dir = ''/r''" "e_err sample_dir = []" "e_type sample_dir = type_dir" "entry_wf sample_dir"
  "entry_fits sample_dir"
proof -
  show "e_path sample_dir = ''/r''" "e_err sample_dir = []" "e_type sample_dir = type_dir" by code_simp+
  show "entry_wf sample_dir" unfolding sample_dir_def by (rule entry_wf_fill)
  show "entry_fits sample_dir" by (simp add: sample_dir_def entry_fits_def fill_entry_def fill_stat_def info_on_def Let_def)
qed

lemma sample_scan:
  "\<exists>ws. baseline_walk sample_host sample_flags MountLocal s (dir_on 1 NoMore) = (ws, None) \<and> ws_out ws = [sample_dir]"
proof -
  let ?o = "set_defaults 1 (baseline_options sample_host sample_flags MountLocal s)"
  have live: "\<forall>k. \<not> sy_cancelled nfs_system k" by (simp add: nfs_system_def)
  have one: "one_device 1 (dir_on 1 NoMore)"
    by (simp add: dir_on_def info_on_def probe_dev_def fill_stat_def)
  have root: "wo_root ?o = ''/r''" by (simp add: set_defaults_root sample_values)
  obtain ws where ws: "walk_scan ?o nfs_system (dir_on 1 NoMore) = (ws, None)"
    "ws_out ws = expected ?o nfs_system ''/r'' (dir_on 1 NoMore) 0 1"
    using walk_scan_expected [OF live disjI2 [OF one], of ?o] root clean_sample(1) by auto
  have "ws_out ws = [sample_dir]"
    using ws(2) sample_dir_facts(3)
    by (simp add: dir_on_def Let_def with_list_error_def finished_def wants_hash_def sample_dir_def)
  moreover have "sy_num_cpu (ho_system sample_host) = 1" "ho_system sample_host = nfs_system"
    by (simp_all add: sample_host_def nfs_system_def)
  ultimately show ?thesis using ws(1) by (auto simp: baseline_walk_def)
qed

definition sample_codec :: "meta \<Rightarrow> codec" where
  "sample_codec m = \<lparr>cd_enc = (\<lambda>p. p), cd_dec = Some, cd_marshal = (\<lambda>m'. if m' = m then Some [] else None),
     cd_unmarshal = (\<lambda>_. Some (json_fields m)), cd_indent = (\<lambda>_. Inl [])\<rparr>"

lemma sample_codec_ok: "codec_ok (sample_codec m)"
  by (simp add: codec_ok_def sample_codec_def zstd_ok_stored)

lemma small_sizes:
  assumes ch: "chunks [] (e # es) = [e # es]" and len: "length (encode_entries [] (e # es)) \<le> 200000"
    and p: "length (e_path e) \<le> 10"
  shows "sizes_ok (\<lambda>p. p) [] (e # es)"
proof -
  have "length (put_uvarint (of_nat (length (e_path e)))) \<le> 10" by (rule length_put_uvarint)
  with p have idx: "length (index_bytes (layout (\<lambda>p. p) 32 [e # es])) \<le> 100"
    using length_put_uvarint [of 1] length_put_uvarint [of 32]
      length_put_uvarint [of "of_nat (length (block_image (\<lambda>p. p) (e # es)))"]
      length_put_uvarint [of "of_nat (Suc (length es))"]
    by (simp add: index_bytes_def put_index_entry_def put_str_def)
  show ?thesis unfolding sizes_ok_def ch
    using len idx by (simp add: length_signed_part block_image_def length_section_bytes)
qed

lemma dir_on_is_dir: "tree_is_dir (dir_on 1 ls)"
proof -
  have "info_is_dir (info_on 1 (mode_dir OR 0x1ED))" by code_simp
  then show ?thesis by (simp add: tree_is_dir_def dir_on_def)
qed

text \<open>A baseline of the host with a given tree.\<close>

lemma host_session:
  assumes dir: "tree_is_dir t" and es: "stored es" "sizes_ok (\<lambda>p. p) [] es"
    and scan: "\<And>s. \<not> set_match s ''/r/x'' \<Longrightarrow>
      \<exists>ws. baseline_walk (host_with t) sample_flags MountLocal s t = (ws, None) \<and> ws_out ws = es"
  shows "\<exists>info s ws cd c1. run_baseline (host_with t) cd sample_args (console_start sample_fs) = (c1, None) \<and>
     baseline_parts (host_with t) sample_args (co_fs (console_start sample_fs)) sample_flags MountLocal info ''k'' s t ws \<and>
     codec_ok cd \<and> within_limits cd (parts_meta (host_with t) sample_flags MountLocal info ''k'' s) (ws_out ws) \<and>
     ws_out ws = es \<and> xs_patterns s = [''/f.osfp'', ''/f.osfp.tmp''] \<and>
     \<not> set_match s ''/r/x'' \<and> \<not> set_volatile s ''/r/x''"
proof -
  obtain info where info: "identify (host_with t) ''k'' = Inr (info, ''k'')" using host_identify by blast
  let ?a = "\<lparr>af_final = ''/f.osfp'', af_tmp = ''/f.osfp.tmp'', af_inode = 1, af_buf = [], af_done = False\<rparr>"
  obtain fs where a: "create_atomic (ho_io (host_with t)) ''/f.osfp'' sample_fs = Inr (?a, fs)" using host_create by blast
  obtain s where s: "baseline_set (host_with t) sample_flags info ?a fs = Inr s" "xs_patterns s = [''/f.osfp'', ''/f.osfp.tmp'']"
    and free: "\<not> set_match s ''/r/x''" "\<not> set_volatile s ''/r/x''" using host_baseline_set by blast
  obtain ws where ws: "baseline_walk (host_with t) sample_flags MountLocal s t = (ws, None)" "ws_out ws = es"
    using scan [OF free(1)] by blast
  let ?m = "parts_meta (host_with t) sample_flags MountLocal info ''k'' s"
  have p: "baseline_parts (host_with t) sample_args sample_fs sample_flags MountLocal info ''k'' s t ws"
    using info a s ws(1) clean_sample
    by (auto simp: baseline_parts_def sample_parsed sample_values parse_mount_policy_def)
  obtain dev where dev: "write_fingerprint (cd_enc (sample_codec ?m)) (cd_marshal (sample_codec ?m)) (scan_device (host_with t))
      ?m (ws_out ws) = Inr dev"
    using write_fingerprint_room [of "scan_device (host_with t)" "cd_marshal (sample_codec ?m)" ?m "[]" es, OF _ _ _ es(1)]
    by (auto simp: ws(2) scan_device_def sample_codec_def)
  have "\<exists>c1. run_baseline (host_with t) (sample_codec ?m) sample_args (console_start sample_fs) = (c1, None)"
    using baseline_succeeds [of "host_with t" sample_args "console_start sample_fs" sample_flags MountLocal info "''k''" s _ ws,
        OF _ ws(1) dir dev] p
    by (simp add: console_start_def working_io_def stat_exists_def sample_values resolve_def
        has_prefix_def clean_sample sample_fs_def)
  moreover have "within_limits (sample_codec ?m) ?m (ws_out ws)"
    using es ws(2) by (simp add: within_limits_def sample_codec_def stored_def)
  moreover have "baseline_parts (host_with t) sample_args (co_fs (console_start sample_fs)) sample_flags MountLocal info
      ''k'' s t ws" using p by (simp add: console_start_def)
  moreover have "ws_out ws = es" by (rule ws(2))
  moreover have "codec_ok (sample_codec ?m)" by (rule sample_codec_ok)
  moreover note free s(2)
  ultimately show ?thesis by (elim exE) (intro exI conjI, assumption+)
qed

lemma sample_session:
  "\<exists>info s ws cd c1. run_baseline sample_host cd sample_args (console_start sample_fs) = (c1, None) \<and>
     baseline_parts sample_host sample_args (co_fs (console_start sample_fs)) sample_flags MountLocal info ''k'' s (dir_on 1 NoMore) ws \<and>
     codec_ok cd \<and> within_limits cd (parts_meta sample_host sample_flags MountLocal info ''k'' s) (ws_out ws) \<and>
     steady sample_host sample_flags MountLocal (dir_on 1 NoMore) ws \<and> ws_out ws = [sample_dir] \<and>
     xs_patterns s = [''/f.osfp'', ''/f.osfp.tmp'']"
proof -
  have dir: "tree_is_dir (dir_on 1 NoMore)" by (rule dir_on_is_dir)
  have "length (encode_entries [] [sample_dir]) \<le> 200000"
    using length_append_entry [OF sample_dir_facts(4,5), of "[]" "[]"] by simp
  then have es: "stored [sample_dir]" "sizes_ok (\<lambda>p. p) [] [sample_dir]"
    using sample_dir_facts small_sizes [of sample_dir "[]"] by (simp_all add: stored_def)
  have "steady sample_host sample_flags MountLocal (dir_on 1 NoMore) ws" if "ws_out ws = [sample_dir]" for ws
    using that sample_dir_facts(2) dir
    by (auto simp: steady_def writer_ok_def sample_host_def nfs_system_def working_io_def self_paths_def absolute_def
        has_prefix_def dir_on_def info_on_def probe_dev_def fill_stat_def)
  with host_session [OF dir es, unfolded host_with_sample] sample_scan show ?thesis by blast
qed

lemma sample_session_ok:
  "no_links (co_fs (console_start sample_fs))" "absolute (string_flag sample_flags ''root'' ''/'')"
  "tree_ok (dir_on 1 NoMore)" "repeats sample_host sample_flags ''k'' sample_again_flags"
  "self_paths sample_host = []"
proof -
  show "no_links (co_fs (console_start sample_fs))" by (simp add: console_start_def no_links_def sample_fs_def)
  show "absolute (string_flag sample_flags ''root'' ''/'')" by (simp add: sample_values absolute_def has_prefix_def)
  show "tree_ok (dir_on 1 NoMore)" by (simp add: dir_on_def)
  show "self_paths sample_host = []" by (simp add: self_paths_def sample_host_def)
  show "repeats sample_host sample_flags ''k'' sample_again_flags" by code_simp
qed

section \<open>The command line of the comparison\<close>

lemma sample_compare_set:
  assumes "self_paths h = []" and m: "m_exclusions m = [''/f.osfp'', ''/f.osfp.tmp'']" "so_root (m_scan m) = ''/r''"
  shows "\<exists>s'. compare_set h m [] [] = Inr s' \<and> \<not> set_match s' ''/r/x'' \<and> \<not> set_volatile s' ''/r/x''"
    and "\<exists>s'. compare_set h m [''/r/x''] [] = Inr s' \<and> set_match s' ''/r/x'' \<and> \<not> set_volatile s' ''/r/x''"
proof -
  let ?o = "\<lambda>ps g. \<lparr>xo_goos = g, xo_root = ''/r'', xo_no_defaults = True, xo_patterns = ps, xo_auto = [], xo_no_volatiles = False\<rparr>"
  note defs = new_set_def start_set_def empty_set_def add_one_def trim_sample clean_sample Let_def set_match_def
        has_prefix_def is_glob_def contains_any_def absolute_def is_under_def
  have n: "\<exists>s. new_set (?o [''/f.osfp'', ''/f.osfp.tmp''] g) = Inr s \<and> \<not> set_match s ''/r/x''" for g
    by (simp add: defs)
  have x: "\<exists>s. new_set (?o [''/f.osfp'', ''/f.osfp.tmp'', ''/r/x''] g) = Inr s \<and> set_match s ''/r/x''" for g
    by (simp add: defs clean_r_x)
  have vol: "\<not> set_volatile s ''/r/x''" if "new_set (?o ps g) = Inr s" for s ps g
    by (rule sample_not_volatile) (use new_set_volatile [OF that] in simp)
  show "\<exists>s'. compare_set h m [] [] = Inr s' \<and> \<not> set_match s' ''/r/x'' \<and> \<not> set_volatile s' ''/r/x''"
    using n [of "oi_os (m_system m)"] vol by (auto simp: compare_set_def assms)
  show "\<exists>s'. compare_set h m [''/r/x''] [] = Inr s' \<and> set_match s' ''/r/x'' \<and> \<not> set_volatile s' ''/r/x''"
    using x [of "oi_os (m_system m)"] vol by (auto simp: compare_set_def assms)
qed

definition sample_excluding :: "string list" where
  "sample_excluding = sample_again @ [''--exclude'', ''/r/x'']"

definition sample_excluding_flags :: assignments where
  "sample_excluding_flags = sample_again_flags @ [(''exclude'', VString ''/r/x'')]"

lemma excluding_parsed: "parse_flags compare_flags [] sample_excluding = Inr (sample_excluding_flags, [])"
  by code_simp

lemma compare_flag_values:
  assumes "as \<in> {sample_again_flags, sample_excluding_flags}"
  shows "string_flag as ''o'' [] = []" "bool_flag as ''fail-on-diff''" "string_flag as ''format'' ''text'' = ''text''"
    "string_flag as ''new-dir-mode'' ''summary'' = ''summary''"
    "string_flag as ''show'' [] = []" "string_flag as ''ignore-from'' [] = []"
proof -
  have "as = sample_again_flags \<or> as = sample_excluding_flags" using assms by simp
  then show "string_flag as ''o'' [] = []" "bool_flag as ''fail-on-diff''" "string_flag as ''format'' ''text'' = ''text''"
    "string_flag as ''new-dir-mode'' ''summary'' = ''summary''"
    "string_flag as ''show'' [] = []" "string_flag as ''ignore-from'' [] = []"
    by (elim disjE; simp; code_simp)+
qed

lemma summary_mode: "parse_new_dir_mode ''summary'' = Some DirSummary"
  by (simp add: parse_new_dir_mode_def)

lemma exclude_flag_values: "list_flag sample_again_flags ''exclude'' = []" "list_flag sample_excluding_flags ''exclude'' = [''/r/x'']"
  by code_simp+

text \<open>What the two command lines amount to: everything is shown, on the standard output.\<close>

lemma sample_compare_parts:
  assumes h: "self_paths h = []" and s: "xs_patterns s = [''/f.osfp'', ''/f.osfp.tmp'']"
    and m: "m = counted_meta (parts_meta h0 sample_flags MountLocal info key s) es"
  shows "\<exists>jo s'. compare_parts h sample_again fs m sample_again_flags DirSummary jo None s' fs \<and> (\<forall>c. shown jo c) \<and>
      \<not> set_match s' ''/r/x'' \<and> \<not> set_volatile s' ''/r/x''"
    and "\<exists>jo s'. compare_parts h sample_excluding fs m sample_excluding_flags DirSummary jo None s' fs \<and> (\<forall>c. shown jo c) \<and>
      set_match s' ''/r/x'' \<and> \<not> set_volatile s' ''/r/x''"
proof -
  have m': "m_exclusions m = [''/f.osfp'', ''/f.osfp.tmp'']" "so_root (m_scan m) = ''/r''"
    by (simp_all add: m counted_meta_def baseline_meta_def s sample_values clean_sample)
  define o' :: walk_options where "o' = undefined"
  have jo: "\<exists>jo. compare_join_options h as o' DirSummary fs = Inr jo \<and> (\<forall>c. shown jo c)"
    if "as \<in> {sample_again_flags, sample_excluding_flags}" for as
    by (simp add: compare_join_options_def compare_flag_values [OF that] shown_def ignore_match_def)
  have out: "open_report_file h [] fs = Inr (None, [], fs)" by (simp add: open_report_file_def)
  show "\<exists>jo s'. compare_parts h sample_again fs m sample_again_flags DirSummary jo None s' fs \<and> (\<forall>c. shown jo c) \<and>
      \<not> set_match s' ''/r/x'' \<and> \<not> set_volatile s' ''/r/x''"
    using sample_compare_set(1) [OF h m'] jo [of sample_again_flags] out
    by (auto simp: compare_parts_def sample_parsed compare_flag_values exclude_flag_values summary_mode)
  show "\<exists>jo s'. compare_parts h sample_excluding fs m sample_excluding_flags DirSummary jo None s' fs \<and> (\<forall>c. shown jo c) \<and>
      set_match s' ''/r/x'' \<and> \<not> set_volatile s' ''/r/x''"
    using sample_compare_set(2) [OF h m'] jo [of sample_excluding_flags] out
    by (auto simp: compare_parts_def excluding_parsed compare_flag_values exclude_flag_values summary_mode)
qed

lemma sample_comparison:
  "\<exists>info s ws cd c1 jo s'. run_baseline sample_host cd sample_args (console_start sample_fs) = (c1, None) \<and>
     baseline_parts sample_host sample_args (co_fs (console_start sample_fs)) sample_flags MountLocal info ''k'' s (dir_on 1 NoMore) ws \<and>
     codec_ok cd \<and> within_limits cd (parts_meta sample_host sample_flags MountLocal info ''k'' s) (ws_out ws) \<and>
     compare_parts sample_host sample_again (co_fs c1)
       (counted_meta (parts_meta sample_host sample_flags MountLocal info ''k'' s) (ws_out ws)) sample_again_flags
       DirSummary jo None s' (co_fs c1) \<and>
     steady sample_host sample_flags MountLocal (dir_on 1 NoMore) ws \<and> ws_out ws = [sample_dir]"
proof -
  obtain info s ws cd c1 where b: "run_baseline sample_host cd sample_args (console_start sample_fs) = (c1, None)"
    and p: "baseline_parts sample_host sample_args (co_fs (console_start sample_fs)) sample_flags MountLocal info ''k'' s (dir_on 1 NoMore) ws"
    and ok: "codec_ok cd" "within_limits cd (parts_meta sample_host sample_flags MountLocal info ''k'' s) (ws_out ws)"
    and st: "steady sample_host sample_flags MountLocal (dir_on 1 NoMore) ws" "ws_out ws = [sample_dir]"
    and own: "xs_patterns s = [''/f.osfp'', ''/f.osfp.tmp'']"
    using sample_session by blast
  obtain jo s' where "compare_parts sample_host sample_again (co_fs c1)
      (counted_meta (parts_meta sample_host sample_flags MountLocal info ''k'' s) (ws_out ws)) sample_again_flags
      DirSummary jo None s' (co_fs c1)"
    using sample_compare_parts(1) [OF sample_session_ok(5) own refl] by blast
  with b p ok st show ?thesis by blast
qed

end
