(* ===== verification/Cmd_Grown.thy ===== *)
theory Cmd_Grown
  imports Cmd_Sample
begin

text \<open>
  The sample host, one file later, and the command lines of comparisons on it: the file
  \<open>/r/x\<close> cannot be read, so its entry has an error. One session takes the baseline before the
  file is there, another one after.
\<close>

section \<open>The host and its scan\<close>

definition grown_tree :: tree where
  "grown_tree = dir_on 1 (Child ''x'' (file_on 1) NoMore)"

definition grown_host :: host where
  "grown_host = host_with grown_tree"

lemma grown_later: "later_host sample_host grown_host"
  by (simp add: later_host_def grown_host_def) (simp add: self_paths_def sample_host_def)

lemma grown_scannable: "scannable grown_host sample_flags MountLocal grown_tree"
proof -
  have "one_device 1 grown_tree"
    by (simp add: grown_tree_def dir_on_def file_on_def info_on_def probe_dev_def fill_stat_def)
  moreover have "tree_ok grown_tree" by (simp add: grown_tree_def dir_on_def file_on_def valid_name_def)
  moreover have "tree_is_dir grown_tree" unfolding grown_tree_def by (rule dir_on_is_dir)
  ultimately show ?thesis
    by (auto simp: scannable_def writer_ok_def grown_host_def nfs_system_def sample_values clean_sample
        working_io_def absolute_def has_prefix_def)
qed

lemma grown_repeats: "repeats grown_host sample_flags ''k'' sample_again_flags"
  by (simp add: repeats_def grown_host_def sample_values) code_simp

definition sample_file :: entry where
  "sample_file = (fill_entry ''/r/x'' (info_on 1 0x1A4) (Inr []))\<lparr>e_err := ''denied''\<rparr>"

lemma sample_file_facts: "e_path sample_file = ''/r/x''" "entry_wf sample_file" "entry_fits sample_file"
proof -
  have "entry_wf (fill_entry ''/r/x'' (info_on 1 0x1A4) (Inr []))" by (rule entry_wf_fill)
  then show "entry_wf sample_file" by (simp add: sample_file_def entry_wf_def)
  show "e_path sample_file = ''/r/x''" by code_simp
  show "entry_fits sample_file"
    by (simp add: sample_file_def entry_fits_def fill_entry_def fill_stat_def info_on_def Let_def)
qed

lemma grown_expected:
  assumes "\<not> excluded o' ''/r/x''" and "enters o' nfs_system sample_dir 0 d"
    and "\<not> wo_no_hash o'" and "wo_max_file_size o' = 0"
  shows "expected o' nfs_system ''/r'' grown_tree 0 d = [sample_dir, sample_file]"
proof -
  let ?f = "fill_entry ''/r/x'' (info_on 1 0x1A4) (Inr [])"
  have j: "filepath_join ''/r'' ''x'' = ''/r/x''" by code_simp
  have plain: "with_list_error b None e = e" for b e by (simp add: with_list_error_def)
  have dir: "finished o' nfs_system sample_dir = sample_dir"
    by (simp add: finished_def wants_hash_def sample_dir_facts)
  have "e_type ?f = type_file" by code_simp
  then have "finished o' nfs_system ?f = sample_file"
    using assms(3,4)
    by (simp add: finished_def wants_hash_def hash_entry_def open_for_hash_def nfs_system_def sample_file_def)
  then show ?thesis
    using assms(1,2) by (simp add: grown_tree_def dir_on_def file_on_def Let_def sample_dir_def [symmetric] j dir plain)
qed

lemma grown_live:
  assumes "\<not> set_match s ''/r/x''"
  shows "live_entries grown_host sample_flags MountLocal s (sample_dir # es) mode grown_tree = [sample_dir, sample_file]"
proof -
  let ?o = "live_options grown_host sample_flags MountLocal s (sample_dir # es) mode"
  have "enters ?o nfs_system sample_dir 0 d" for d
    by (simp add: enters_def is_dir_def sample_dir_facts live_options_def)
  moreover have "\<not> excluded ?o ''/r/x''" "\<not> wo_no_hash ?o"  "wo_max_file_size ?o = 0"
    using assms by (simp_all add: excluded_def live_options_def baseline_options_def set_defaults_def Let_def)
      (code_simp)
  ultimately show ?thesis by (simp add: live_entries_def grown_expected sample_values clean_sample)
      (simp add: grown_host_def grown_expected)
qed

lemma grown_changes: "changes_of [sample_dir] [sample_dir, sample_file] = [added_change sample_file]"
proof -
  have "fst (classify sample_dir sample_dir) = OpNone" by (simp add: fst_classify sample_dir_facts)
  then have "both_event sample_dir sample_dir = (True, None)"
    by (cases "classify sample_dir sample_dir") (simp add: both_event_def)
  moreover have "increasing [sample_dir]" "increasing [sample_dir, sample_file]"
    by (simp_all add: sample_dir_facts sample_file_facts)
  from map_filter_changes [OF this] have "changes_of [sample_dir] [sample_dir, sample_file] =
      List.map_filter snd (merge_events [sample_dir] [sample_dir, sample_file])" by simp
  ultimately show ?thesis by (simp add: canon.irrefl List.map_filter_def)
qed

section \<open>A comparison that finds the file\<close>

lemma grown_takes: "as \<in> {sample_again_flags, sample_excluding_flags} \<Longrightarrow> takes_report h as fs"
  by (simp add: takes_report_def compare_flag_values)

lemma grown_comparison:
  "\<exists>info s ws cd c1 jo s'. run_baseline sample_host cd sample_args (console_start sample_fs) = (c1, None) \<and>
     baseline_parts sample_host sample_args sample_fs sample_flags MountLocal info ''k'' s (dir_on 1 NoMore) ws \<and>
     codec_ok cd \<and> within_limits cd (parts_meta sample_host sample_flags MountLocal info ''k'' s) (ws_out ws) \<and>
     compare_parts grown_host sample_again (co_fs c1)
       (counted_meta (parts_meta sample_host sample_flags MountLocal info ''k'' s) (ws_out ws)) sample_again_flags
       DirSummary jo None s' (co_fs c1) \<and>
     \<not> set_volatile s' ''/r/x'' \<and> ws_out ws = [sample_dir] \<and>
     [sample_dir, sample_file] = live_entries grown_host sample_flags MountLocal s' (ws_out ws) DirSummary grown_tree \<and>
     [added_change sample_file] = drift_changes jo (ws_out ws) [sample_dir, sample_file]"
proof -
  obtain info s ws cd c1 where b: "run_baseline sample_host cd sample_args (console_start sample_fs) = (c1, None)"
    and p: "baseline_parts sample_host sample_args sample_fs sample_flags MountLocal info ''k'' s (dir_on 1 NoMore) ws"
    and ok: "codec_ok cd" "within_limits cd (parts_meta sample_host sample_flags MountLocal info ''k'' s) (ws_out ws)"
    and out: "ws_out ws = [sample_dir]" and own: "xs_patterns s = [''/f.osfp'', ''/f.osfp.tmp'']"
    using sample_session by auto
  have self: "self_paths grown_host = []" by (simp add: grown_host_def)
  obtain jo s' where parts: "compare_parts grown_host sample_again (co_fs c1)
      (counted_meta (parts_meta sample_host sample_flags MountLocal info ''k'' s) (ws_out ws)) sample_again_flags
      DirSummary jo None s' (co_fs c1)"
    and free: "\<forall>c. shown jo c" "\<not> set_match s' ''/r/x''" "\<not> set_volatile s' ''/r/x''"
    using sample_compare_parts(1) [OF self own refl] by blast
  have "[added_change sample_file] = drift_changes jo (ws_out ws) [sample_dir, sample_file]"
    by (simp add: drift_changes_def out grown_changes free(1))
  moreover have "[sample_dir, sample_file] = live_entries grown_host sample_flags MountLocal s' (ws_out ws) DirSummary grown_tree"
    by (simp add: out grown_live [OF free(2)])
  ultimately show ?thesis using b p ok parts free(3) out by blast
qed

lemma grown_text:
  assumes "drift_changes jo [sample_dir] live = [added_change sample_file]"
  shows "drift_text enc grown_host sample_again_flags m info (jo\<lparr>jo_summarize := f\<rparr>) s [sample_dir] live sc =
    concat (report_lines \<lparr>ro_color = False, ro_volatile = Some (set_volatile s)\<rparr>
      (compare_header grown_host ''/f.osfp'' m info [] (jo\<lparr>jo_summarize := f\<rparr>) ''summary'') [added_change sample_file]
      (drift_summary grown_host (jo\<lparr>jo_summarize := f\<rparr>) s [sample_dir] live sc))"
proof -
  have "string_flag sample_again_flags ''b'' [] = ''/f.osfp''" by code_simp
  moreover have "c_op (added_change sample_file) = OpAdded" by code_simp
  then have "summed jo' (added_change sample_file) = added_change sample_file" for jo'
    by (simp add: summed_def split: option.split)
  moreover have "drift_changes (jo\<lparr>jo_summarize := f\<rparr>) [sample_dir] live = [added_change sample_file]"
    using assms by (simp add: drift_changes_def)
  moreover have "ho_no_color grown_host" by (simp add: grown_host_def host_with_def sample_host_def)
  ultimately show ?thesis
    by (simp add: drift_text_def Let_def report_text_def compare_flag_values exclude_flag_values use_color_def)
qed

section \<open>A baseline that has the file\<close>

lemma grown_scan:
  assumes "\<not> set_match s ''/r/x''"
  shows "\<exists>ws. baseline_walk grown_host sample_flags MountLocal s grown_tree = (ws, None) \<and>
    ws_out ws = [sample_dir, sample_file]"
proof -
  let ?o = "set_defaults 1 (baseline_options grown_host sample_flags MountLocal s)"
  have live: "\<forall>k. \<not> sy_cancelled nfs_system k" by (simp add: nfs_system_def)
  have one: "one_device 1 grown_tree"
    by (simp add: grown_tree_def dir_on_def file_on_def info_on_def probe_dev_def fill_stat_def)
  have root: "wo_root ?o = ''/r''" by (simp add: set_defaults_root sample_values)
  obtain ws where ws: "walk_scan ?o nfs_system grown_tree = (ws, None)"
    "ws_out ws = expected ?o nfs_system ''/r'' grown_tree 0 1"
    using walk_scan_expected [OF live disjI2 [OF one], of ?o] root clean_sample(1) by auto
  have "enters ?o nfs_system sample_dir 0 1" by (simp add: enters_def is_dir_def sample_dir_facts)
  moreover have "\<not> excluded ?o ''/r/x''" "\<not> wo_no_hash ?o"
    using assms by (simp_all add: excluded_def baseline_options_def Let_def)
  moreover have "wo_max_file_size ?o = 0" by (simp add: baseline_options_def Let_def) code_simp
  ultimately have "ws_out ws = [sample_dir, sample_file]" using ws(2) by (simp add: grown_expected)
  moreover have "sy_num_cpu nfs_system = 1" by (simp add: nfs_system_def)
  ultimately show ?thesis using ws(1) by (auto simp: baseline_walk_def grown_host_def)
qed

lemma grown_session:
  "\<exists>info s ws cd c1. run_baseline grown_host cd sample_args (console_start sample_fs) = (c1, None) \<and>
     baseline_parts grown_host sample_args (co_fs (console_start sample_fs)) sample_flags MountLocal info ''k'' s grown_tree ws \<and>
     codec_ok cd \<and> within_limits cd (parts_meta grown_host sample_flags MountLocal info ''k'' s) (ws_out ws) \<and>
     ws_out ws = [sample_dir, sample_file] \<and> xs_patterns s = [''/f.osfp'', ''/f.osfp.tmp'']"
proof -
  have dir: "tree_is_dir grown_tree" unfolding grown_tree_def by (rule dir_on_is_dir)
  have st: "stored [sample_dir, sample_file]" by (simp add: stored_def sample_dir_facts sample_file_facts)
  have small: "length (e_path e) + length (e_link e) + length (e_err e) \<le> 10" if "e \<in> {sample_dir, sample_file}" for e
    using that by (auto simp: sample_dir_def sample_file_def fill_entry_def fill_stat_def info_on_def Let_def)
  have "length (append_entry [] e prev) \<le> 200" if "e \<in> {sample_dir, sample_file}" for e prev
    using length_append_entry_le [of e "[]" prev] small [OF that] that sample_dir_facts sample_file_facts by auto
  from this [of sample_dir "[]"] this [of sample_file "''/r''"] have "sizes_ok (\<lambda>p. p) [] [sample_dir, sample_file]"
    by (intro small_sizes) (simp_all add: default_block_size_def sample_dir_facts)
  from host_session [OF dir st this, folded grown_host_def, OF grown_scan] show ?thesis by blast
qed

lemma grown_session_ok:
  "tree_ok grown_tree" "no_links (co_fs (console_start sample_fs))" "absolute (string_flag sample_flags ''root'' ''/'')"
  "self_paths grown_host = []"
  using sample_session_ok by (simp_all add: grown_tree_def dir_on_def file_on_def valid_name_def) (simp add: grown_host_def)

lemma grown_repeats_excluding: "repeats grown_host sample_flags ''k'' sample_excluding_flags"
  by (simp add: repeats_def grown_host_def sample_values) code_simp

end
