(* ===== verification/Cmd_Perimeter.thy ===== *)
theory Cmd_Perimeter
  imports Cmd_Grown
begin

text \<open>
  What a scan leaves out because the program itself writes it, and two places where the
  perimeter of a run is not what it is meant to be: an output path that is read as a glob, and
  the second walk that summarises a new directory.
\<close>

section \<open>The files of the run itself\<close>



lemma clean_abs_fixed: "clean_abs p \<Longrightarrow> clean p = p" "clean_abs p \<Longrightarrow> absolute p"
  using clean_abs_path by (auto simp: clean_abs_def) (auto simp: abs_path_def absolute_def has_prefix_def)

lemma add_patterns_settles:
  "add_patterns s ps = Inr s' \<Longrightarrow> set_inv s \<Longrightarrow>
   set (xs_patterns s) \<subseteq> set (xs_patterns s') \<and>
   (\<forall>p\<in>set ps. \<not> has_prefix (trim_space p) ''#'' \<longrightarrow> settled_path s' (trim_space p))"
proof (induction s ps rule: add_patterns.induct)
  case (2 s p ps)
  let ?p = "trim_space p"
  show ?case
  proof (cases "?p = [] \<or> has_prefix ?p ''#''")
    case True
    with "2.prems" have "add_patterns s ps = Inr s'" by (simp add: Let_def)
    with "2.IH"(1) [OF refl True _ "2.prems"(2)] True show ?thesis by (auto simp: settled_path_def)
  next
    case False
    with "2.prems" obtain s1 where s1: "add_one s ?p = Inr s1" "add_patterns s1 ps = Inr s'"
      by (auto simp: Let_def split: sum.splits)
    have inv: "set_inv s1" using add_one_inv [OF s1(1) "2.prems"(2)] False by simp
    from "2.IH"(2) [OF refl False s1] inv
    have ih: "set (xs_patterns s1) \<subseteq> set (xs_patterns s')"
      "\<forall>p\<in>set ps. \<not> has_prefix (trim_space p) ''#'' \<longrightarrow> settled_path s' (trim_space p)" by auto
    have "settled_path s' ?p"
      using settled_mono [OF add_one_settles [OF s1(1)] inv] add_patterns_inv [OF s1(2) inv] ih(1) by simp
    with ih add_one_patterns [OF s1(1)] show ?thesis by auto
  qed
qed simp

lemma settled_excluded:
  assumes "settled_path s p" and "set_inv s" and "xs_root s = xs_root (start_set root)"
    and p: "clean_abs p" "\<not> is_glob p" and "root = [] \<or> \<not> is_under (clean root) p"
  shows "set_match s p"
proof -
  have "p \<noteq> []" by (rule clean_abs_nonempty [OF p(1)])
  moreover have "pattern_match p p" using p(2) clean_abs_fixed [OF p(1)] by (simp add: pattern_match_def)
  then have "set_match s p" if "p \<in> set (xs_patterns s)"
    using that unfolding set_match_patterns [OF assms(2)] by (rule bexI)
  moreover have "\<not> (xs_root s \<noteq> [] \<and> is_under (xs_root s) (clean p))"
    using assms(3,6) clean_abs_fixed [OF p(1)] by (auto simp: start_set_def empty_set_def)
  ultimately show ?thesis using assms(1) by (auto simp: settled_path_def)
qed

text \<open>What the command line or the program names is excluded, unless it holds the root.\<close>

lemma new_set_excludes:
  assumes s: "new_set opts = Inr s" and p: "p \<in> set (xo_patterns opts) \<union> set (xo_auto opts)"
    and plain: "clean_abs p" "\<not> is_glob p" "trim_space p = p"
    and root: "xo_root opts = [] \<or> \<not> is_under (clean (xo_root opts)) p"
  shows "set_match s p"
proof -
  obtain s1 s2 where parts: "(if xo_no_defaults opts then Inr (start_set (xo_root opts))
        else add_patterns (start_set (xo_root opts)) (defaults (xo_goos opts))) = Inr s1"
      "add_patterns s1 (xo_patterns opts) = Inr s2"
      "\<exists>s3. add_auto s2 (xo_auto opts) = Inr s3 \<and> (\<exists>v. s = s3\<lparr>xs_volatile := v\<rparr> \<or> s = s3)"
    using s by (auto simp: new_set_def Let_def split: sum.splits if_splits)
  have s1: "set_inv s1" "xs_root s1 = xs_root (start_set (xo_root opts))"
    using parts(1) add_patterns_inv [OF _ set_inv_start(1)] set_inv_start(1) by (auto split: if_splits)
  have s2: "set_inv s2" "xs_root s2 = xs_root (start_set (xo_root opts))"
    using add_patterns_inv [OF parts(2) s1(1)] s1(2) by simp_all
  obtain s3 v where s3: "add_auto s2 (xo_auto opts) = Inr s3" "s = s3\<lparr>xs_volatile := v\<rparr> \<or> s = s3"
    using parts(3) by blast
  have inv: "set_inv s3" "xs_root s3 = xs_root (start_set (xo_root opts))"
    using add_auto_inv [OF s3(1) s2(1)] s2(2) by simp_all
  note auto_settled = add_auto_settles [OF s3(1) s2(1)]
  have "\<not> has_prefix p ''#''" using clean_abs_fixed(2) [OF plain(1)] by (auto simp: absolute_def has_prefix_iff)
  then have "settled_path s2 p" if "p \<in> set (xo_patterns opts)"
    using add_patterns_settles [OF parts(2) s1(1)] that plain(3) by metis
  then have "settled_path s3 p" if "p \<in> set (xo_patterns opts)"
    using settled_mono [OF _ s2(1) inv(1)] inv(2) s2(2) auto_settled that by simp
  moreover have "settled_path s3 p" if "p \<in> set (xo_auto opts)"
    using bspec [OF conjunct2 [OF auto_settled] that] by (simp only: plain(3))
  ultimately have "settled_path s3 p" using p by blast
  from settled_excluded [OF this inv plain(1,2) root] s3(2) show ?thesis by (auto simp: set_match_def)
qed


lemma compared_excludes:
  assumes parts: "compare_parts h args fs m cas mode jo d s fs'"
    and m: "so_root (m_scan m) = clean (string_flag as ''root'' ''/'')" and root: "absolute (string_flag as ''root'' ''/'')"
    and q: "q \<in> set (list_flag cas ''exclude'') \<union> (case d of None \<Rightarrow> {} | Some a \<Rightarrow> set (af_paths a))"
    and plain: "clean_abs q" "\<not> is_glob q" "trim_space q = q"
    and below: "is_under q (clean (string_flag as ''root'' ''/''))" "q \<noteq> clean (string_flag as ''root'' ''/'')"
  shows "set_match s q"
proof -
  let ?root = "clean (string_flag as ''root'' ''/'')"
  obtain autos where autos: "open_report_file h (string_flag cas ''o'' []) fs = Inr (d, autos, fs')"
    "compare_set h m (list_flag cas ''exclude'') autos = Inr s" using parts by (auto simp: compare_parts_def)
  then have "set autos = (case d of None \<Rightarrow> {} | Some a \<Rightarrow> set (af_paths a))"
    by (auto simp: open_report_file_def split: if_splits sum.splits)
  with q have q': "q \<in> set (list_flag cas ''exclude'') \<union> set autos" by simp
  have ns: "new_set \<lparr>xo_goos = oi_os (m_system m), xo_root = ?root, xo_no_defaults = True,
      xo_patterns = m_exclusions m @ list_flag cas ''exclude'', xo_auto = self_paths h @ autos, xo_no_volatiles = False\<rparr> = Inr s"
    using autos(2) by (auto simp: compare_set_def m split: sum.splits)
  have "\<not> is_under ?root q"
    using under_antisym [OF plain(1) clean_absolute [OF root] below(1)] below(2) by auto
  then have "\<not> is_under (clean ?root) q" using clean_clean(1) [OF root] by simp
  with new_set_excludes [OF ns _ plain] q' show ?thesis by auto
qed



section \<open>An output path with a bracket\<close>





section \<open>A new directory on another file system\<close>

definition mounted_tree :: tree where
  "mounted_tree = dir_on 1 (Child ''n'' (dir_on 9 (Child ''f'' (file_on 9) NoMore)) NoMore)"

definition mounted_host :: host where
  "mounted_host = sample_host\<lparr>ho_tree := \<lambda>p.
     if p = ''/r'' then Inr mounted_tree
     else if p = ''/r/n'' then Inr (dir_on 9 (Child ''f'' (file_on 9) NoMore)) else Inl ''no such file''\<rparr>"

definition mounted_options :: "new_dir_mode \<Rightarrow> walk_options" where
  "mounted_options mode = compare_options (sample_meta\<lparr>m_scan := (m_scan sample_meta)\<lparr>so_root := ''/r''\<rparr>\<rparr>)
     empty_set MountLocal 1 [''/r''] mode"

text \<open>
  C38. The summary of a new directory leaves the perimeter: a network share mounted since the
  baseline is not entered by the scan, not even with \<open>--new-dir-mode=deep\<close>, but \<open>summarizeDir\<close> starts
  a walk of its own at the mount point, for which the share is the device of the root, and
  counts its files.
\<close>

theorem summary_enters_new_mount:
  "map e_path (ws_out (fst (walk_scan (set_defaults 1 (mounted_options mode)) (ho_system mounted_host) mounted_tree))) =
     [''/r'', ''/r/n''] \<and>
   summarize_dir mounted_host (mounted_options mode) ''/r/n'' = Some \<lparr>ds_files = 1, ds_dirs = 0, ds_bytes = 1\<rparr>"
proof -
  let ?o = "\<lambda>d. \<lparr>wo_root = ''/r'', wo_exclude = Some empty_set, wo_mounts = MountLocal, wo_max_depth = 0, wo_jobs = 1,
     wo_max_file_size = 0, wo_no_hash = False, wo_descend = d\<rparr>"
  have opts: "mounted_options mode = ?o (Some (descend_known [''/r''] mode))"
    by (simp add: mounted_options_def compare_options_def sample_meta_def)
  have sys: "ho_system mounted_host = nfs_system" by (simp add: mounted_host_def sample_host_def)
  have "map e_path (ws_out (fst (walk_scan (set_defaults 1 (?o (Some (descend_known [''/r''] m)))) nfs_system mounted_tree))) =
      [''/r'', ''/r/n'']" for m by (cases m; hypsubst; code_simp)
  moreover have "clean ''/r/n'' = ''/r/n''" by (simp add: clean_def clean_step_def has_prefix_def Let_def)
  then have "ho_tree mounted_host (clean ''/r/n'') = Inr (dir_on 9 (Child ''f'' (file_on 9) NoMore))"
    by (simp add: mounted_host_def)
  moreover obtain sc where "walk ((?o None)\<lparr>wo_root := ''/r/n'', wo_no_hash := True\<rparr>) nfs_system
      (Inr (dir_on 9 (Child ''f'' (file_on 9) NoMore))) (summarize_entry ''/r/n'') \<lparr>ds_files = 0, ds_dirs = 0, ds_bytes = 0\<rparr> =
      (sc, None, \<lparr>ds_files = 1, ds_dirs = 0, ds_bytes = 1\<rparr>)"
  proof -
    have "snd (walk ((?o None)\<lparr>wo_root := ''/r/n'', wo_no_hash := True\<rparr>) nfs_system
      (Inr (dir_on 9 (Child ''f'' (file_on 9) NoMore))) (summarize_entry ''/r/n'') \<lparr>ds_files = 0, ds_dirs = 0, ds_bytes = 0\<rparr>) =
      (None, \<lparr>ds_files = 1, ds_dirs = 0, ds_bytes = 1\<rparr>)" by code_simp
    with that show thesis by (metis prod.collapse)
  qed
  ultimately show ?thesis by (simp add: opts sys summarize_dir_def summary_options_def)
qed

end
