(* ===== verification/Cmd_Usage.thy ===== *)
theory Cmd_Usage
  imports Cmd_Info
begin

text \<open>
  The usage texts: the table of commands, laid out by \<open>tabwriter\<close>, and the options of one
  command with their defaults, as \<open>flag.PrintDefaults\<close> writes them. The flags that are
  described are those that the parser of the command accepts.
\<close>

section \<open>The program\<close>

text \<open>
  \<open>tabwriter\<close> with a padding of two blanks: a column of cells that end in a tab is as wide as
  its widest cell and the padding; what follows the tab is not aligned.
\<close>

definition tab_rows :: "(string \<times> string) list \<Rightarrow> string" where
  "tab_rows rows =
     (let w = foldr max (map (rune_count \<circ> fst) rows) 0
      in concat (map (\<lambda>(cell, rest). pad_right (w + 2) cell @ rest @ newline) rows))"

definition usage_text :: string where
  "usage_text =
     ''osfp fingerprints a filesystem and reports how it drifted.'' @ newline @ newline @
     ''usage: osfp <command> [options]'' @ newline @ newline @ ''commands:'' @ newline @
     tab_rows (map (\<lambda>c. (''  '' @ cm_name c, cm_summary c)) commands) @
     newline @ ''run \"osfp help <command>\" for the options of one command.'' @ newline"

section \<open>Flags\<close>

record flag_doc =
  fd_name :: string
  fd_kind :: flag_kind
  fd_default :: string
  fd_usage :: string

abbreviation flag_string :: "string \<Rightarrow> string \<Rightarrow> string \<Rightarrow> flag_doc" where
  "flag_string n d u \<equiv> \<lparr>fd_name = n, fd_kind = FlagString, fd_default = d, fd_usage = u\<rparr>"

abbreviation flag_bool :: "string \<Rightarrow> string \<Rightarrow> flag_doc" where
  "flag_bool n u \<equiv> \<lparr>fd_name = n, fd_kind = FlagBool, fd_default = ''false'', fd_usage = u\<rparr>"

abbreviation flag_int :: "string \<Rightarrow> string \<Rightarrow> string \<Rightarrow> flag_doc" where
  "flag_int n d u \<equiv> \<lparr>fd_name = n, fd_kind = FlagInt, fd_default = d, fd_usage = u\<rparr>"

abbreviation flag_list :: "string \<Rightarrow> string \<Rightarrow> flag_doc" where
  "flag_list n u \<equiv> \<lparr>fd_name = n, fd_kind = FlagList, fd_default = [], fd_usage = u\<rparr>"

definition baseline_docs :: "flag_doc list" where
  "baseline_docs =
     [flag_string ''o'' [] ''write the fingerprint to `FILE` (default: <os-key>.osfp)'',
      flag_list ''exclude'' ''exclude a `PATH` prefix or glob (repeatable)'',
      flag_string ''exclude-from'' [] ''read exclusion patterns from `FILE`, one per line'',
      flag_bool ''no-default-excludes'' ''start from an empty exclusion list'',
      flag_string ''root'' ''/'' ''scan this `DIR` instead of the whole filesystem'',
      flag_int ''jobs'' ''0'' ''use `N` hashing workers (default: min(NumCPU, 8))'',
      flag_string ''mounts'' ''local''
        ''what to do at a mount point, `POLICY` being local (cross local filesystems, stop at pseudo and network ones), same (stop at every one) or all (cross everything)'',
      flag_int ''max-file-size'' ''0'' ''record size and mtime instead of hashing files larger than `N` bytes'',
      flag_int ''max-depth'' (int_dec default_max_depth) ''refuse to descend deeper than `N` levels'',
      flag_bool ''allow-non-root'' ''scan without root privileges (marks the fingerprint UNPRIVILEGED)'',
      flag_string ''os-id'' [] ''force the fingerprint `KEY` instead of detecting it'',
      flag_bool ''force'' ''overwrite an existing fingerprint'',
      flag_bool ''v'' ''report progress while scanning'',
      flag_bool ''verbose'' ''report progress while scanning'']"

definition compare_docs :: "flag_doc list" where
  "compare_docs =
     [flag_string ''b'' [] ''compare against the fingerprint in `FILE` (required)'',
      flag_string ''format'' ''text'' ''report `FORMAT`: text or json'',
      flag_string ''o'' [] ''write the report to `FILE` instead of standard output'',
      flag_string ''show'' [] ''report only these change `CODES`, comma separated (default: all)'',
      flag_string ''new-dir-mode'' ''summary''
        ''what to report below an added directory, `MODE` being summary, deep or skip'',
      flag_string ''ignore-from'' [] ''read ignore rules from `FILE`'',
      flag_list ''exclude'' (''exclude a `PATH` on top of the fingerprint'' @ [CHR 39] @ ''s own exclusions (repeatable)''),
      flag_int ''jobs'' ''0'' ''use `N` hashing workers (default: min(NumCPU, 8))'',
      flag_bool ''no-color'' ''never colourise the text report'',
      flag_bool ''allow-os-mismatch'' ''compare even if the system is not the one the fingerprint describes'',
      flag_bool ''allow-non-root'' ''scan without root privileges'',
      flag_bool ''fail-on-diff'' ''exit with code 1 when differences are found'',
      flag_bool ''v'' ''report progress while scanning'',
      flag_bool ''verbose'' ''report progress while scanning'']"

definition info_docs :: "flag_doc list" where
  "info_docs =
     [flag_string ''b'' [] ''describe the fingerprint in `FILE` (required)'',
      flag_bool ''json'' ''print the metadata as JSON'']"

definition verify_docs :: "flag_doc list" where
  "verify_docs =
     [flag_string ''b'' [] ''check the fingerprint in `FILE` (required)'',
      flag_bool ''quiet'' ''print nothing; report the result through the exit code'']"

definition version_docs :: "flag_doc list" where
  "version_docs = [flag_bool ''short'' ''print only the version number'']"

definition command_docs :: "subcommand \<Rightarrow> flag_doc list" where
  "command_docs cmd =
     (case cmd of
        Baseline \<Rightarrow> baseline_docs | Compare \<Rightarrow> compare_docs | Info \<Rightarrow> info_docs
      | Verify \<Rightarrow> verify_docs | Version \<Rightarrow> version_docs)"

definition command_flags :: "subcommand \<Rightarrow> flag_table" where
  "command_flags cmd =
     (case cmd of
        Baseline \<Rightarrow> baseline_flags | Compare \<Rightarrow> compare_flags | Info \<Rightarrow> info_flags
      | Verify \<Rightarrow> verify_flags | Version \<Rightarrow> version_flags)"

text \<open>One definition per flag in the code: what is described is what is parsed.\<close>

lemma docs_are_flags: "map (\<lambda>d. (fd_name d, fd_kind d)) (command_docs cmd) = command_flags cmd"
  by (cases cmd)
    (simp_all add: command_docs_def command_flags_def baseline_docs_def baseline_flags_def compare_docs_def
      compare_flags_def info_docs_def info_flags_def verify_docs_def verify_flags_def version_docs_def version_flags_def)

section \<open>The options of a command\<close>

text \<open>\<open>UnquoteUsage\<close>: the name of the value, in back quotes or after the kind, and the plain text.\<close>

definition kind_name :: "flag_kind \<Rightarrow> string" where
  "kind_name k = (case k of FlagBool \<Rightarrow> [] | FlagInt \<Rightarrow> ''int'' | FlagString \<Rightarrow> ''string'' | FlagList \<Rightarrow> ''value'')"

definition unquote_usage :: "flag_kind \<Rightarrow> string \<Rightarrow> string \<times> string" where
  "unquote_usage k u =
     (case cut CHR ''`'' u of
        None \<Rightarrow> (kind_name k, u)
      | Some (a, r) \<Rightarrow>
          (case cut CHR ''`'' r of
             None \<Rightarrow> (kind_name k, u)
           | Some (n, b) \<Rightarrow> (n, a @ n @ b)))"

definition default_note :: "flag_doc \<Rightarrow> string" where
  "default_note d =
     (let zero = (case fd_kind d of FlagBool \<Rightarrow> ''false'' | FlagInt \<Rightarrow> ''0'' | _ \<Rightarrow> [])
      in if fd_default d = zero then []
         else if fd_kind d = FlagString then '' (default \"'' @ fd_default d @ ''\")''
         else '' (default '' @ fd_default d @ '')'')"

text \<open>One flag of \<open>PrintDefaults\<close>; the text of a Boolean flag of one letter stays on its line.\<close>

definition flag_help :: "flag_doc \<Rightarrow> string" where
  "flag_help d =
     (case unquote_usage (fd_kind d) (fd_usage d) of
        (name, u) \<Rightarrow>
          let h = ''  -'' @ fd_name d @ (if name = [] then [] else CHR '' '' # name);
              sep = newline @ ''    '' @ [CHR 9]
          in h @ (if length h \<le> 4 then [CHR 9] else sep) @
             concat (map (\<lambda>c. if [c] = newline then sep else [c]) u) @ default_note d @ newline)"

definition print_defaults :: "flag_doc list \<Rightarrow> string" where
  "print_defaults ds = concat (map flag_help (sort_key fd_name ds))"

text \<open>The dispatcher's \<open>printUsage\<close>; the options follow when the error carries the flag set.\<close>

definition print_usage :: "subcommand \<Rightarrow> bool \<Rightarrow> string" where
  "print_usage cmd flags =
     (case find (\<lambda>c. cm_run c = cmd) commands of
        None \<Rightarrow> []
      | Some c \<Rightarrow>
          ''usage: osfp '' @ cm_usage c @ newline @
          (if flags
           then newline @ cm_summary c @ newline @ newline @ ''options:'' @ newline @ print_defaults (command_docs cmd)
           else []))"

text \<open>The usage text that goes with a diagnosis.\<close>

definition diagnosis_usage :: "diagnosis \<Rightarrow> string" where
  "diagnosis_usage d =
     (case d of
        GeneralUsage \<Rightarrow> usage_text
      | UnknownCommand _ general \<Rightarrow> if general then usage_text else []
      | CommandUsage cmd flags \<Rightarrow> print_usage cmd flags
      | _ \<Rightarrow> [])"

end
