(* ===== verification/Spec2Isabelle.thy ===== *)
theory Spec2Isabelle
  imports Canon Entry Store_Session Store_Hostile Humanize Exclude Diff_Ignore Diff_Result
    Fs_Type Os_Key Report_Result Report_Output Cmd_Info Scan_Result Scan_Ring
    Go_Sha256_Vector Cmd_Result Cmd_Perimeter Cmd_Usage
begin

text \<open>
  A verification development of \<open>osfp\<close>, a tool that records the state of a file system in a
  fingerprint (\<open>osfp baseline\<close>) and later reports what has changed (\<open>osfp compare\<close>).
  Everything is translated from the Go source under \<open>src/internal\<close> and \<open>src/cmd/osfp\<close>.

  \<^bold>\<open>How the program works.\<close> A scan walks a subtree in a canonical order of paths, a pool of
  workers hashes the regular files, and a ring of cells hands the finished entries to one
  consumer in the order of the walk. \<open>baseline\<close> gives them to the fingerprint writer, whose
  bytes go to a temporary file that is renamed into place. \<open>compare\<close> opens and verifies a
  fingerprint, repeats the scan with the perimeter that it records, and merges the two ordered
  streams; a classifier decides for each common path which category of change it is, and a
  reporter prints the changes and the counters, which also decide the exit code. The order of
  paths is the contract that holds all of this together: the walk produces it, the writer
  refuses anything else, the block decoder enforces it within a block, and the join needs it
  from both sides.

  \<^bold>\<open>Theories and sources.\<close>
  \<^item> \<open>Prelude\<close>: the types of bytes and machine integers, lemmas on lists and words.
  \<^item> \<open>Canon\<close> (\<open>canon/key.go\<close>): \<open>compare_key\<close>, the order it defines and its
    instance of \<open>linorder\<close>.
  \<^item> \<open>Entry\<close> (\<open>scan/entry.go\<close>): the entry record, the types, both conversions of modes.
  \<^item> \<open>Go_Binary\<close>, \<open>Go_Sha256\<close>, \<open>Go_Strings\<close>, \<open>Go_Text\<close>, \<open>Go_Path\<close>, \<open>Go_Time\<close>,
    \<open>Go_Flags\<close>: what the source uses of the standard library (varints and fixed integers,
    SHA-256 with a test vector, strings, \<open>path/filepath\<close>, times and durations, \<open>flag\<close>).
  \<^item> \<open>Store_Format\<close>, \<open>Store_Writer\<close> (\<open>store/format.go\<close>, \<open>meta.go\<close>, \<open>writer.go\<close>) and
    \<open>Store_Decode\<close>, \<open>Store_Reader\<close> (\<open>decode.go\<close>, \<open>reader.go\<close>): the writer on a device that
    may fill up, and the reader on arbitrary bytes, with \<open>int64\<close> arithmetic.
    \<open>Store_Image\<close> is the image that a writer leaves, \<open>Store_Roundtrip\<close> opening it,
    \<open>Store_Cursor\<close> the cursor and \<open>Seek\<close>, \<open>Store_Session\<close> the whole session, and
    \<open>Store_Hostile\<close> the reader on files nobody wrote.
  \<^item> \<open>Exclude\<close> (\<open>exclude/matcher.go\<close>, \<open>defaults.go\<close>): compiling and matching a perimeter.
  \<^item> \<open>Fs_Type\<close> (\<open>scan/fstype*.go\<close>, \<open>vfs.go\<close>, \<open>cstr\<close>): kinds of file systems.
  \<^item> \<open>Scan_Path\<close>, \<open>Scan_Walk\<close>, \<open>Scan_Order\<close>, \<open>Scan_Result\<close> (\<open>scan/walk.go\<close>,
    \<open>stat_unix.go\<close>, \<open>open_linux.go\<close>): the walk over a \<open>tree\<close> of answers of the system, its
    order, what it emits, how it is interrupted, its counters.
  \<^item> \<open>Scan_Ring\<close> (\<open>scan/reorder.go\<close>, \<open>hash.go\<close>): channels, workers and the consumer as a
    step relation, with every interleaving.
  \<^item> \<open>Diff_Op\<close>, \<open>Diff_Classify\<close>, \<open>Diff_Ignore\<close>, \<open>Diff_Join\<close>, \<open>Diff_Result\<close>
    (\<open>diff/*.go\<close>): categories, the classifier against a decision table, ignore rules, and the
    merge join against a declarative list of changes.
  \<^item> \<open>Humanize\<close> (\<open>humanize.go\<close>), \<open>Report\<close>, \<open>Report_Json\<close>, \<open>Report_Result\<close>,
    \<open>Report_Output\<close> (\<open>report/*.go\<close>): numbers for readers, both reporters on one writer, and the
    whole text or JSON stream that a finished report is.
  \<^item> \<open>Os_Detect\<close>, \<open>Os_Key\<close> (\<open>osdetect/*.go\<close>): the detectors of every system and the key.
  \<^item> \<open>Cmd_Atomic\<close> (\<open>atomic.go\<close>), \<open>Cmd_Main\<close> (\<open>main.go\<close>, \<open>root.go\<close>, \<open>flags.go\<close>,
    \<open>version.go\<close>), \<open>Cmd_Baseline\<close>, \<open>Cmd_Compare\<close>, \<open>Cmd_Info\<close>: the five commands and the
    dispatcher, \<open>osfp\<close> being the whole program; \<open>Cmd_Usage\<close>: its usage texts.
  \<^item> \<open>Cmd_Result\<close>, \<open>Cmd_Contract\<close>, \<open>Cmd_Session\<close>, \<open>Cmd_Join\<close>, \<open>Exclude_Replay\<close>,
    \<open>Cmd_Drift\<close>, \<open>Cmd_Unchanged\<close>: the composition of the parts inside the commands, case by
    case. How each command can end and with which code; that a baseline which succeeds has left
    the image of what its walk emitted; that walk, cursor, join and reporter together are the
    merge of two lists; that the perimeter of a record compiles, automatic paths included, to
    the perimeter it was made from; what a comparison with any filters, extra exclusions and
    destination sees of a later tree and prints, and that on the same tree it is what the
    baseline saw. \<open>Cmd_Sample\<close> is a host on which all of this happens, \<open>Cmd_Grown\<close> the same
    host one file later, \<open>Cmd_Perimeter\<close> what a run leaves out of its own scan.
  \<^item> This theory: the properties of the whole program that rest on all of these.

  \<^bold>\<open>State.\<close> Each component has the record that the code has: \<open>writer\<close>, \<open>reader\<close>, \<open>cursor\<close>,
  \<open>exclude_set\<close>, \<open>walk_state\<close> (the ring of cells included, because \<open>visit\<close> reads one after it
  was released), \<open>joiner\<close>, \<open>text_reporter\<close>, \<open>atomic_file\<close>. Operations take the state and
  return it with an option or a sum for the error; a panic of the code is a value of its own.

  \<^bold>\<open>Interfaces.\<close> The order of keys is the locale that \<open>Canon\<close> interprets on
  \<open>compare_key\<close>; \<open>diff.Source\<close> is the locale \<open>source\<close>, interpreted on the cursor of every
  reader, and the join is proved inside it; a \<open>Reporter\<close> latches its first error, the locale
  \<open>latching\<close>, interpreted on both reporters and on their union; a destination that takes what
  it is given is the locale \<open>taking\<close>, which \<open>text_output\<close> and \<open>json_output\<close> extend with
  what the two reporters then write, interpreted on a list of lines, on a text and on a
  stream of encoded records.

  \<^bold>\<open>What the lemmas show.\<close> Writing and reading back, seeking and verifying; that no file makes
  the decoder fail other than by an error value, with the one overflow that does; the order,
  the perimeter, the completeness and the interruption of a walk; delivery, progress and
  conservation of cells in the ring; the join against its specification with counters that add
  up; replay of a recorded perimeter; keys and \<open>os-release\<close>; reports that lose nothing; a
  fingerprint file that is never half written, whatever crashes. For the program as a whole: a
  baseline reads back as the scan it came from, a comparison after it counts exactly what has
  changed since and prints it to the byte, what a comparison leaves out shows as removed, an
  unchanged system compares clean, exit codes
  mean what they promise, and a run that fails changes no file.

  \<^bold>\<open>Bounds and fuel.\<close> There is no fuel: loops are structural recursions or have a measure, and
  the two loops of the join, which pull from an unknown source, are \<open>partial_function\<close>s that
  are shown to return for every source that satisfies the locale. Integers that the code keeps
  in machine words are words; counters of the report and the scan, which the code keeps in
  \<open>int\<close>, are natural numbers, since they count objects in memory.

  \<^bold>\<open>Parameters.\<close> Code outside the repository is an argument: \<open>zstd\<close> and \<open>encoding/json\<close> with
  the hypothesis that they decode what they encode, the Unicode tables and the XML tokenizer,
  the system calls with their errors (\<open>system\<close>, \<open>env\<close>, \<open>io\<close>, \<open>host\<close>), the context of a
  scan as an oracle asked at each point where the code asks it, and the destination of a
  report as a function on a state of its own.

  \<^bold>\<open>Not modelled.\<close> The texts of most error messages (they are values that name their
  content); the addresses and timing of goroutines beyond the step relation of
  the ring; the moment at which \<open>bufio\<close> passes bytes on, other than as a free choice in
  \<open>Cmd_Atomic\<close>; permissions of the file that is created. A fingerprint is read as it was when it
  was opened, and a scan does not see the files that the commands themselves write, which the
  perimeter excludes.
\<close>

section \<open>Baselines and comparisons of the whole program\<close>

text \<open>
  C2. A baseline that reports success has left its file: after \<open>osfp baseline\<close> exits with 0,
  opening the target with the code of \<open>verify\<close> and \<open>compare\<close> succeeds, digest included; the
  cursor delivers exactly the entries that the walk of the root with the recorded perimeter
  emitted, in their order, and then the end; and the metadata is that of this run with the
  counters of these entries. Assumed are the two libraries, the promise of \<open>os.ReadDir\<close> on
  names, and that the limits which only the reader knows are not exceeded.
\<close>

theorem baseline_round_trip:
  assumes "osfp h cd (''baseline'' # args) fs = (c', 0, d)" and "baseline_parts h args fs as policy info key s t ws"
    and "codec_ok cd" and "no_links fs" and "absolute (string_flag as ''root'' ''/'')" and "tree_ok t"
    and "within_limits cd (parts_meta h as policy info key s) (ws_out ws)"
  shows "baseline_walk h as policy s t = (ws, None) \<and>
    (\<exists>r. open_verified h cd (co_fs c') (baseline_target as key) = Inr r \<and>
      drain (cd_dec cd) r (reader_cursor r) = (ws_out ws, End) \<and>
      r_meta r = counted_meta (parts_meta h as policy info key s) (ws_out ws))"
  using baseline_reads_back [OF osfp_baseline_ok [OF assms(1)]] assms(2-7) by simp



text \<open>
  C6. What is left out of a comparison is reported as deleted. Whatever the baseline recorded at
  or below a path that the comparison excludes on top of the recorded perimeter, be it given
  with \<open>--exclude\<close> or the report file of \<open>-o\<close> and its temporary file, is among the changes as a
  removal, whether it is still there or not, unless a filter hides it; and unless it lies in a
  volatile directory it makes \<open>--fail-on-diff\<close> exit with 1. The path is a clean absolute one
  below the root of the scan, without glob characters or white space around it.
\<close>

theorem excluded_paths_reported_removed:
  assumes "osfp h0 cd (''baseline'' # bargs) fs = (c1, 0, diag)" and "baseline_parts h0 bargs fs bas policy info key s0 t0 ws"
    and "codec_ok cd" and "no_links fs" and root: "absolute (string_flag bas ''root'' ''/'')" and tree: "tree_ok t0"
    and "within_limits cd (parts_meta h0 bas policy info key s0) (ws_out ws)"
    and m: "m = counted_meta (parts_meta h0 bas policy info key s0) (ws_out ws)"
    and parts: "compare_parts h cargs (co_fs c1) m cas mode jo d s fs'" and "repeats h bas key cas"
    and "takes_report h cas (co_fs c1)" and "later_host h0 h" and scan: "scannable h bas policy t"
    and q: "q \<in> set (list_flag cas ''exclude'') \<union> (case d of None \<Rightarrow> {} | Some a \<Rightarrow> set (af_paths a))"
    and plain: "clean_abs q" "\<not> is_glob q" "trim_space q = q"
    and below: "is_under q (clean (string_flag bas ''root'' ''/''))" "q \<noteq> clean (string_flag bas ''root'' ''/'')"
    and e: "e \<in> set (ws_out ws)" "is_under (e_path e) q" and sh: "shown jo (removed_change e)"
  shows "\<exists>c2 st code. osfp h cd (''compare'' # cargs) (co_fs c1) = (c2, code, NoDiagnosis) \<and>
    removed_change e \<in> set (drift_changes jo (ws_out ws) (live_entries h bas policy s (ws_out ws) mode t)) \<and>
    counted_result h cd cargs cas st (length (filter (\<lambda>c. set_volatile s (c_path c))
      (drift_changes jo (ws_out ws) (live_entries h bas policy s (ws_out ws) mode t)))) \<and> 0 < stats_total st \<and>
    (bool_flag cas ''fail-on-diff'' \<and> \<not> set_volatile s (e_path e) \<longrightarrow> code = 1)"
proof -
  let ?cs = "drift_changes jo (ws_out ws) (live_entries h bas policy s (ws_out ws) mode t)"
  have walk: "baseline_walk h0 bas policy s0 t0 = (ws, None)"
    using baseline_reads_back [OF osfp_baseline_ok [OF assms(1)]] assms(2-7) by simp
  have inc: "increasing (ws_out ws)" using baseline_walk_emits [OF walk tree root] by simp
  have "set_match s q" by (rule compared_excludes [OF parts _ root q plain below]) (simp add: m counted_meta_def baseline_meta_def)
  from hidden_is_removed [OF scan root inc this plain(1) below e] sh
  have gone: "removed_change e \<in> set ?cs" by (simp add: drift_changes_def)
  then have "0 < length ?cs" by (cases ?cs) simp_all
  moreover have "c_path (removed_change e) = e_path e" by (simp add: removed_change_def)
  ultimately show ?thesis using drift_osfp [OF assms(1-13) refl refl] gone by fastforce
qed


text \<open>
  C9. The exit codes are a contract: every run of the program ends with 0, 1, 2, 3 or 130. Code
  1 is left to \<open>compare\<close>, and a comparison that ends with 0 or 1 has finished its report: the
  code is 1 exactly when \<open>--fail-on-diff\<close> was given and the counters of the report show more
  changes than were expected; with any other difference, or none, it is 0.
\<close>

theorem exit_code_contract:
  assumes "osfp h cd args fs = (c', code, d)"
  shows "code \<in> {0, 1, 2, 3, 130} \<and> (code = 1 \<longrightarrow> (\<exists>rest. args = ''compare'' # rest)) \<and>
    (\<forall>rest. args = ''compare'' # rest \<and> code \<in> {0, 1} \<longrightarrow>
      (\<exists>as st n. counted_result h cd rest as st n \<and>
         (code = 1 \<longleftrightarrow> bool_flag as ''fail-on-diff'' \<and> n < stats_total st)))"
proof (cases args)
  case Nil
  with assms show ?thesis by (simp add: osfp_def dispatch_def exit_codes)
next
  case (Cons name rest)
  show ?thesis
  proof (cases "name \<in> {''-h'', ''-help'', ''--help'', ''help''}")
    case True
    then have "name \<noteq> ''compare''" by auto
    moreover from True assms Cons have "code \<in> {exit_ok, exit_error}"
      by (auto simp: osfp_def dispatch_def help_command_def Let_def split: list.splits option.splits prod.splits)
    ultimately show ?thesis using Cons by (auto simp: exit_codes)
  next
    case False
    define name' where "name' = (if name \<in> {''-V'', ''--version''} then ''version'' else name)"
    define rest' where "rest' = (if name \<in> {''-V'', ''--version''} then [] else rest)"
    have run: "(case lookup_command name' of
          None \<Rightarrow> (console_start fs, exit_error, UnknownCommand name' True)
        | Some cmd \<Rightarrow> (case run_command_of h cd cmd rest' (console_start fs) of (c, err) \<Rightarrow> (c, outcome cmd err))) =
        (c', code, d)"
    proof (cases "name \<in> {''-V'', ''--version''}")
      case True
      then have n: "name' = ''version''" "rest' = []" by (simp_all add: name'_def rest'_def)
      from assms Cons False True show ?thesis unfolding n by (simp add: osfp_def dispatch_def)
    next
      case other: False
      then have n: "name' = name" "rest' = rest" by (simp_all add: name'_def rest'_def)
      from assms Cons False other show ?thesis unfolding n by (simp add: osfp_def dispatch_def)
    qed
    show ?thesis
    proof (cases "lookup_command name'")
      case None
      then have "name \<noteq> ''compare''" by (auto simp: name'_def lookup_command_cases)
      with None run Cons show ?thesis by (auto simp: exit_codes)
    next
      case (Some cmd)
      obtain c1 e where r: "run_command_of h cd cmd rest' (console_start fs) = (c1, e)" by (metis surj_pair)
      with run Some have code: "code = (case e of None \<Rightarrow> exit_ok | Some x \<Rightarrow> cmd_code x)"
        using outcome_code [of cmd e] by auto
      have is_compare: "cmd = Compare \<longleftrightarrow> name = ''compare''"
        using Some by (auto simp: name'_def lookup_command_cases split: if_splits)
      have codes: "code \<in> {0, 1, 2, 3, 130} \<and> (code = 1 \<longrightarrow> cmd = Compare)"
        using code run_command_code [of h cd cmd rest' "console_start fs" c1] r
        by (cases e) (auto simp: exit_codes)
      have counted: "\<exists>as st n. counted_result h cd rest as st n \<and>
          (code = 1 \<longleftrightarrow> bool_flag as ''fail-on-diff'' \<and> n < stats_total st)"
        if "name = ''compare''" "code \<in> {0, 1}"
      proof -
        have "run_compare h cd rest (console_start fs) = (c1, e)"
          using r that(1) is_compare by (simp add: run_command_of_def rest'_def)
        from run_compare_code [OF this] code that(2) obtain as st n where
          "counted_result h cd rest as st n" "e = compare_exit as st n" by (auto simp: exit_codes)
        moreover from this(2) code have "code = 1 \<longleftrightarrow> bool_flag as ''fail-on-diff'' \<and> n < stats_total st"
          by (auto simp: compare_exit_def exit_codes)
        ultimately show ?thesis by blast
      qed
      with codes is_compare Cons show ?thesis by auto
    qed
  qed
qed

text \<open>
  What the summary and the exit code mean for any two streams: with a destination that takes what it is given, a
  comparison over a readable fingerprint runs to its end; the total of its counters is the
  number of changes that the two streams call for and that pass the filters, the expected
  ones among them are those in volatile directories, and with \<open>--fail-on-diff\<close> the command
  ends with 1 exactly when one of these changes lies outside of them.
\<close>

theorem exit_code_means_change:
  assumes "writer_ok h" and "rep_err rep = None"
    and "ho_tree h (clean (wo_root opts)) = Inr t" and "tree_is_dir t" and "tree_ok t" and "absolute (wo_root opts)"
    and "walk_scan (set_defaults (sy_num_cpu (ho_system h)) opts) (ho_system h) t = (ws, None)"
    and "drain (cd_dec cd) r (reader_cursor r) = (base, End)" and "increasing base"
  shows "\<exists>rep' out st n. compare_join h cd r as opts jo s rep = (rep', out, Inr (st, n)) \<and>
    stats_total st = length (filter (shown jo) (changes_of base (ws_out ws))) \<and>
    n = length (filter (\<lambda>c. shown jo c \<and> set_volatile s (c_path c)) (changes_of base (ws_out ws))) \<and>
    (compare_exit as st n = Some (CodedError 1 None) \<longleftrightarrow> bool_flag as ''fail-on-diff'' \<and>
       (\<exists>c\<in>set (changes_of base (ws_out ws)). shown jo c \<and> \<not> set_volatile s (c_path c)))"
proof -
  have live: "increasing (ws_out ws)" by (rule walk_increasing [OF assms(7,5,6)])
  note cs = map_filter_changes [OF assms(9) live]
  obtain rep' out st n re where run: "compare_join h cd r as opts jo s rep = (rep', out, Inr (st, n))"
    "foldl (core_event jo (report_one h s)) ((rep, 0), zero_stats) (merge_events base (ws_out ws)) = (re, st)"
    "snd re = n"
    by (rule compare_join_runs [OF assms(1-4,7,8) live, of as jo s]) auto
  from core_counts [of jo h s "((rep, 0), zero_stats)" "merge_events base (ws_out ws)"] run(2,3)
  have counts: "n = length (filter (\<lambda>c. shown jo c \<and> set_volatile s (c_path c)) (changes_of base (ws_out ws)))"
    "stats_total st = length (filter (shown jo) (changes_of base (ws_out ws)))"
    by (simp_all add: cs)
  have "compare_exit as st n = Some (CodedError 1 None) \<longleftrightarrow> bool_flag as ''fail-on-diff'' \<and> n < stats_total st"
    by (auto simp: compare_exit_def with_exit_def exit_codes)
  also have "n < stats_total st \<longleftrightarrow> (\<exists>c\<in>set (changes_of base (ws_out ws)). shown jo c \<and> \<not> set_volatile s (c_path c))"
    unfolding counts by (rule fewer_filtered)
  finally show ?thesis using run(1) counts by blast
qed

section \<open>Files\<close>

text \<open>
  C10. A run that fails changes no file: when any command ends with an error, other than the
  error that only says that differences were found, every name that is not a temporary one
  reads as before, at whatever point the scan, the disk, the report or the context failed.
  What is assumed is that names are not hard links of each other and that the directory can
  be synced, without which \<open>Commit\<close> may report an error after its rename.
\<close>

theorem failed_run_keeps_files:
  assumes "run_command_of h cd cmd args c = (c', Some e)" and "e \<noteq> with_exit exit_diff None"
    and "no_links (co_fs c)" and "dir_syncs (ho_io h)" and "\<not> temporary name"
  shows "fs_read (co_fs c') name = fs_read (co_fs c) name"
proof -
  have "same_files (co_fs c) (co_fs c')"
  proof (cases cmd)
    case Baseline
    with assms(1) run_baseline_fails [OF assms(3,4)] show ?thesis by (simp add: run_command_of_def)
  next
    case Compare
    with assms(1) have "run_compare h cd args c = (c', Some e)" by (simp add: run_command_of_def)
    then show ?thesis
    proof (cases rule: run_compare_cases)
      case (early err)
      then show ?thesis by simp
    next
      case (checked as mode r policy c1)
      from checked(10) show ?thesis
      proof (cases rule: compare_checked_cases)
        case (failed err)
        with assms(3,4) checked(5) show ?thesis by simp
      next
        case (finished d autos fs body out st n d' c2)
        with assms(2) show ?thesis by (simp add: compare_exit_def split: if_splits)
      qed
    qed
  next
    case Info
    with assms(1) show ?thesis
      by (auto simp: run_command_of_def run_info_def Let_def split: sum.splits if_splits)
  next
    case Verify
    with assms(1) show ?thesis
      by (auto simp: run_command_of_def run_verify_def Let_def split: sum.splits if_splits)
  next
    case Version
    with assms(1) show ?thesis
      by (auto simp: run_command_of_def run_version_def Let_def split: sum.splits if_splits)
  qed
  with assms(5) show ?thesis by (simp add: same_files_def)
qed

section \<open>Privileges\<close>

text \<open>
  Without root and without \<open>--allow-non-root\<close> the two commands that scan do nothing at all:
  the files and everything printed stay as they are, whatever the rest of the host would have
  answered, and the error is a complaint about the command line or the demand for root with
  the effective user.
\<close>

theorem unprivileged_run_refused:
  assumes "ho_euid h \<noteq> 0" and "cmd \<in> {Baseline, Compare}"
    and "\<forall>as rest. parse_flags (if cmd = Baseline then baseline_flags else compare_flags) [] args = Inr (as, rest) \<longrightarrow>
      \<not> bool_flag as ''allow-non-root''"
  shows "\<exists>e. run_command_of h cd cmd args c = (c, Some e) \<and>
    ((\<exists>x. e = UsageError x) \<or> (\<exists>s. e = PlainError (BadMounts s)) \<or> (\<exists>s. e = PlainError (BadNewDirMode s)) \<or>
     e = CodedError 3 (Some (MustBeRoot (ho_euid h))))"
proof (cases "parse_flags (if cmd = Baseline then baseline_flags else compare_flags) [] args")
  case (Inl x)
  with assms(2) show ?thesis by (auto simp: run_command_of_def run_baseline_def run_compare_def)
next
  case (Inr ar)
  obtain as rest where ar: "ar = (as, rest)" by (cases ar)
  have root: "require_root h (bool_flag as ''allow-non-root'') c = (c, Some (CodedError 3 (Some (MustBeRoot (ho_euid h)))))"
    using assms(1,3) Inr ar by (simp add: require_root_def with_exit_def exit_codes)
  from assms(2) consider "cmd = Baseline" | "cmd = Compare" by auto
  then show ?thesis
  proof cases
    case 1
    with Inr ar root show ?thesis
      by (cases "parse_mount_policy (string_flag as ''mounts'' ''local'')")
        (auto simp: run_command_of_def run_baseline_def)
  next
    case 2
    with Inr ar root show ?thesis
      by (cases "parse_new_dir_mode (string_flag as ''new-dir-mode'' ''summary'')")
        (auto simp: run_command_of_def run_compare_def Let_def)
  qed
qed

section \<open>The properties on the sample host\<close>

text \<open>
  A baseline of the sample host succeeds; its file reads back, and the comparison that follows
  is clean and exits with 0.
\<close>

theorem baseline_round_trip_witness:
  "\<exists>cd c1 r es. osfp sample_host cd (''baseline'' # sample_args) sample_fs = (c1, 0, NoDiagnosis) \<and>
     open_verified sample_host cd (co_fs c1) ''/f.osfp'' = Inr r \<and>
     drain (cd_dec cd) r (reader_cursor r) = (es, End) \<and> es = [sample_dir]"
proof -
  obtain info s ws cd c1 where b: "run_baseline sample_host cd sample_args (console_start sample_fs) = (c1, None)"
    and p: "baseline_parts sample_host sample_args sample_fs sample_flags MountLocal info ''k'' s (dir_on 1 NoMore) ws"
    and ok: "codec_ok cd" "within_limits cd (parts_meta sample_host sample_flags MountLocal info ''k'' s) (ws_out ws)"
    and out: "ws_out ws = [sample_dir]"
    using sample_session by auto
  note run = osfp_ok(1) [OF b]
  have links: "no_links sample_fs" using sample_session_ok(1) by simp
  obtain r where "open_verified sample_host cd (co_fs c1) (baseline_target sample_flags ''k'') = Inr r"
    "drain (cd_dec cd) r (reader_cursor r) = (ws_out ws, End)"
    using baseline_round_trip [OF run p ok(1) links sample_session_ok(2,3) ok(2)] by blast
  then have "open_verified sample_host cd (co_fs c1) ''/f.osfp'' = Inr r"
    "drain (cd_dec cd) r (reader_cursor r) = (ws_out ws, End)" by (simp_all only: sample_values(7))
  with run out show ?thesis by (intro exI conjI)
qed




text \<open>With \<open>--exclude /r/x\<close> the file, which is there in both scans, is reported as removed.\<close>

theorem excluded_paths_reported_removed_witness:
  "\<exists>cd c1 c2 st n. osfp grown_host cd (''baseline'' # sample_args) sample_fs = (c1, 0, NoDiagnosis) \<and>
     osfp grown_host cd (''compare'' # sample_excluding) (co_fs c1) = (c2, 1, NoDiagnosis) \<and>
     counted_result grown_host cd sample_excluding sample_excluding_flags st n \<and> 0 < stats_total st"
proof -
  obtain info s ws cd c1 where b: "run_baseline grown_host cd sample_args (console_start sample_fs) = (c1, None)"
    and p: "baseline_parts grown_host sample_args (co_fs (console_start sample_fs)) sample_flags MountLocal info ''k'' s grown_tree ws"
    and ok: "codec_ok cd" "within_limits cd (parts_meta grown_host sample_flags MountLocal info ''k'' s) (ws_out ws)"
    and out: "ws_out ws = [sample_dir, sample_file]" and own: "xs_patterns s = [''/f.osfp'', ''/f.osfp.tmp'']"
    using grown_session by blast
  obtain jo s' where parts: "compare_parts grown_host sample_excluding (co_fs c1)
      (counted_meta (parts_meta grown_host sample_flags MountLocal info ''k'' s) (ws_out ws)) sample_excluding_flags
      DirSummary jo None s' (co_fs c1)" and shown: "\<forall>c. shown jo c" and free: "\<not> set_volatile s' ''/r/x''"
    using sample_compare_parts(2) [OF grown_session_ok(4) own refl] by blast
  note run = osfp_ok(1) [OF b]
  have p': "baseline_parts grown_host sample_args sample_fs sample_flags MountLocal info ''k'' s grown_tree ws"
    and links: "no_links sample_fs" using p grown_session_ok(2) by simp_all
  have q: "''/r/x'' \<in> set (list_flag sample_excluding_flags ''exclude'') \<union>
      (case None of None \<Rightarrow> {} | Some a \<Rightarrow> set (af_paths a))" by (simp add: exclude_flag_values)
  have plain: "clean_abs ''/r/x''" "\<not> is_glob ''/r/x''" "trim_space ''/r/x'' = ''/r/x''"
    using clean_absolute [of "''/r/x''"]
    by (simp_all add: clean_r_x absolute_def has_prefix_def is_glob_def contains_any_def trim_sample)
  have below: "is_under ''/r/x'' (clean (string_flag sample_flags ''root'' ''/''))"
    "''/r/x'' \<noteq> clean (string_flag sample_flags ''root'' ''/'')"
    by (simp_all add: sample_values clean_sample is_under_def has_prefix_def)
  have e: "sample_file \<in> set (ws_out ws)" "is_under (e_path sample_file) ''/r/x''"
    by (simp_all add: out sample_file_facts)
  obtain c2 st code where ends: "osfp grown_host cd (''compare'' # sample_excluding) (co_fs c1) = (c2, code, NoDiagnosis)"
    "counted_result grown_host cd sample_excluding sample_excluding_flags st (length (filter (\<lambda>c. set_volatile s' (c_path c))
      (drift_changes jo (ws_out ws) (live_entries grown_host sample_flags MountLocal s' (ws_out ws) DirSummary grown_tree))))"
    "0 < stats_total st"
    "bool_flag sample_excluding_flags ''fail-on-diff'' \<and> \<not> set_volatile s' (e_path sample_file) \<longrightarrow> code = 1"
    using excluded_paths_reported_removed [OF run p' ok(1) links grown_session_ok(3,1) ok(2) refl parts grown_repeats_excluding
        grown_takes _ grown_scannable q plain below e] later_same shown by blast
  moreover have "code = 1"
    using ends(4) free compare_flag_values(2) [of sample_excluding_flags] by (simp add: sample_file_facts)
  ultimately show ?thesis using run by blast
qed

theorem exit_code_contract_witness:
  "\<exists>cd fs c as st n. osfp sample_host cd (''compare'' # sample_again) fs = (c, 0, NoDiagnosis) \<and>
     counted_result sample_host cd sample_again as st n \<and> \<not> (bool_flag as ''fail-on-diff'' \<and> n < stats_total st)"
proof -
  obtain info s ws cd c1 jo s' where b: "run_baseline sample_host cd sample_args (console_start sample_fs) = (c1, None)"
    and p: "baseline_parts sample_host sample_args (co_fs (console_start sample_fs)) sample_flags MountLocal info ''k'' s (dir_on 1 NoMore) ws"
    and ok: "codec_ok cd" "within_limits cd (parts_meta sample_host sample_flags MountLocal info ''k'' s) (ws_out ws)"
    and parts: "compare_parts sample_host sample_again (co_fs c1)
      (counted_meta (parts_meta sample_host sample_flags MountLocal info ''k'' s) (ws_out ws)) sample_again_flags
      DirSummary jo None s' (co_fs c1)"
    and st: "steady sample_host sample_flags MountLocal (dir_on 1 NoMore) ws"
    using sample_comparison by blast
  obtain c2 where run: "run_compare sample_host cd sample_again (console_start (co_fs c1)) = (c2, None)"
    using unchanged_compare [OF b p ok(1) sample_session_ok(1,2,3) ok(2) refl parts sample_session_ok(4)
        exclude_flag_values(1) compare_flag_values(1) st co_fs_start] by blast
  note ends = osfp_ok(2) [OF run]
  have "\<exists>as st n. counted_result sample_host cd sample_again as st n \<and>
      ((0::int) = 1 \<longleftrightarrow> bool_flag as ''fail-on-diff'' \<and> n < stats_total st)"
    using exit_code_contract [OF ends] by simp
  then obtain as st n where "counted_result sample_host cd sample_again as st n"
    "\<not> (bool_flag as ''fail-on-diff'' \<and> n < stats_total st)" by auto
  with ends show ?thesis by (intro exI conjI)
qed

text \<open>A comparison that finds a removed and an added path, and fails with 1.\<close>

theorem exit_code_means_change_witness:
  "\<exists>opts rep rep' out st. compare_join sample_host (sample_codec sample_meta) sample_reader sample_again_flags opts
       plain_options empty_set rep = (rep', out, Inr (st, 0)) \<and> stats_total st = 2 \<and>
     compare_exit sample_again_flags st 0 = Some (CodedError 1 None)"
proof -
  let ?ro = "\<lparr>ro_color = False, ro_volatile = None\<rparr>"
  obtain rep where rep: "rep_err (rep :: (string, string) reporter) = None"
  proof -
    obtain rep where n: "new_reporter ''text'' [] ?ro = Inr (rep :: (string, string) reporter)"
      by (auto simp: new_reporter_def)
    from that [OF new_reporter_fresh [OF n]] show thesis .
  qed
  obtain ws where scan: "baseline_walk sample_host sample_flags MountLocal empty_set (dir_on 1 NoMore) = (ws, None)"
    "ws_out ws = [sample_dir]" using sample_scan by blast
  note ws = scan sample_dir_facts(1)
  let ?opts = "baseline_options sample_host sample_flags MountLocal empty_set"
  have t: "ho_tree sample_host (clean (wo_root ?opts)) = Inr (dir_on 1 NoMore)" "tree_is_dir (dir_on 1 NoMore)"
    by (simp add: sample_values clean_sample sample_host_def) (simp add: tree_is_dir_def dir_on_def, code_simp)
  have w: "writer_ok sample_host" by (simp add: writer_ok_def sample_host_def)
  have dr: "drain (cd_dec (sample_codec sample_meta)) sample_reader (reader_cursor sample_reader) = ([sample_entry], End)"
    using sample_drain by (simp add: sample_codec_def)
  have fl: "bool_flag sample_again_flags ''fail-on-diff''" by code_simp
  have ab: "absolute (wo_root ?opts)" using sample_session_ok(2) by simp
  have inc: "increasing [sample_entry]" by simp
  have "increasing (ws_out ws)" by (simp add: ws(2))
  from map_filter_changes [OF inc this] ws(2,3)
  have ch: "changes_of [sample_entry] (ws_out ws) = [removed_change sample_entry, added_change sample_dir]"
    by (simp add: sample_entry_def List.map_filter_def)
  have vol: "\<not> set_volatile empty_set p" for p by code_simp
  obtain rep' out st n where
    run: "compare_join sample_host (sample_codec sample_meta) sample_reader sample_again_flags ?opts plain_options empty_set
        rep = (rep', out, Inr (st, n))"
    and counts: "stats_total st = length (filter (shown plain_options) (changes_of [sample_entry] (ws_out ws)))"
      "n = length (filter (\<lambda>c. shown plain_options c \<and> set_volatile empty_set (c_path c))
        (changes_of [sample_entry] (ws_out ws)))"
    and code: "compare_exit sample_again_flags st n = Some (CodedError 1 None) \<longleftrightarrow>
      bool_flag sample_again_flags ''fail-on-diff'' \<and>
      (\<exists>c\<in>set (changes_of [sample_entry] (ws_out ws)). shown plain_options c \<and> \<not> set_volatile empty_set (c_path c))"
    using exit_code_means_change [OF w rep t(1,2) sample_session_ok(3) ab ws(1) [unfolded baseline_walk_def] dr inc,
      of sample_again_flags plain_options empty_set] by blast
  have all: "shown plain_options c" for c by (simp add: shown_def plain_options_def ignore_match_def)
  have n: "n = 0" unfolding counts(2) by (simp add: vol)
  have "stats_total st = 2" unfolding counts(1) ch by (simp add: all)
  moreover have "compare_exit sample_again_flags st 0 = Some (CodedError 1 None)"
    using code unfolding ch by (auto simp: all vol fl n)
  ultimately show ?thesis using run unfolding n by (intro exI conjI)
qed

text \<open>A host whose tree is gone: the baseline fails at its walk, and the file it would have replaced is kept.\<close>

theorem failed_run_keeps_files_witness:
  "\<exists>c e. run_command_of (sample_host\<lparr>ho_tree := \<lambda>_. Inl ''gone''\<rparr>) (sample_codec sample_meta) Baseline sample_args
      (console_start sample_fs) = (c, Some e) \<and> fs_read (co_fs c) ''/f.osfp'' = None"
proof -
  let ?h = "sample_host\<lparr>ho_tree := \<lambda>_. Inl ''gone''\<rparr>"
  let ?run = "run_command_of ?h (sample_codec sample_meta) Baseline sample_args (console_start sample_fs)"
  obtain c e where r: "?run = (c, e)" by (metis surj_pair)
  have links: "no_links (co_fs (console_start sample_fs))" by (rule sample_session_ok(1))
  have "e \<noteq> None"
  proof
    assume "e = None"
    with r have "run_baseline ?h (sample_codec sample_meta) sample_args (console_start sample_fs) = (c, None)"
      by (simp add: run_command_of_def)
    from run_baseline_parts [OF this links] show False by (auto simp: baseline_parts_def)
  qed
  then obtain x where x: "e = Some x" by blast
  have "x \<noteq> with_exit exit_diff None"
    using run_command_code [OF r [unfolded x]] by (auto simp: with_exit_def)
  moreover have "dir_syncs (ho_io ?h)" by (simp add: dir_syncs_def sample_host_def working_io_def)
  moreover have "\<not> temporary ''/f.osfp''" by code_simp
  ultimately have "fs_read (co_fs c) ''/f.osfp'' = fs_read (co_fs (console_start sample_fs)) ''/f.osfp''"
    using failed_run_keeps_files [OF r [unfolded x] _ links] by blast
  also have "\<dots> = None" by (simp add: fs_read_def sample_fs_def)
  finally show ?thesis using r x by blast
qed

theorem unprivileged_run_refused_witness:
  "\<exists>e. run_command_of (sample_host\<lparr>ho_euid := 1000\<rparr>) (sample_codec sample_meta) Compare sample_again
      (console_start sample_fs) = (console_start sample_fs, Some e) \<and>
    ((\<exists>x. e = UsageError x) \<or> (\<exists>s. e = PlainError (BadMounts s)) \<or> (\<exists>s. e = PlainError (BadNewDirMode s)) \<or>
     e = CodedError 3 (Some (MustBeRoot 1000)))"
proof -
  have "\<not> bool_flag sample_again_flags ''allow-non-root''" by code_simp
  with unprivileged_run_refused [of "sample_host\<lparr>ho_euid := 1000\<rparr>" Compare sample_again "sample_codec sample_meta"
      "console_start sample_fs"]
  show ?thesis by (auto simp: sample_parsed)
qed

end
